(* ===== verification/Poski_Prelude.thy ===== *)
theory Poski_Prelude
  imports Main "HOL-Library.Word"
begin

text \<open>
  Shared material of the development.  A C function that may return, trip an assertion,
  run into undefined behaviour or never come back is a \<^emph>\<open>program\<close> over a world: it maps
  a world to an \<^emph>\<open>outcome\<close>.  The combinators below are the sequencing, assertion and
  early-exit idioms of the sources; the rest of the theory holds the arithmetic of
  power-of-two masks, byte copies and list facts the components share.

  A blocking call is modelled at the instant at which it completes.  A call that cannot
  complete in the present world has outcome \<open>Stops Blocked\<close>: it is not enabled until
  another task has changed the world.
\<close>

unbundle bit_operations_syntax

named_theorems prog_simps "unfolding equations of the program combinators"

section \<open>Outcomes and programs\<close>

text \<open>
  \<open>Assert_Failure\<close>: an \<open>assert\<close> fired.  \<open>Undefined_Behaviour\<close>: the C or C++ standard
  gives the execution no meaning (null dereference, access outside an object, signed
  overflow, out-of-range conversion).  \<open>Uncaught_Exception\<close>: a C++ exception left a
  function with C linkage.  \<open>Blocked\<close>: the call waits.  \<open>Halted\<close>: the terminal loop or
  \<open>abort\<close> of \<open>pos_panic\<close>.
\<close>

datatype stop =
    Assert_Failure
  | Undefined_Behaviour
  | Uncaught_Exception
  | Blocked
  | Halted

datatype ('a, 'w) outcome =
    Returns 'a 'w
  | Stops stop

type_synonym ('a, 'w) prog = "'w \<Rightarrow> ('a, 'w) outcome"

type_synonym u8 = "8 word"
type_synonym u16 = "16 word"
type_synonym u32 = "32 word"
type_synonym bytes = "u8 list"

definition c_return :: "'a \<Rightarrow> ('a, 'w) prog" where
  "c_return a w = Returns a w"

definition c_stop :: "stop \<Rightarrow> ('a, 'w) prog" where
  "c_stop s w = Stops s"

definition c_bind :: "('a, 'w) prog \<Rightarrow> ('a \<Rightarrow> ('b, 'w) prog) \<Rightarrow> ('b, 'w) prog" where
  "c_bind m f w = (case m w of Returns a w' \<Rightarrow> f a w' | Stops s \<Rightarrow> Stops s)"

definition c_then :: "('a, 'w) prog \<Rightarrow> ('b, 'w) prog \<Rightarrow> ('b, 'w) prog" where
  "c_then m n = c_bind m (\<lambda>_. n)"

definition c_assert :: "bool \<Rightarrow> (unit, 'w) prog" where
  "c_assert b w = (if b then Returns () w else Stops Assert_Failure)"

definition c_gets :: "('w \<Rightarrow> 'a) \<Rightarrow> ('a, 'w) prog" where
  "c_gets f w = Returns (f w) w"

definition c_modify :: "('w \<Rightarrow> 'w) \<Rightarrow> (unit, 'w) prog" where
  "c_modify f w = Returns () (f w)"

text \<open>
  Most operations work on one object (the struct the caller passes by address) and on the
  operating system below it.  Their world is a pair of the two: \<open>kcall\<close> runs a program of
  the operating system, \<open>get_obj\<close> and \<open>upd_obj\<close> read and write the struct.
\<close>

definition kcall :: "('a, 'k) prog \<Rightarrow> ('a, 'o \<times> 'k) prog" where
  "kcall f w = (case f (snd w) of Returns a k \<Rightarrow> Returns a (fst w, k) | Stops s \<Rightarrow> Stops s)"

definition get_obj :: "('o \<Rightarrow> 'a) \<Rightarrow> ('a, 'o \<times> 'k) prog" where
  "get_obj f w = Returns (f (fst w)) w"

definition upd_obj :: "('o \<Rightarrow> 'o) \<Rightarrow> (unit, 'o \<times> 'k) prog" where
  "upd_obj f w = Returns () (f (fst w), snd w)"

text \<open>An operation on one object of a table of objects.\<close>

definition on_obj :: "'i \<Rightarrow> ('r, 'o \<times> 'k) prog \<Rightarrow> ('r, ('i \<Rightarrow> 'o) \<times> 'k) prog" where
  "on_obj i m w =
     (case m (fst w i, snd w) of
        Stops s \<Rightarrow> Stops s
      | Returns r (t, rest) \<Rightarrow> Returns r ((fst w)(i := t), rest))"

lemmas prog_defs [prog_simps] =
  c_return_def c_stop_def c_bind_def c_then_def c_assert_def c_gets_def c_modify_def
  kcall_def get_obj_def upd_obj_def

lemma c_bind_assoc: "c_bind (c_bind m f) g = c_bind m (\<lambda>a. c_bind (f a) g)"
  by (rule ext) (simp add: c_bind_def split: outcome.split)

lemma c_bind_return [simp]: "c_bind m c_return = m"
  by (rule ext) (simp add: c_bind_def c_return_def split: outcome.split)

lemma c_return_bind [simp]: "c_bind (c_return a) f = f a"
  by (rule ext) (simp add: c_bind_def c_return_def)

lemma c_bind_Returns: "m w = Returns a w' \<Longrightarrow> c_bind m f w = f a w'"
  by (simp add: c_bind_def)

lemma c_bind_ReturnsE:
  assumes "c_bind m f w = Returns b w'"
  obtains a v where "m w = Returns a v" "f a v = Returns b w'"
  using assms by (auto simp: c_bind_def split: outcome.splits)

lemma on_obj_returns:
  assumes "on_obj i m w = Returns r w'"
  shows "\<exists>t rest. m (fst w i, snd w) = Returns r (t, rest) \<and> w' = ((fst w)(i := t), rest)"
  using assms by (auto simp: on_obj_def split: outcome.splits prod.splits)

text \<open>\<open>returned\<close>: the program came back with this result.\<close>

definition returned :: "('a, 'w) outcome \<Rightarrow> 'a option" where
  "returned out = (case out of Returns a _ \<Rightarrow> Some a | Stops _ \<Rightarrow> None)"

definition final_world :: "('a, 'w) outcome \<Rightarrow> 'w option" where
  "final_world out = (case out of Returns _ w \<Rightarrow> Some w | Stops _ \<Rightarrow> None)"

lemma returned_simps [simp]:
  "returned (Returns a w) = Some a"
  "returned (Stops s) = None"
  "final_world (Returns a w) = Some w"
  "final_world (Stops s) = None"
  by (simp_all add: returned_def final_world_def)

section \<open>Powers of two and masks\<close>

lemma and_pred_self_odd:
  fixes d :: int
  shows "(2 * d) AND (2 * d + 1) = 2 * d"
  by (subst and_int_rec) simp

text \<open>The classic test: \<open>c\<close> positive and \<open>(c - 1) & c = 0\<close> says exactly that \<open>c\<close> is a power of two.\<close>

lemma and_pred_pow2: "(2 ^ k - 1) AND (2 ^ k :: int) = 0"
proof -
  have "(2 ^ k - 1) AND (2 ^ k :: int) = take_bit k (2 ^ k)"
    by (simp add: take_bit_eq_mask mask_eq_exp_minus_1 and.commute)
  then show ?thesis by simp
qed

lemma and_pred_even:
  fixes d :: int
  shows "(2 * d - 1) AND (2 * d) = 2 * ((d - 1) AND d)"
proof -
  have "(2 * d - 1) div 2 = d - 1" by presburger
  then show ?thesis by (subst and_int_rec) simp
qed

lemma and_pred_zero_imp_pow2:
  fixes n :: nat
  assumes "0 < n" and "(int n - 1) AND int n = 0"
  shows "\<exists>k. n = 2 ^ k"
  using assms
proof (induction n rule: less_induct)
  case (less n)
  show ?case
  proof (cases "even n")
    case True
    then obtain d where d: "n = 2 * d" by blast
    have "2 * ((int d - 1) AND int d) = 0"
      using less.prems(2) and_pred_even [of "int d"] by (simp add: d)
    then have "(int d - 1) AND int d = 0" by simp
    moreover have "0 < d" "d < n" using less.prems(1) d by auto
    ultimately obtain k where "d = 2 ^ k" using less.IH by blast
    then have "n = 2 ^ Suc k" by (simp add: d)
    then show ?thesis by blast
  next
    case False
    then obtain d where d: "n = 2 * d + 1" using oddE by blast
    have "(2 * int d) AND (2 * int d + 1) = 0"
      using less.prems(2) by (simp add: d add.commute)
    then have "d = 0" by (simp add: and_pred_self_odd)
    then have "n = 2 ^ 0" by (simp add: d)
    then show ?thesis by blast
  qed
qed

lemma pow2_test_iff:
  fixes n :: nat
  shows "0 < n \<and> (int n - 1) AND int n = 0 \<longleftrightarrow> (\<exists>k. n = 2 ^ k)"
  using and_pred_zero_imp_pow2 and_pred_pow2 by fastforce

section \<open>Words\<close>

lemma unat_u16_less: "unat (x :: u16) < 65536"
  using unsigned_less [of x, where ?'a = nat] by simp

lemma unat_u32_less: "unat (x :: u32) < 4294967296"
  using unsigned_less [of x, where ?'a = nat] by simp

lemma unat_u32_le: "unat (x :: u32) \<le> 4294967295"
  using unat_u32_less [of x] by linarith

lemma unat_ucast_16_32 [simp]: "unat (ucast (x :: u16) :: u32) = unat x"
  using unat_u16_less [of x] by (simp add: unsigned_ucast_eq take_bit_nat_eq_self)

lemma uint_pos_iff: "0 < uint x \<longleftrightarrow> 0 < unat x"
proof -
  have "uint x = int (unat x)" by simp
  then show ?thesis by linarith
qed

lemma sint_minus_one_iff: "sint (tmo :: u32) = - 1 \<longleftrightarrow> tmo = - 1"
  by (metis signed_minus_1 signed_word_eqI)

lemma ucast_succ_16: "(ucast ((ucast (ix :: u16) :: u32) + 1) :: u16) = ix + 1"
  by transfer (simp add: take_bit_eq_mod mod_add_left_eq)

lemma mod_dvd_add:
  fixes a c i m :: nat
  assumes "c dvd m"
  shows "(a mod m + i) mod c = (a + i) mod c"
  using mod_add_left_eq [of "a mod m" c i] mod_add_left_eq [of a c i]
  by (simp add: mod_mod_cancel [OF assms])

lemma unat_succ_u16: "unat (x + 1 :: u16) = (unat x + 1) mod 65536"
  by (simp add: unat_word_ariths)

lemma mod_shift_less:
  fixes a i j c :: nat
  assumes "(a + i) mod c = (a + j) mod c" and "j < c"
  shows "\<not> i < j"
proof
  assume "i < j"
  then have "c dvd (a + j) - (a + i)"
    using assms(1) mod_eq_dvd_iff_nat [of "a + i" "a + j" c] by simp
  then have "c dvd j - i" by simp
  with \<open>i < j\<close> assms(2) show False using nat_dvd_not_less [of "j - i" c] by simp
qed

lemma mod_shift_inj:
  fixes a i j c :: nat
  assumes "(a + i) mod c = (a + j) mod c" and "i < c" and "j < c"
  shows "i = j"
  using mod_shift_less [of a i c j] mod_shift_less [of a j c i] assms by simp

section \<open>Byte blocks\<close>

text \<open>
  \<open>memcpy\<close> of \<open>n\<close> bytes from the start of \<open>src\<close> to offset \<open>off\<close> of \<open>dst\<close>; \<open>None\<close> where
  either access leaves its object, which is undefined behaviour.
\<close>

definition memcpy_at :: "bytes \<Rightarrow> nat \<Rightarrow> bytes \<Rightarrow> nat \<Rightarrow> bytes option" where
  "memcpy_at dst off src n =
     (if off + n \<le> length dst \<and> n \<le> length src
      then Some (take off dst @ take n src @ drop (off + n) dst) else None)"

definition block :: "nat \<Rightarrow> nat \<Rightarrow> bytes \<Rightarrow> bytes" where
  "block sz i buf = take sz (drop (i * sz) buf)"

lemma length_block: "i * sz + sz \<le> length buf \<Longrightarrow> length (block sz i buf) = sz"
  by (simp add: block_def)

lemma memcpy_at_length: "memcpy_at dst off src n = Some d \<Longrightarrow> length d = length dst"
  by (auto simp: memcpy_at_def split: if_splits)

lemma block_bound: "i < (c::nat) \<Longrightarrow> i * sz + sz \<le> c * sz"
  using mult_le_mono1 [of "Suc i" c sz] by simp

lemma memcpy_at_block_same:
  assumes "memcpy_at buf (i * sz) src sz = Some buf'"
  shows "block sz i buf' = take sz src"
  using assms by (auto simp: memcpy_at_def block_def split: if_splits)

lemma memcpy_at_block_other:
  assumes "memcpy_at buf (i * sz) src sz = Some buf'" and "i \<noteq> j"
  shows "block sz j buf' = block sz j buf"
proof -
  have buf': "buf' = take (i * sz) buf @ take sz src @ drop (i * sz + sz) buf"
    and len: "i * sz + sz \<le> length buf" "sz \<le> length src"
    using assms(1) by (auto simp: memcpy_at_def split: if_splits)
  show ?thesis
  proof (cases "j < i")
    case True
    then have "j * sz + sz \<le> i * sz" by (rule block_bound)
    then show ?thesis
      using len by (simp add: block_def buf' drop_take)
  next
    case False
    with assms(2) have le: "i * sz + sz \<le> j * sz" by (intro block_bound) simp
    then obtain d where "j * sz = i * sz + sz + d" by (auto simp: le_iff_add)
    then show ?thesis
      using len by (simp add: block_def buf' add.assoc add.left_commute add.commute)
  qed
qed

end
