(* ===== verification/Os_Types.thy ===== *)
theory Os_Types
  imports Poski_Prelude
begin

text \<open>
  The types every port shares: the error enumeration of
  \<^verbatim>\<open>include/poski/osal/os_types.h\<close> with its numeric codes, and the early-exit macro of
  the ports' \<^verbatim>\<open>os_utils.h\<close>.  Times (\<open>pos_time_t\<close>) are 32-bit unsigned on every target
  but Apple's, where they have 64 bits.
\<close>

section \<open>Definitions\<close>

type_synonym pos_time = u32

datatype pos_error =
    POS_OK
  | POS_ENOMEM
  | POS_EINVAL
  | POS_INVALID_PARAM
  | POS_MEM_NOT_ALIGNED
  | POS_BAD_MUTEX
  | POS_TIMEOUT
  | POS_ERR_IN_ISR
  | POS_ERR_PRIV
  | POS_OS_NOT_STARTED
  | POS_ENOENT
  | POS_EBUSY
  | POS_ERROR

fun pos_error_code :: "pos_error \<Rightarrow> int" where
  "pos_error_code POS_OK = 0"
| "pos_error_code POS_ENOMEM = 1"
| "pos_error_code POS_EINVAL = 2"
| "pos_error_code POS_INVALID_PARAM = 3"
| "pos_error_code POS_MEM_NOT_ALIGNED = 4"
| "pos_error_code POS_BAD_MUTEX = 5"
| "pos_error_code POS_TIMEOUT = 6"
| "pos_error_code POS_ERR_IN_ISR = 7"
| "pos_error_code POS_ERR_PRIV = 8"
| "pos_error_code POS_OS_NOT_STARTED = 9"
| "pos_error_code POS_ENOENT = 10"
| "pos_error_code POS_EBUSY = 11"
| "pos_error_code POS_ERROR = 12"

text \<open>The enumeration is finite, so that statements about all codes can be evaluated.\<close>

instantiation pos_error :: enum
begin

definition enum_pos_error :: "pos_error list" where
  "enum_pos_error =
     [POS_OK, POS_ENOMEM, POS_EINVAL, POS_INVALID_PARAM, POS_MEM_NOT_ALIGNED, POS_BAD_MUTEX,
      POS_TIMEOUT, POS_ERR_IN_ISR, POS_ERR_PRIV, POS_OS_NOT_STARTED, POS_ENOENT, POS_EBUSY,
      POS_ERROR]"

definition enum_all_pos_error :: "(pos_error \<Rightarrow> bool) \<Rightarrow> bool" where
  "enum_all_pos_error P = list_all P Enum.enum"

definition enum_ex_pos_error :: "(pos_error \<Rightarrow> bool) \<Rightarrow> bool" where
  "enum_ex_pos_error P = list_ex P Enum.enum"

instance
proof
  show univ: "(UNIV :: pos_error set) = set Enum.enum"
  proof -
    have "e \<in> set Enum.enum" for e :: pos_error by (cases e) (simp_all add: enum_pos_error_def)
    then show ?thesis by blast
  qed
  show "distinct (Enum.enum :: pos_error list)" by (simp add: enum_pos_error_def)
  show "enum_class.enum_all P = Ball UNIV P" "enum_class.enum_ex P = Bex UNIV P"
    for P :: "pos_error \<Rightarrow> bool"
    by (simp_all add: enum_all_pos_error_def enum_ex_pos_error_def list_all_iff list_ex_iff univ)
qed

end

text \<open>
  An \<open>int\<close> converted to the enumeration (a port that returns a kernel's status directly):
  the enumerator with that code, \<open>None\<close> for a value that no enumerator has.
\<close>

definition pos_error_of_int :: "int \<Rightarrow> pos_error option" where
  "pos_error_of_int n = List.find (\<lambda>e. pos_error_code e = n) Enum.enum"

text \<open>
  \<open>SuccessOrExit(ret)\<close>: go to the label \<open>exit\<close>, where the status is returned, unless the
  status is zero.
\<close>

definition SuccessOrExit :: "(int, 'w) prog \<Rightarrow> (int, 'w) prog \<Rightarrow> (int, 'w) prog" where
  "SuccessOrExit m rest = c_bind m (\<lambda>ret. if ret \<noteq> 0 then c_return ret else rest)"

section \<open>Properties\<close>

lemma pos_error_code_inject [simp]: "pos_error_code e = pos_error_code e' \<longleftrightarrow> e = e'"
  by (cases e; cases e') simp_all

lemma pos_error_code_range: "0 \<le> pos_error_code e \<and> pos_error_code e \<le> 12"
  by (cases e) simp_all

lemma pos_error_code_0_iff: "pos_error_code e = 0 \<longleftrightarrow> e = POS_OK"
  by (cases e) simp_all

lemma pos_error_of_int_code: "pos_error_of_int (pos_error_code e) = Some e"
  by (cases e) (simp_all add: pos_error_of_int_def enum_pos_error_def)

lemma SuccessOrExit_zero: "m w = Returns 0 w' \<Longrightarrow> SuccessOrExit m rest w = rest w'"
  by (simp add: SuccessOrExit_def c_bind_def)

lemma SuccessOrExit_exit:
  "m w = Returns ret w' \<Longrightarrow> ret \<noteq> 0 \<Longrightarrow> SuccessOrExit m rest w = Returns ret w'"
  by (simp add: SuccessOrExit_def c_bind_def c_return_def)

lemma SuccessOrExit_stop: "m w = Stops s \<Longrightarrow> SuccessOrExit m rest w = Stops s"
  by (simp add: SuccessOrExit_def c_bind_def)

lemmas SuccessOrExit_simps = SuccessOrExit_zero SuccessOrExit_exit SuccessOrExit_stop

end
