(* ===== verification/Osal_Interfaces.thy ===== *)
theory Osal_Interfaces
  imports Os_Types
begin

text \<open>
  The contracts between the layers, as locales.  Each states what a client may rely on; the
  client's lemmas are proved here once, from the contract, and every provider of the
  development (the ring class, the ports) is shown to meet it in its own theory.

  \<^item> \<open>fifo_buffer\<close>: the bounded byte-block queue that the message queues are built on.
  \<^item> \<open>osal_queue_core\<close> and \<open>osal_queue\<close>: the message queue of \<^verbatim>\<open>os_queue.h\<close>.
  \<^item> \<open>osal_sem\<close>: the counting semaphore of \<^verbatim>\<open>os_sem.h\<close>.
  \<^item> \<open>osal_mutex\<close>: the recursive mutex of \<^verbatim>\<open>os_mutex.h\<close>.

  The last three describe one object in a world \<open>'w\<close>; calls are modelled at the instant
  they complete, so a sequence of calls is the order in which calls of any tasks complete.
\<close>

section \<open>Bounded first-in first-out buffers\<close>

text \<open>Pushing a list of blocks, and taking blocks from the front (read, then remove).\<close>

fun push_all :: "(bytes \<Rightarrow> (unit, 'q) prog) \<Rightarrow> bytes list \<Rightarrow> (unit, 'q) prog" where
  "push_all push [] = c_return ()"
| "push_all push (x # xs) = c_then (push x) (push_all push xs)"

fun drain :: "('q \<Rightarrow> bytes option) \<Rightarrow> (unit, 'q) prog \<Rightarrow> nat \<Rightarrow> (bytes list, 'q) prog" where
  "drain peek pop 0 = c_return []"
| "drain peek pop (Suc n) =
     c_bind (c_gets peek) (\<lambda>y. case y of
         None \<Rightarrow> c_stop Assert_Failure
       | Some b \<Rightarrow> c_then pop (c_bind (drain peek pop n) (\<lambda>bs. c_return (b # bs))))"

locale fifo_buffer =
  fixes push :: "bytes \<Rightarrow> (unit, 'q) prog"
    and pop :: "(unit, 'q) prog"
    and peek :: "'q \<Rightarrow> bytes option"
    and items :: "'q \<Rightarrow> bytes list"
    and cap :: "'q \<Rightarrow> nat"
    and width :: "'q \<Rightarrow> nat"
    and ok :: "'q \<Rightarrow> bool"
  assumes push_item:
      "ok q \<Longrightarrow> length (items q) < cap q \<Longrightarrow> width q \<le> length x \<Longrightarrow>
       \<exists>q'. push x q = Returns () q' \<and> ok q' \<and> items q' = items q @ [take (width q) x] \<and>
            cap q' = cap q \<and> width q' = width q"
    and push_full: "ok q \<Longrightarrow> length (items q) = cap q \<Longrightarrow> push x q = Stops Assert_Failure"
    and pop_item:
      "ok q \<Longrightarrow> items q = y # ys \<Longrightarrow>
       \<exists>q'. pop q = Returns () q' \<and> ok q' \<and> items q' = ys \<and> cap q' = cap q \<and> width q' = width q"
    and pop_empty: "ok q \<Longrightarrow> items q = [] \<Longrightarrow> pop q = Stops Assert_Failure"
    and peek_item: "ok q \<Longrightarrow> peek q = (case items q of [] \<Rightarrow> None | y # _ \<Rightarrow> Some y)"
    and items_cap: "ok q \<Longrightarrow> length (items q) \<le> cap q"
    and items_width: "ok q \<Longrightarrow> y \<in> set (items q) \<Longrightarrow> length y = width q"
begin

lemma push_all_items:
  assumes "ok q" and "length (items q) + length xs \<le> cap q"
    and "\<forall>x \<in> set xs. width q \<le> length x"
  shows "\<exists>q'. push_all push xs q = Returns () q' \<and> ok q' \<and>
              items q' = items q @ map (take (width q)) xs \<and> cap q' = cap q \<and> width q' = width q"
  using assms
proof (induction xs arbitrary: q)
  case Nil
  then show ?case by (simp add: c_return_def)
next
  case (Cons x xs)
  then obtain q1 where q1: "push x q = Returns () q1" "ok q1"
      "items q1 = items q @ [take (width q) x]" "cap q1 = cap q" "width q1 = width q"
    using push_item [of q x] by auto
  then obtain q2 where "push_all push xs q1 = Returns () q2" "ok q2"
      "items q2 = items q1 @ map (take (width q)) xs" "cap q2 = cap q" "width q2 = width q"
    using Cons.IH [of q1] Cons.prems by auto
  with q1 show ?case by (simp add: c_then_def c_bind_def)
qed

lemma drain_items:
  assumes "ok q" and "n \<le> length (items q)"
  shows "\<exists>q'. drain peek pop n q = Returns (take n (items q)) q' \<and> ok q' \<and>
              items q' = drop n (items q)"
  using assms
proof (induction n arbitrary: q)
  case 0
  then show ?case by (simp add: c_return_def)
next
  case (Suc n)
  then obtain y ys where y: "items q = y # ys" by (cases "items q") auto
  then obtain q1 where q1: "pop q = Returns () q1" "ok q1" "items q1 = ys"
    using pop_item Suc.prems(1) by blast
  then obtain q2 where "drain peek pop n q1 = Returns (take n ys) q2" "ok q2" "items q2 = drop n ys"
    using Suc.IH [of q1] Suc.prems y by auto
  with q1 y Suc.prems(1) show ?case by (simp add: prog_defs peek_item)
qed

text \<open>What goes in comes out, in order: push a batch into an empty buffer and drain it.\<close>

lemma push_drain_roundtrip:
  assumes "ok q" and "items q = []" and "length xs \<le> cap q"
    and "\<forall>x \<in> set xs. length x = width q"
  shows "\<exists>q'. c_then (push_all push xs) (drain peek pop (length xs)) q = Returns xs q' \<and>
              ok q' \<and> items q' = []"
proof -
  have "map (take (width q)) xs = xs" using assms(4) by (simp add: map_idI)
  then obtain q1 where "push_all push xs q = Returns () q1" "ok q1" "items q1 = xs"
    using push_all_items [of q xs] assms by auto
  then show ?thesis using drain_items [of q1 "length xs"] by (auto simp: c_then_def c_bind_def)
qed

end

section \<open>Message queues\<close>

text \<open>
  A sequence of completed calls, and its record: the messages whose \<open>put\<close> reported
  success, and the messages handed out by a \<open>get\<close> that reported success.
\<close>

datatype queue_call = QPut bytes | QGet bytes pos_time

fun queue_run ::
    "(bytes \<Rightarrow> (pos_error, 'w) prog) \<Rightarrow> (bytes \<Rightarrow> pos_time \<Rightarrow> (pos_error \<times> bytes, 'w) prog) \<Rightarrow>
     queue_call list \<Rightarrow> (bytes list \<times> bytes list, 'w) prog" where
  "queue_run put get [] = c_return ([], [])"
| "queue_run put get (QPut x # cs) =
     c_bind (put x) (\<lambda>e. c_bind (queue_run put get cs) (\<lambda>(sent, got).
       c_return (if e = POS_OK then x # sent else sent, got)))"
| "queue_run put get (QGet out tmo # cs) =
     c_bind (get out tmo) (\<lambda>(e, y). c_bind (queue_run put get cs) (\<lambda>(sent, got).
       c_return (sent, if e = POS_OK then y # got else got)))"

fun call_area_ok :: "nat \<Rightarrow> queue_call \<Rightarrow> bool" where
  "call_area_ok n (QPut x) \<longleftrightarrow> n \<le> length x"
| "call_area_ok n (QGet out tmo) \<longleftrightarrow> n \<le> length out"

text \<open>Put a batch, stopping at the first failure; get up to \<open>n\<close> messages into the same area.\<close>

fun put_all :: "(bytes \<Rightarrow> (pos_error, 'w) prog) \<Rightarrow> bytes list \<Rightarrow> (pos_error, 'w) prog" where
  "put_all put [] = c_return POS_OK"
| "put_all put (x # xs) =
     c_bind (put x) (\<lambda>e. if e = POS_OK then put_all put xs else c_return e)"

fun get_n ::
    "(bytes \<Rightarrow> pos_time \<Rightarrow> (pos_error \<times> bytes, 'w) prog) \<Rightarrow> bytes \<Rightarrow> pos_time \<Rightarrow> nat \<Rightarrow>
     (bytes list, 'w) prog" where
  "get_n get out tmo 0 = c_return []"
| "get_n get out tmo (Suc n) =
     c_bind (get out tmo) (\<lambda>(e, y).
       if e = POS_OK then c_bind (get_n get out tmo n) (\<lambda>ys. c_return (y # ys)) else c_return [])"

text \<open>A sequence of calls in two parts.\<close>

lemma queue_run_append:
  "queue_run put get (cs @ ds) w =
     c_bind (queue_run put get cs) (\<lambda>(sent, got).
       c_bind (queue_run put get ds) (\<lambda>(sent', got'). c_return (sent @ sent', got @ got'))) w"
proof (induction cs arbitrary: w)
  case (Cons c cs)
  then show ?case
    by (cases c) (auto simp: c_bind_def c_return_def split: outcome.split prod.split)
qed (auto simp: c_bind_def c_return_def split: outcome.split)

text \<open>
  The part of the contract every port meets: a put with room appends, a get of a present
  message removes the oldest.  \<open>osal_queue\<close> adds that a get on an empty queue does not
  report success.
\<close>

locale osal_queue_core =
  fixes put :: "bytes \<Rightarrow> (pos_error, 'w) prog"
    and get :: "bytes \<Rightarrow> pos_time \<Rightarrow> (pos_error \<times> bytes, 'w) prog"
    and items :: "'w \<Rightarrow> bytes list"
    and cap :: "'w \<Rightarrow> nat"
    and width :: "'w \<Rightarrow> nat"
    and ok :: "'w \<Rightarrow> bool"
  assumes put_room:
      "ok w \<Longrightarrow> length (items w) < cap w \<Longrightarrow> width w \<le> length x \<Longrightarrow>
       \<exists>w'. put x w = Returns POS_OK w' \<and> ok w' \<and> items w' = items w @ [take (width w) x] \<and>
            cap w' = cap w \<and> width w' = width w"
    and put_full:
      "ok w \<Longrightarrow> length (items w) = cap w \<Longrightarrow> width w \<le> length x \<Longrightarrow>
       (\<exists>s. put x w = Stops s) \<or>
       (\<exists>e w'. put x w = Returns e w' \<and> e \<noteq> POS_OK \<and> ok w' \<and> items w' = items w \<and>
               cap w' = cap w \<and> width w' = width w)"
    and get_item:
      "ok w \<Longrightarrow> items w = y # ys \<Longrightarrow> width w \<le> length out \<Longrightarrow>
       \<exists>w'. get out tmo w = Returns (POS_OK, y @ drop (width w) out) w' \<and> ok w' \<and> items w' = ys \<and>
            cap w' = cap w \<and> width w' = width w"
    and items_cap: "ok w \<Longrightarrow> length (items w) \<le> cap w"
    and items_width: "ok w \<Longrightarrow> y \<in> set (items w) \<Longrightarrow> length y = width w"
begin

lemma put_all_items:
  assumes "ok w" and "length (items w) + length xs \<le> cap w" and "\<forall>x \<in> set xs. length x = width w"
  shows "\<exists>w'. put_all put xs w = Returns POS_OK w' \<and> ok w' \<and> items w' = items w @ xs \<and>
              cap w' = cap w \<and> width w' = width w"
  using assms
proof (induction xs arbitrary: w)
  case Nil
  then show ?case by (simp add: c_return_def)
next
  case (Cons x xs)
  then obtain w1 where w1: "put x w = Returns POS_OK w1" "ok w1" "items w1 = items w @ [x]"
      "cap w1 = cap w" "width w1 = width w"
    using put_room [of w x] by auto
  then show ?case using Cons.IH [of w1] Cons.prems by (auto simp: c_bind_def)
qed

lemma get_n_items:
  assumes "ok w" and "items w = xs" and "length out = width w"
  shows "\<exists>w'. get_n get out tmo (length xs) w = Returns xs w' \<and> ok w' \<and> items w' = []"
  using assms
proof (induction xs arbitrary: w)
  case Nil
  then show ?case by (simp add: c_return_def)
next
  case (Cons x xs)
  then obtain w1 where w1: "get out tmo w = Returns (POS_OK, x) w1" "ok w1" "items w1 = xs"
      "width w1 = width w"
    using get_item [of w x xs out tmo] by auto
  then show ?case using Cons.IH [of w1] Cons.prems by (auto simp: c_bind_def c_return_def)
qed

lemma put_get_roundtrip:
  assumes "ok w" and "items w = []" and "length xs \<le> cap w" and "\<forall>x \<in> set xs. length x = width w"
    and "length out = width w"
  shows "\<exists>w'. c_then (put_all put xs) (get_n get out tmo (length xs)) w = Returns xs w' \<and>
              ok w' \<and> items w' = []"
proof -
  obtain w1 where w1: "put_all put xs w = Returns POS_OK w1" "ok w1" "items w1 = xs" "width w1 = width w"
    using put_all_items [of w xs] assms by auto
  then show ?thesis
    using get_n_items [of w1 xs out tmo] assms(5) by (auto simp: c_then_def c_bind_def)
qed

lemma put_cases:
  assumes "ok w" and "width w \<le> length x" and "put x w = Returns e w'"
  shows "ok w' \<and> width w' = width w \<and> cap w' = cap w \<and>
         items w' = (if e = POS_OK then items w @ [take (width w) x] else items w)"
  using assms put_room [of w x] put_full [of w x] items_cap [of w]
  by (cases "length (items w) < cap w") auto

end

locale osal_queue = osal_queue_core +
  assumes get_none:
      "ok w \<Longrightarrow> items w = [] \<Longrightarrow>
       get out tmo w = Stops Blocked \<or>
       (\<exists>e w'. get out tmo w = Returns (e, out) w' \<and> e \<noteq> POS_OK \<and> ok w' \<and> items w' = [] \<and>
               cap w' = cap w \<and> width w' = width w)"
begin

lemma get_cases:
  assumes "ok w" and "width w \<le> length out" and "get out tmo w = Returns (e, y) w'"
  shows "ok w' \<and> width w' = width w \<and> cap w' = cap w \<and>
         items w = (if e = POS_OK then take (width w) y # items w' else items w')"
proof (cases "items w")
  case Nil
  then show ?thesis using assms get_none [of w out tmo] by auto
next
  case (Cons b bs)
  then have "length b = width w" using items_width [OF assms(1)] by simp
  then show ?thesis using get_item [OF assms(1) Cons assms(2), of tmo] assms(3) Cons by auto
qed

text \<open>
  Conservation and order, for any sequence of calls: what was in the queue and what was
  accepted is what was handed out, followed by what is still in the queue.
\<close>

lemma queue_run_fifo:
  assumes "ok w" and "\<forall>c \<in> set cs. call_area_ok (width w) c"
    and "queue_run put get cs w = Returns (sent, got) w'"
  shows "ok w' \<and> width w' = width w \<and>
         items w @ map (take (width w)) sent = map (take (width w)) got @ items w'"
  using assms
proof (induction cs arbitrary: w sent got)
  case Nil
  then show ?case by (simp add: c_return_def)
next
  case (Cons c cs)
  show ?case
  proof (cases c)
    case (QPut x)
    obtain e w1 sent1 where 1: "put x w = Returns e w1"
        "queue_run put get cs w1 = Returns (sent1, got) w'"
        "sent = (if e = POS_OK then x # sent1 else sent1)"
      using Cons.prems(3) by (auto simp: QPut c_return_def elim!: c_bind_ReturnsE)
    then show ?thesis
      using put_cases [OF _ _ 1(1)] Cons.IH [OF _ _ 1(2)] Cons.prems QPut by auto
  next
    case (QGet out tmo)
    obtain e y w1 got1 where 1: "get out tmo w = Returns (e, y) w1"
        "queue_run put get cs w1 = Returns (sent, got1) w'"
        "got = (if e = POS_OK then y # got1 else got1)"
      using Cons.prems(3) by (auto simp: QGet c_return_def elim!: c_bind_ReturnsE)
    then show ?thesis
      using get_cases [OF _ _ 1(1)] Cons.IH [OF _ _ 1(2)] Cons.prems QGet by auto
  qed
qed

end

section \<open>Counting semaphores\<close>

text \<open>Repeat a call as long as it reports success, at most \<open>n\<close> times.\<close>

fun repeat_ok :: "nat \<Rightarrow> (pos_error, 'w) prog \<Rightarrow> (pos_error, 'w) prog" where
  "repeat_ok 0 m = c_return POS_OK"
| "repeat_ok (Suc n) m = c_bind m (\<lambda>e. if e = POS_OK then repeat_ok n m else c_return e)"

datatype sem_call = SGive | STake pos_time

text \<open>The record of a sequence of completed calls: how many gives and takes reported success.\<close>

fun sem_run ::
    "(pos_error, 'w) prog \<Rightarrow> (pos_time \<Rightarrow> (pos_error, 'w) prog) \<Rightarrow> sem_call list \<Rightarrow>
     (nat \<times> nat, 'w) prog" where
  "sem_run sem_give sem_take [] = c_return (0, 0)"
| "sem_run sem_give sem_take (SGive # cs) =
     c_bind sem_give (\<lambda>e. c_bind (sem_run sem_give sem_take cs) (\<lambda>(g, n).
       c_return (if e = POS_OK then Suc g else g, n)))"
| "sem_run sem_give sem_take (STake tmo # cs) =
     c_bind (sem_take tmo) (\<lambda>e. c_bind (sem_run sem_give sem_take cs) (\<lambda>(g, n).
       c_return (g, if e = POS_OK then Suc n else n)))"

locale osal_sem =
  fixes sem_give :: "(pos_error, 'w) prog"
    and sem_take :: "pos_time \<Rightarrow> (pos_error, 'w) prog"
    and tokens :: "'w \<Rightarrow> nat"
    and limit :: nat
    and ready :: "'w \<Rightarrow> bool"
  assumes give_room:
      "ready w \<Longrightarrow> tokens w < limit \<Longrightarrow>
       \<exists>w'. sem_give w = Returns POS_OK w' \<and> ready w' \<and> tokens w' = Suc (tokens w)"
    and give_returns:
      "ready w \<Longrightarrow> sem_give w = Returns e w' \<Longrightarrow> tokens w < limit \<or> e \<noteq> POS_OK \<Longrightarrow>
       ready w' \<and> tokens w' = (if e = POS_OK then Suc (tokens w) else tokens w)"
    and take_token:
      "ready w \<Longrightarrow> 0 < tokens w \<Longrightarrow>
       \<exists>w'. sem_take tmo w = Returns POS_OK w' \<and> ready w' \<and> tokens w = Suc (tokens w')"
    and take_none:
      "ready w \<Longrightarrow> tokens w = 0 \<Longrightarrow>
       sem_take tmo w = Stops Blocked \<or>
       (\<exists>e w'. sem_take tmo w = Returns e w' \<and> e \<noteq> POS_OK \<and> ready w' \<and> tokens w' = 0)"
begin

lemma take_returns:
  assumes "ready w" and "sem_take tmo w = Returns e w'"
  shows "ready w' \<and> tokens w = (if e = POS_OK then Suc (tokens w') else tokens w')"
  using assms take_token [of w tmo] take_none [of w tmo] by (cases "tokens w = 0") auto

text \<open>As many takes as there are tokens succeed.\<close>

lemma take_n:
  assumes "ready w" and "tokens w = k + n"
  shows "\<exists>w'. repeat_ok n (sem_take tmo) w = Returns POS_OK w' \<and> ready w' \<and> tokens w' = k"
  using assms
proof (induction n arbitrary: w)
  case 0
  then show ?case by (simp add: c_return_def)
next
  case (Suc n)
  then obtain w1 where "sem_take tmo w = Returns POS_OK w1" "ready w1" "tokens w = Suc (tokens w1)"
    using take_token [of w tmo] by auto
  then show ?case using Suc.IH [of w1] Suc.prems by (auto simp: c_bind_def)
qed

text \<open>
  Tokens are conserved as long as the count stays below the limit, which holds in particular
  when the tokens at the start and all gives together do not exceed it.
\<close>

lemma sem_run_conserves:
  assumes "ready w" and "tokens w + length (filter (\<lambda>c. c = SGive) cs) \<le> limit"
    and "sem_run sem_give sem_take cs w = Returns (g, n) w'"
  shows "ready w' \<and> tokens w + g = tokens w' + n"
  using assms
proof (induction cs arbitrary: w g n)
  case Nil
  then show ?case by (simp add: c_return_def)
next
  case (Cons c cs)
  show ?case
  proof (cases c)
    case SGive
    obtain e w1 g1 where 1: "sem_give w = Returns e w1" "sem_run sem_give sem_take cs w1 = Returns (g1, n) w'"
        "g = (if e = POS_OK then Suc g1 else g1)"
      using Cons.prems(3) by (auto simp: SGive c_return_def elim!: c_bind_ReturnsE)
    then show ?thesis
      using give_returns [OF _ 1(1)] Cons.IH [OF _ _ 1(2)] Cons.prems SGive
      by (auto split: if_splits)
  next
    case (STake tmo)
    obtain e w1 n1 where 1: "sem_take tmo w = Returns e w1" "sem_run sem_give sem_take cs w1 = Returns (g, n1) w'"
        "n = (if e = POS_OK then Suc n1 else n1)"
      using Cons.prems(3) by (auto simp: STake c_return_def elim!: c_bind_ReturnsE)
    then show ?thesis
      using take_returns [OF _ 1(1)] Cons.IH [OF _ _ 1(2)] Cons.prems STake
      by (auto split: if_splits)
  qed
qed

end

section \<open>Recursive mutexes\<close>

text \<open>
  The state of a recursive mutex: free, or held by a task with a nesting depth.  \<open>held\<close> is
  the depth at which a given task holds it.
\<close>

type_synonym 't mutex_state = "('t \<times> nat) option"

fun held :: "'t mutex_state \<Rightarrow> 't \<Rightarrow> nat" where
  "held None t = 0"
| "held (Some (u, n)) t = (if u = t then n else 0)"

definition released :: "'t \<Rightarrow> nat \<Rightarrow> 't mutex_state" where
  "released t n = (if n = 0 then None else Some (t, n))"

datatype 't mutex_call = MLock 't pos_time | MUnlock 't

text \<open>How many locks minus unlocks of each task reported success, over a sequence of calls.\<close>

fun mutex_run ::
    "('t \<Rightarrow> pos_time \<Rightarrow> (pos_error, 'w) prog) \<Rightarrow> ('t \<Rightarrow> (pos_error, 'w) prog) \<Rightarrow>
     't mutex_call list \<Rightarrow> ('t \<Rightarrow> int, 'w) prog" where
  "mutex_run lock unlock [] = c_return (\<lambda>_. 0)"
| "mutex_run lock unlock (MLock t tmo # cs) =
     c_bind (lock t tmo) (\<lambda>e. c_bind (mutex_run lock unlock cs) (\<lambda>bal.
       c_return (if e = POS_OK then bal(t := bal t + 1) else bal)))"
| "mutex_run lock unlock (MUnlock t # cs) =
     c_bind (unlock t) (\<lambda>e. c_bind (mutex_run lock unlock cs) (\<lambda>bal.
       c_return (if e = POS_OK then bal(t := bal t - 1) else bal)))"

text \<open>One task takes the mutex \<open>n\<close> times and gives it back as often, then another task takes it.\<close>

definition handover ::
    "('t \<Rightarrow> pos_time \<Rightarrow> (pos_error, 'w) prog) \<Rightarrow> ('t \<Rightarrow> (pos_error, 'w) prog) \<Rightarrow> nat \<Rightarrow> 't \<Rightarrow> 't \<Rightarrow>
     pos_time \<Rightarrow> (pos_error, 'w) prog" where
  "handover lock unlock n t u tmo =
     c_bind (repeat_ok n (lock t tmo)) (\<lambda>e.
       if e \<noteq> POS_OK then c_return e
       else c_bind (repeat_ok n (unlock t)) (\<lambda>e.
         if e \<noteq> POS_OK then c_return e else lock u tmo))"

locale osal_mutex =
  fixes lock :: "'t \<Rightarrow> pos_time \<Rightarrow> (pos_error, 'w) prog"
    and unlock :: "'t \<Rightarrow> (pos_error, 'w) prog"
    and own :: "'w \<Rightarrow> 't mutex_state"
    and ready :: "'w \<Rightarrow> bool"
    and depth_limit :: nat
  assumes lock_free:
      "ready w \<Longrightarrow> own w = None \<Longrightarrow>
       \<exists>w'. lock t tmo w = Returns POS_OK w' \<and> ready w' \<and> own w' = Some (t, 1)"
    and lock_again:
      "ready w \<Longrightarrow> own w = Some (t, n) \<Longrightarrow>
       \<exists>e w'. lock t tmo w = Returns e w' \<and> ready w' \<and>
              own w' = (if e = POS_OK then Some (t, Suc n) else own w) \<and>
              (n < depth_limit \<longrightarrow> e = POS_OK)"
    and lock_other:
      "ready w \<Longrightarrow> own w = Some (u, n) \<Longrightarrow> u \<noteq> t \<Longrightarrow>
       lock t tmo w = Stops Blocked \<or>
       (\<exists>e w'. lock t tmo w = Returns e w' \<and> e \<noteq> POS_OK \<and> ready w' \<and> own w' = own w)"
    and unlock_own:
      "ready w \<Longrightarrow> own w = Some (t, Suc n) \<Longrightarrow>
       \<exists>w'. unlock t w = Returns POS_OK w' \<and> ready w' \<and> own w' = released t n"
    and unlock_other:
      "ready w \<Longrightarrow> held (own w) t = 0 \<Longrightarrow>
       \<exists>e w'. unlock t w = Returns e w' \<and> e \<noteq> POS_OK \<and> ready w' \<and> own w' = own w"
    and own_pos: "ready w \<Longrightarrow> own w = Some (t, n) \<Longrightarrow> 0 < n"
begin

lemma lock_returns:
  assumes "ready w" and "lock t tmo w = Returns e w'"
  shows "ready w' \<and> held (own w') u =
           (if e = POS_OK \<and> u = t then Suc (held (own w) u) else held (own w) u)"
proof (cases "own w")
  case None
  then show ?thesis using lock_free [of w t tmo] assms by auto
next
  case (Some p)
  obtain v n where p: "p = (v, n)" by (cases p)
  show ?thesis
    using assms Some p lock_again [of w v n tmo] lock_other [of w v n t tmo]
    by (cases "v = t") auto
qed

lemma unlock_returns:
  assumes "ready w" and "unlock t w = Returns e w'"
  shows "ready w' \<and> held (own w) u =
           (if e = POS_OK \<and> u = t then Suc (held (own w') u) else held (own w') u)"
proof (cases "held (own w) t")
  case 0
  then show ?thesis using unlock_other [OF assms(1) 0] assms(2) by auto
next
  case (Suc n)
  then have "own w = Some (t, Suc n)" by (cases "own w") (auto split: if_splits)
  then show ?thesis
    using unlock_own [OF assms(1), of t n] assms(2) by (auto simp: released_def)
qed

text \<open>
  Accounting over any sequence of calls by any tasks: the depth at which a task holds the
  mutex at the end is its depth at the start plus its successful locks less its
  successful unlocks.
\<close>

lemma mutex_run_balance:
  assumes "ready w" and "mutex_run lock unlock cs w = Returns bal w'"
  shows "ready w' \<and> int (held (own w') u) = int (held (own w) u) + bal u"
  using assms
proof (induction cs arbitrary: w bal)
  case Nil
  then show ?case by (auto simp: c_return_def)
next
  case (Cons c cs)
  show ?case
  proof (cases c)
    case (MLock t tmo)
    obtain e w1 bal1 where 1: "lock t tmo w = Returns e w1" "mutex_run lock unlock cs w1 = Returns bal1 w'"
        "bal = (if e = POS_OK then bal1(t := bal1 t + 1) else bal1)"
      using Cons.prems(2) by (auto simp: MLock c_return_def elim!: c_bind_ReturnsE)
    then show ?thesis
      using lock_returns [OF Cons.prems(1) 1(1), of u] Cons.IH [OF _ 1(2)] by auto
  next
    case (MUnlock t)
    obtain e w1 bal1 where 1: "unlock t w = Returns e w1" "mutex_run lock unlock cs w1 = Returns bal1 w'"
        "bal = (if e = POS_OK then bal1(t := bal1 t - 1) else bal1)"
      using Cons.prems(2) by (auto simp: MUnlock c_return_def elim!: c_bind_ReturnsE)
    then show ?thesis
      using unlock_returns [OF Cons.prems(1) 1(1), of u] Cons.IH [OF _ 1(2)] by auto
  qed
qed

text \<open>Mutual exclusion: no two tasks hold the mutex.\<close>

lemma held_exclusive: "0 < held (own w) t \<Longrightarrow> 0 < held (own w) u \<Longrightarrow> t = u"
  by (cases "own w") (auto split: if_splits)

lemma mutex_run_exclusive:
  assumes "ready w" and "own w = None" and "mutex_run lock unlock cs w = Returns bal w'"
    and "0 < bal t" and "0 < bal u"
  shows "t = u"
  using mutex_run_balance [OF assms(1,3), of t] mutex_run_balance [OF assms(1,3), of u]
    held_exclusive [of w' t u] assms(2,4,5) by simp

text \<open>Nested locks and as many unlocks give the mutex back.\<close>

lemma lock_n:
  assumes "ready w" and "own w = released t k" and "k + n \<le> depth_limit"
  shows "\<exists>w'. repeat_ok n (lock t tmo) w = Returns POS_OK w' \<and> ready w' \<and> own w' = released t (k + n)"
  using assms
proof (induction n arbitrary: w k)
  case 0
  then show ?case by (simp add: c_return_def)
next
  case (Suc n)
  obtain w1 where w1: "lock t tmo w = Returns POS_OK w1" "ready w1" "own w1 = released t (Suc k)"
    using lock_free [of w t tmo] lock_again [of w t k tmo] Suc.prems
    by (cases k) (auto simp: released_def)
  then show ?case using Suc.IH [of w1 "Suc k"] Suc.prems by (auto simp: c_bind_def)
qed

lemma unlock_n:
  assumes "ready w" and "own w = released t (k + n)"
  shows "\<exists>w'. repeat_ok n (unlock t) w = Returns POS_OK w' \<and> ready w' \<and> own w' = released t k"
  using assms
proof (induction n arbitrary: w)
  case 0
  then show ?case by (simp add: c_return_def)
next
  case (Suc n)
  then obtain w1 where w1: "unlock t w = Returns POS_OK w1" "ready w1" "own w1 = released t (k + n)"
    using unlock_own [of w t "k + n"] by (auto simp: released_def)
  then show ?case using Suc.IH [of w1] by (auto simp: c_bind_def)
qed

lemma handover_ok:
  assumes "ready w" and "own w = None" and "n \<le> depth_limit"
  shows "\<exists>w'. handover lock unlock n t u tmo w = Returns POS_OK w' \<and> own w' = Some (u, 1)"
proof -
  obtain w1 where 1: "repeat_ok n (lock t tmo) w = Returns POS_OK w1" "ready w1" "own w1 = released t n"
    using lock_n [of w t 0 n tmo] assms by (auto simp: released_def)
  then obtain w2 where 2: "repeat_ok n (unlock t) w1 = Returns POS_OK w2" "ready w2" "own w2 = None"
    using unlock_n [of w1 t 0 n] by (auto simp: released_def)
  then show ?thesis using lock_free [of w2 u tmo] 1 by (auto simp: handover_def c_bind_def)
qed

end

end
