(* ===== verification/Osal_Api.thy ===== *)
theory Osal_Api
  imports Osal_Interfaces
begin

text \<open>
  The documented behaviour of the functions declared in \<^verbatim>\<open>include/poski/osal\<close>, as relations
  between the state before a call, its result and the state after it.  A definition
  \<open><function>_doc\<close> transcribes the comment of that function.  The result \<open>Inr r\<close> is what the
  call returns; \<open>Inl Blocked\<close> stands for a caller that still waits.  Where a header leaves a choice or a port departs from it, the
  codes are a parameter: \<open>refusals\<close> lists what a call with a given timeout may do when it cannot
  succeed, and \<open>documented_refusals\<close> is the list the headers give.

  \<open>api_refinement\<close> is the contract between a port and such a relation: every call behaves as
  the relation allows.  The lemma \<open>run_refines\<close> extends it to sequences of calls.
\<close>

section \<open>Definitions\<close>

subsection \<open>Sequences of calls against a specification\<close>

type_synonym ('c, 'r, 's) api_spec = "'c \<Rightarrow> 's \<Rightarrow> stop + 'r \<Rightarrow> 's \<Rightarrow> bool"

text \<open>Make the calls in order until one does not come back; results, last world, and why it stopped.\<close>

fun api_run :: "('c \<Rightarrow> ('r, 'w) prog) \<Rightarrow> 'c list \<Rightarrow> 'w \<Rightarrow> 'r list \<times> 'w \<times> stop option" where
  "api_run step [] w = ([], w, None)"
| "api_run step (c # cs) w =
     (case step c w of
        Stops s \<Rightarrow> ([], w, Some s)
      | Returns r w1 \<Rightarrow> (case api_run step cs w1 of (rs, w', st) \<Rightarrow> (r # rs, w', st)))"

text \<open>
  The results are allowed by the specification, and so is the reason why a call did not come
  back.
\<close>

inductive api_trace ::
    "('c, 'r, 's) api_spec \<Rightarrow> 'c list \<Rightarrow> 'r list \<Rightarrow> stop option \<Rightarrow> 's \<Rightarrow> 's \<Rightarrow> bool"
  for spec where
  trace_done: "api_trace spec [] [] None s s"
| trace_call:
    "spec c s (Inr r) s1 \<Longrightarrow> api_trace spec cs rs st s1 s' \<Longrightarrow>
     api_trace spec (c # cs) (r # rs) st s s'"
| trace_stop: "spec c s (Inl x) s \<Longrightarrow> api_trace spec (c # cs) [] (Some x) s s"

inductive_cases api_trace_NilE [elim!]: "api_trace spec [] rs st s s'"
inductive_cases api_trace_CallE [elim!]: "api_trace spec (c # cs) (r # rs) st s s'"
inductive_cases api_trace_StopE [elim!]: "api_trace spec (c # cs) [] st s s'"

definition allowed :: "('s \<Rightarrow> stop + 'r \<Rightarrow> 's \<Rightarrow> bool) \<Rightarrow> ('w \<Rightarrow> 's) \<Rightarrow> ('w \<Rightarrow> bool) \<Rightarrow> 'w \<Rightarrow> ('r, 'w) outcome \<Rightarrow> bool" where
  "allowed rel view ok w out \<longleftrightarrow>
     (case out of
        Returns r w' \<Rightarrow> ok w' \<and> rel (view w) (Inr r) (view w')
      | Stops s \<Rightarrow> rel (view w) (Inl s) (view w))"

definition meets :: "('c \<Rightarrow> ('r, 'w) prog) \<Rightarrow> ('c, 'r, 's) api_spec \<Rightarrow> ('w \<Rightarrow> 's) \<Rightarrow> 'c list \<Rightarrow> 'w \<Rightarrow> bool" where
  "meets step spec view cs w \<longleftrightarrow>
     (case api_run step cs w of (rs, w', st) \<Rightarrow> api_trace spec cs rs st (view w) (view w'))"

subsection \<open>Timeouts\<close>

type_synonym refusals = "pos_time \<Rightarrow> (stop + pos_error) list"

text \<open>
  The waiting calls of the headers: \<open>POS_TIME_FOREVER\<close> waits, \<open>POS_TIME_NO_WAIT\<close> returns
  \<open>POS_EBUSY\<close>, and any other timeout ends with \<open>POS_TIMEOUT\<close>.
\<close>

definition documented_refusals :: "pos_time \<Rightarrow> pos_time \<Rightarrow> refusals" where
  "documented_refusals forever no_wait timeout =
     (if timeout = forever then [Inl Blocked]
      else if timeout = no_wait then [Inr POS_EBUSY]
      else [Inr POS_TIMEOUT])"

subsection \<open>Mutexes\<close>

definition pos_mutex_init_doc :: "'t mutex_state \<Rightarrow> stop + pos_error \<Rightarrow> 't mutex_state \<Rightarrow> bool" where
  "pos_mutex_init_doc st res st' \<longleftrightarrow> res = Inr POS_OK \<and> st' = None"

text \<open>
  A free mutex is taken; a task that holds the mutex takes it again at once and the count goes
  up by one.  An implementation counts up to \<open>limit\<close>; beyond it a call may also fail without effect.
\<close>

definition pos_mutex_lock_doc ::
    "nat \<Rightarrow> refusals \<Rightarrow> 't \<Rightarrow> pos_time \<Rightarrow> 't mutex_state \<Rightarrow> stop + pos_error \<Rightarrow> 't mutex_state \<Rightarrow> bool" where
  "pos_mutex_lock_doc limit refusals t timeout st res st' \<longleftrightarrow>
     (if st = None \<or> 0 < held st t
      then res = Inr POS_OK \<and> st' = Some (t, Suc (held st t)) \<or>
           limit \<le> held st t \<and> st \<noteq> None \<and> res \<in> Inr ` (- {POS_OK}) \<and> st' = st
      else res \<in> set (refusals timeout) \<and> st' = st)"

text \<open>The caller must hold the mutex; a port answers any other caller with one of \<open>strangers\<close>.\<close>

definition pos_mutex_unlock_doc ::
    "pos_error list \<Rightarrow> 't \<Rightarrow> 't mutex_state \<Rightarrow> stop + pos_error \<Rightarrow> 't mutex_state \<Rightarrow> bool" where
  "pos_mutex_unlock_doc strangers t st res st' \<longleftrightarrow>
     (if 0 < held st t
      then res = Inr POS_OK \<and> st' = released t (held st t - 1)
      else res \<in> Inr ` set strangers \<and> st' = st)"

fun mutex_step ::
    "('t \<Rightarrow> pos_time \<Rightarrow> (pos_error, 'w) prog) \<Rightarrow> ('t \<Rightarrow> (pos_error, 'w) prog) \<Rightarrow> 't mutex_call \<Rightarrow>
     (pos_error, 'w) prog" where
  "mutex_step lock unlock (MLock t tmo) = lock t tmo"
| "mutex_step lock unlock (MUnlock t) = unlock t"

fun mutex_doc ::
    "nat \<Rightarrow> refusals \<Rightarrow> pos_error list \<Rightarrow> ('t mutex_call, pos_error, 't mutex_state) api_spec" where
  "mutex_doc limit refusals strangers (MLock t tmo) = pos_mutex_lock_doc limit refusals t tmo"
| "mutex_doc limit refusals strangers (MUnlock t) = pos_mutex_unlock_doc strangers t"

subsection \<open>Semaphores\<close>

definition pos_sem_init_doc :: "u16 \<Rightarrow> nat \<Rightarrow> stop + pos_error \<Rightarrow> nat \<Rightarrow> bool" where
  "pos_sem_init_doc tokens n res n' \<longleftrightarrow> res = Inr POS_OK \<and> n' = unat tokens"

definition pos_sem_take_doc :: "refusals \<Rightarrow> pos_time \<Rightarrow> nat \<Rightarrow> stop + pos_error \<Rightarrow> nat \<Rightarrow> bool" where
  "pos_sem_take_doc refusals timeout n res n' \<longleftrightarrow>
     (if 0 < n then res = Inr POS_OK \<and> n = Suc n' else res \<in> set (refusals timeout) \<and> n' = n)"

text \<open>Giving has no effect at the maximum count; \<open>full\<close> lists what a port then returns.\<close>

definition pos_sem_give_doc :: "nat \<Rightarrow> (stop + pos_error) list \<Rightarrow> nat \<Rightarrow> stop + pos_error \<Rightarrow> nat \<Rightarrow> bool" where
  "pos_sem_give_doc limit full n res n' \<longleftrightarrow>
     (if n < limit then res = Inr POS_OK \<and> n' = Suc n else res \<in> set full \<and> n' = n)"

fun sem_step ::
    "(pos_error, 'w) prog \<Rightarrow> (pos_time \<Rightarrow> (pos_error, 'w) prog) \<Rightarrow> sem_call \<Rightarrow> (pos_error, 'w) prog" where
  "sem_step sem_give sem_take SGive = sem_give"
| "sem_step sem_give sem_take (STake tmo) = sem_take tmo"

fun sem_doc :: "nat \<Rightarrow> (stop + pos_error) list \<Rightarrow> refusals \<Rightarrow> (sem_call, pos_error, nat) api_spec" where
  "sem_doc limit full refusals SGive = pos_sem_give_doc limit full"
| "sem_doc limit full refusals (STake tmo) = pos_sem_take_doc refusals tmo"

subsection \<open>Message queues\<close>

text \<open>An initialised queue: message size, maximum number of messages, the messages.\<close>

record doc_queue =
  dq_size :: nat
  dq_max :: nat
  dq_msgs :: "bytes list"

definition pos_queue_init_doc ::
    "nat \<Rightarrow> nat \<Rightarrow> doc_queue option \<Rightarrow> stop + pos_error \<Rightarrow> doc_queue option \<Rightarrow> bool" where
  "pos_queue_init_doc msg_size max_msgs q res q' \<longleftrightarrow>
     res = Inr POS_OK \<and> q' = Some \<lparr>dq_size = msg_size, dq_max = max_msgs, dq_msgs = []\<rparr>"

text \<open>
  The oldest message is copied to the start of the caller's area, whose content is part of the
  result.
\<close>

definition pos_queue_get_doc ::
    "refusals \<Rightarrow> bytes \<Rightarrow> pos_time \<Rightarrow> doc_queue \<Rightarrow> stop + pos_error \<times> bytes \<Rightarrow> doc_queue \<Rightarrow> bool" where
  "pos_queue_get_doc refusals data timeout q res q' \<longleftrightarrow>
     (case dq_msgs q of
        y # ys \<Rightarrow> res = Inr (POS_OK, y @ drop (dq_size q) data) \<and> q' = q\<lparr>dq_msgs := ys\<rparr>
      | [] \<Rightarrow> res \<in> map_sum id (\<lambda>e. (e, data)) ` set (refusals timeout) \<and> q' = q)"

text \<open>A put copies the message to the end; \<open>full\<close> lists what happens at the maximum.\<close>

definition pos_queue_put_doc ::
    "(stop + pos_error) list \<Rightarrow> bytes \<Rightarrow> doc_queue \<Rightarrow> stop + pos_error \<Rightarrow> doc_queue \<Rightarrow> bool" where
  "pos_queue_put_doc full data q res q' \<longleftrightarrow>
     (if length (dq_msgs q) < dq_max q
      then res = Inr POS_OK \<and> q' = q\<lparr>dq_msgs := dq_msgs q @ [take (dq_size q) data]\<rparr>
      else res \<in> set full \<and> q' = q)"

definition pos_queue_inited_doc :: "doc_queue option \<Rightarrow> pos_error" where
  "pos_queue_inited_doc q = (if q \<noteq> None then POS_OK else POS_EINVAL)"

text \<open>The queue is gone exactly when the call succeeds.\<close>

definition pos_queue_deinit_doc :: "'q option \<Rightarrow> stop + pos_error \<Rightarrow> 'q option \<Rightarrow> bool" where
  "pos_queue_deinit_doc q res q' \<longleftrightarrow> (res = Inr POS_OK \<and> q' = None) \<or> (res = Inr POS_ERROR \<and> q' = q)"

fun queue_step ::
    "(bytes \<Rightarrow> (pos_error, 'w) prog) \<Rightarrow> (bytes \<Rightarrow> pos_time \<Rightarrow> (pos_error \<times> bytes, 'w) prog) \<Rightarrow>
     queue_call \<Rightarrow> (pos_error \<times> bytes, 'w) prog" where
  "queue_step put get (QPut x) = c_bind (put x) (\<lambda>e. c_return (e, x))"
| "queue_step put get (QGet out tmo) = get out tmo"

text \<open>Areas and messages must have the message size; other calls are outside the contract.\<close>

fun queue_doc ::
    "(stop + pos_error) list \<Rightarrow> refusals \<Rightarrow> (queue_call, pos_error \<times> bytes, doc_queue) api_spec" where
  "queue_doc full refusals (QPut x) q res q' \<longleftrightarrow>
     (case res of
        Inl s \<Rightarrow> pos_queue_put_doc full x q (Inl s) q'
      | Inr (e, y) \<Rightarrow> y = x \<and> pos_queue_put_doc full x q (Inr e) q')"
| "queue_doc full refusals (QGet out tmo) q res q' \<longleftrightarrow> pos_queue_get_doc refusals out tmo q res q'"

text \<open>A queue of a port, as the documentation sees it.\<close>

definition queue_view :: "('w \<Rightarrow> bytes list) \<Rightarrow> ('w \<Rightarrow> nat) \<Rightarrow> ('w \<Rightarrow> nat) \<Rightarrow> 'w \<Rightarrow> doc_queue" where
  "queue_view items cap width w = \<lparr>dq_size = width w, dq_max = cap w, dq_msgs = items w\<rparr>"

subsection \<open>Timers\<close>

text \<open>
  The state of a timer is the number of ticks until it expires, \<open>None\<close> when it is not
  running.  Starting is permitted while it runs and begins anew; stopping a timer that does not run has
  no effect.  The headers leave the meaning of a zero duration open.  \<open>codes\<close> lists what a
  port's \<open>pos_timer_stop\<close> returns (\<open>None\<close> a number that is no error code).
\<close>

definition pos_timer_start_doc :: "'n::len word \<Rightarrow> nat option \<Rightarrow> stop + pos_error option \<Rightarrow> nat option \<Rightarrow> bool" where
  "pos_timer_start_doc ticks st res st' \<longleftrightarrow>
     res = Inr (Some POS_OK) \<and> (case st' of None \<Rightarrow> False | Some d \<Rightarrow> ticks = 0 \<or> d = unat ticks)"

definition pos_timer_stop_doc ::
    "pos_error option list \<Rightarrow> nat option \<Rightarrow> stop + pos_error option \<Rightarrow> nat option \<Rightarrow> bool" where
  "pos_timer_stop_doc codes st res st' \<longleftrightarrow> res \<in> Inr ` set codes \<and> st' = None"

datatype 'n timer_call = TStart 'n | TStop | TIsActive

datatype timer_result = TStatus "pos_error option" | TActive bool

fun timer_step ::
    "('n \<Rightarrow> (pos_error, 'w) prog) \<Rightarrow> (pos_error option, 'w) prog \<Rightarrow> (bool, 'w) prog \<Rightarrow> 'n timer_call \<Rightarrow>
     (timer_result, 'w) prog" where
  "timer_step start stop is_active (TStart n) = c_bind (start n) (\<lambda>e. c_return (TStatus (Some e)))"
| "timer_step start stop is_active TStop = c_bind stop (\<lambda>e. c_return (TStatus e))"
| "timer_step start stop is_active TIsActive = c_bind is_active (\<lambda>b. c_return (TActive b))"

fun timer_doc :: "pos_error option list \<Rightarrow> ('n::len word timer_call, timer_result, nat option) api_spec" where
  "timer_doc codes (TStart n) st res st' \<longleftrightarrow>
     (case res of Inr (TStatus e) \<Rightarrow> pos_timer_start_doc n st (Inr e) st' | _ \<Rightarrow> False)"
| "timer_doc codes TStop st res st' \<longleftrightarrow>
     (case res of Inr (TStatus e) \<Rightarrow> pos_timer_stop_doc codes st (Inr e) st' | _ \<Rightarrow> False)"
| "timer_doc codes TIsActive st res st' \<longleftrightarrow> res = Inr (TActive (st \<noteq> None)) \<and> st' = st"

subsection \<open>Scheduler and panic\<close>

text \<open>\<open>pos_sched_start\<close> and \<open>pos_panic\<close> never return.\<close>

definition pos_sched_start_doc :: "(unit, 'w) prog \<Rightarrow> bool" where
  "pos_sched_start_doc p \<longleftrightarrow> (\<forall>w. returned (p w) = None)"

definition pos_panic_doc :: "(unit, 'w) prog \<Rightarrow> bool" where
  "pos_panic_doc p \<longleftrightarrow> (\<forall>w. returned (p w) = None)"

section \<open>The contract between a port and the documentation\<close>

lemma allowed_Returns [simp]:
  "allowed rel view ok w (Returns r w') \<longleftrightarrow> ok w' \<and> rel (view w) (Inr r) (view w')"
  by (simp add: allowed_def)

lemma allowed_Stops [simp]:
  "allowed rel view ok w (Stops s) \<longleftrightarrow> rel (view w) (Inl s) (view w)"
  by (simp add: allowed_def)

locale api_refinement =
  fixes step :: "'c \<Rightarrow> ('r, 'w) prog"
    and spec :: "('c, 'r, 's) api_spec"
    and view :: "'w \<Rightarrow> 's"
    and ok :: "'w \<Rightarrow> bool"
    and pre :: "'c \<Rightarrow> bool"
  assumes step_allowed: "ok w \<Longrightarrow> pre c \<Longrightarrow> allowed (spec c) view ok w (step c w)"
begin

text \<open>A forward simulation: whatever a sequence of calls does is a trace of the specification.\<close>

lemma run_refines:
  assumes "ok w" and "\<forall>c \<in> set cs. pre c" and "api_run step cs w = (rs, w', st)"
  shows "ok w' \<and> api_trace spec cs rs st (view w) (view w')"
  using assms
proof (induction cs arbitrary: w rs)
  case Nil
  then show ?case by (auto intro: trace_done)
next
  case (Cons c cs)
  have al: "allowed (spec c) view ok w (step c w)" using step_allowed Cons.prems(1,2) by simp
  show ?case
  proof (cases "step c w")
    case (Returns r w1)
    with Cons.prems(3) obtain rs1 where "api_run step cs w1 = (rs1, w', st)" "rs = r # rs1"
      by (auto split: prod.splits)
    with Returns al Cons.IH [of w1 rs1] Cons.prems(2) show ?thesis by (auto intro: trace_call)
  next
    case (Stops s)
    with Cons.prems al show ?thesis by (auto intro: trace_stop)
  qed
qed

lemma run_meets:
  assumes "ok w" and "\<forall>c \<in> set cs. pre c"
  shows "meets step spec view cs w"
  using run_refines [OF assms] by (simp add: meets_def split: prod.split)

end

section \<open>What the contracts of the ports give\<close>

text \<open>The mutex contract with the codes of the refused calls.\<close>

locale osal_mutex_codes = osal_mutex +
  fixes refusals :: refusals
    and strangers :: "pos_error list"
  assumes lock_refused:
      "ready w \<Longrightarrow> own w = Some (u, n) \<Longrightarrow> u \<noteq> t \<Longrightarrow>
       (case lock t tmo w of
          Returns e w' \<Rightarrow> Inr e \<in> set (refusals tmo) \<and> own w' = own w
        | Stops s \<Rightarrow> Inl s \<in> set (refusals tmo))"
    and unlock_refused:
      "ready w \<Longrightarrow> held (own w) t = 0 \<Longrightarrow> unlock t w = Returns e w' \<Longrightarrow> e \<in> set strangers"
begin

lemma lock_allowed: "ready w \<Longrightarrow> allowed (pos_mutex_lock_doc depth_limit refusals t tmo) own ready w (lock t tmo w)"
proof (cases "own w")
  case None
  assume "ready w"
  with None lock_free [of w t tmo] show ?thesis by (auto simp: pos_mutex_lock_doc_def)
next
  case (Some p)
  assume r: "ready w"
  obtain u n where own: "own w = Some (u, n)" using Some by (cases p) auto
  show ?thesis
  proof (cases "u = t")
    case True
    then have "0 < n" using own_pos [OF r] own by blast
    with True own lock_again [OF r, of t n tmo] show ?thesis
      by (auto simp: pos_mutex_lock_doc_def not_less split: if_splits)
  next
    case False
    with own lock_refused [OF r own False, of tmo] lock_other [OF r own False, of tmo] show ?thesis
      by (auto simp: pos_mutex_lock_doc_def)
  qed
qed

lemma unlock_allowed: "ready w \<Longrightarrow> allowed (pos_mutex_unlock_doc strangers t) own ready w (unlock t w)"
proof (cases "held (own w) t")
  case 0
  assume r: "ready w"
  with 0 unlock_other [OF r 0] unlock_refused [OF r 0] show ?thesis by (auto simp: pos_mutex_unlock_doc_def)
next
  case (Suc n)
  assume r: "ready w"
  then have "own w = Some (t, Suc n)" using Suc by (cases "own w") (auto split: if_splits)
  with unlock_own [OF r this] show ?thesis by (auto simp: pos_mutex_unlock_doc_def)
qed

end

sublocale osal_mutex_codes \<subseteq> mutex_api: api_refinement "mutex_step lock unlock"
  "mutex_doc depth_limit refusals strangers" own ready "\<lambda>_. True"
proof (unfold_locales, goal_cases)
  case (1 w c)
  then show ?case by (cases c) (simp_all add: lock_allowed unlock_allowed)
qed

text \<open>The semaphore contract with the codes of the refused calls.\<close>

locale osal_sem_codes = osal_sem +
  fixes refusals :: refusals
    and full :: "(stop + pos_error) list"
  assumes take_refused:
      "ready w \<Longrightarrow> tokens w = 0 \<Longrightarrow>
       (case sem_take tmo w of
          Returns e w' \<Rightarrow> Inr e \<in> set (refusals tmo)
        | Stops s \<Rightarrow> Inl s \<in> set (refusals tmo))"
    and give_refused:
      "ready w \<Longrightarrow> \<not> tokens w < limit \<Longrightarrow>
       (case sem_give w of
          Returns e w' \<Rightarrow> Inr e \<in> set full \<and> ready w' \<and> tokens w' = tokens w
        | Stops s \<Rightarrow> Inl s \<in> set full)"
begin

lemma give_allowed: "ready w \<Longrightarrow> allowed (pos_sem_give_doc limit full) tokens ready w (sem_give w)"
  using give_room [of w] give_refused [of w]
  by (cases "tokens w < limit") (auto simp: pos_sem_give_doc_def split: outcome.splits)

lemma take_allowed: "ready w \<Longrightarrow> allowed (pos_sem_take_doc refusals tmo) tokens ready w (sem_take tmo w)"
  using take_token [of w tmo] take_none [of w tmo] take_refused [of w tmo]
  by (cases "tokens w = 0") (auto simp: pos_sem_take_doc_def)

end

sublocale osal_sem_codes \<subseteq> sem_api: api_refinement "sem_step sem_give sem_take"
  "sem_doc limit full refusals" tokens ready "\<lambda>_. True"
proof (unfold_locales, goal_cases)
  case (1 w c)
  then show ?case by (cases c) (simp_all add: give_allowed take_allowed)
qed

text \<open>The queue contract with the codes of the refused calls; a get of an empty queue may report anything.\<close>

locale osal_queue_codes = osal_queue_core +
  fixes refusals :: refusals
    and full :: "(stop + pos_error) list"
  assumes get_refused:
      "ok w \<Longrightarrow> items w = [] \<Longrightarrow>
       (case get out tmo w of
          Returns r w' \<Rightarrow> Inr (fst r) \<in> set (refusals tmo) \<and> snd r = out \<and> ok w' \<and> items w' = [] \<and>
            cap w' = cap w \<and> width w' = width w
        | Stops s \<Rightarrow> Inl s \<in> set (refusals tmo))"
    and put_refused:
      "ok w \<Longrightarrow> length (items w) = cap w \<Longrightarrow> width w \<le> length x \<Longrightarrow>
       (case put x w of
          Returns e w' \<Rightarrow> Inr e \<in> set full \<and> ok w' \<and> items w' = items w \<and> cap w' = cap w \<and> width w' = width w
        | Stops s \<Rightarrow> Inl s \<in> set full)"
begin

lemma put_allowed:
  assumes "ok w" and "width w \<le> length x"
  shows "allowed (queue_doc full refusals (QPut x)) (queue_view items cap width)
           (\<lambda>w'. ok w' \<and> width w' = width w) w (queue_step put get (QPut x) w)"
  using assms put_room [of w x] put_refused [of w x] items_cap [of w]
  by (cases "length (items w) < cap w")
    (auto simp: pos_queue_put_doc_def queue_view_def prog_defs split: outcome.splits)

lemma get_allowed:
  assumes "ok w" and "width w \<le> length out"
  shows "allowed (queue_doc full refusals (QGet out tmo)) (queue_view items cap width)
           (\<lambda>w'. ok w' \<and> width w' = width w) w (queue_step put get (QGet out tmo) w)"
proof (cases "items w")
  case Nil
  with assms get_refused [of w tmo out] show ?thesis
    by (force simp: pos_queue_get_doc_def queue_view_def image_iff split: outcome.splits)
next
  case (Cons y ys)
  with assms get_item [of w y ys out tmo] show ?thesis
    by (auto simp: pos_queue_get_doc_def queue_view_def)
qed

end

sublocale osal_queue_codes \<subseteq> queue_api: api_refinement "queue_step put get" "queue_doc full refusals"
  "queue_view items cap width" "\<lambda>w. ok w \<and> width w = n" "call_area_ok n" for n
proof (unfold_locales, goal_cases)
  case (1 w c)
  then show ?case using put_allowed [of w] get_allowed [of w] by (cases c) auto
qed

end
