(* ===== verification/Posix_Utils.thy ===== *)
theory Posix_Utils
  imports Osal_Interfaces
begin

text \<open>
  What the POSIX port's files share: the error numbers the C library defines (Linux
  values), the translation of \<^verbatim>\<open>targets/posix/os_utils.c\<close>, and the absolute deadlines that
  \<^verbatim>\<open>os_sem.c\<close> and \<^verbatim>\<open>os_mutex.c\<close> compute from a timeout in milliseconds.
\<close>

section \<open>Definitions\<close>

abbreviation "EPERM \<equiv> (1 :: int)"
abbreviation "EINTR \<equiv> (4 :: int)"
abbreviation "EAGAIN \<equiv> (11 :: int)"
abbreviation "ENOMEM \<equiv> (12 :: int)"
abbreviation "EBUSY \<equiv> (16 :: int)"
abbreviation "EINVAL \<equiv> (22 :: int)"
abbreviation "EDEADLK \<equiv> (35 :: int)"
abbreviation "EOVERFLOW \<equiv> (75 :: int)"
abbreviation "ETIMEDOUT \<equiv> (110 :: int)"

definition map_posix_to_osal_error :: "int \<Rightarrow> pos_error" where
  "map_posix_to_osal_error ret =
     (if ret = 0 then POS_OK
      else if ret = ENOMEM then POS_ENOMEM
      else if ret = ETIMEDOUT then POS_TIMEOUT
      else if ret = EBUSY then POS_EBUSY
      else if ret = EINVAL then POS_EINVAL
      else if ret = EDEADLK then POS_BAD_MUTEX
      else if ret = EPERM then POS_ERR_PRIV
      else POS_ERROR)"

text \<open>The special timeouts of the Linux build (\<^verbatim>\<open>poski/osal/os_time.h\<close>): \<open>INT32_MAX\<close> and zero.\<close>

definition POS_TIME_FOREVER_posix :: pos_time where
  "POS_TIME_FOREVER_posix = 2147483647"

definition POS_TIME_NO_WAIT_posix :: pos_time where
  "POS_TIME_NO_WAIT_posix = 0"

record timespec =
  tv_sec :: int
  tv_nsec :: int

text \<open>
  \<open>tv_sec += timeout / 1000; tv_nsec += (timeout % 1000) * 1000000\<close>: the additions to the
  fields are of 32-bit unsigned values; the sum of the nanoseconds is not normalised.
\<close>

definition deadline_after :: "timespec \<Rightarrow> pos_time \<Rightarrow> timespec" where
  "deadline_after now timeout =
     now\<lparr>tv_sec := tv_sec now + uint (timeout div 1000),
         tv_nsec := tv_nsec now + uint ((timeout mod 1000) * 1000000)\<rparr>"

text \<open>An instant in nanoseconds, and the form the POSIX calls require of its fields.\<close>

definition instant_ns :: "timespec \<Rightarrow> int" where
  "instant_ns ts = tv_sec ts * 1000000000 + tv_nsec ts"

definition valid_timespec :: "timespec \<Rightarrow> bool" where
  "valid_timespec ts \<longleftrightarrow> 0 \<le> tv_nsec ts \<and> tv_nsec ts < 1000000000"

text \<open>The normalised \<open>timespec\<close> of a number of nanoseconds, as a clock reports it.\<close>

definition timespec_of_ns :: "nat \<Rightarrow> timespec" where
  "timespec_of_ns n = \<lparr>tv_sec = int (n div 1000000000), tv_nsec = int (n mod 1000000000)\<rparr>"

section \<open>Properties\<close>

lemma timespec_of_ns_valid [simp]: "valid_timespec (timespec_of_ns n)"
proof -
  have "n mod 1000000000 < 1000000000" by simp
  then have "int (n mod 1000000000) < int 1000000000" by (simp only: of_nat_less_iff)
  then show ?thesis by (simp add: valid_timespec_def timespec_of_ns_def)
qed

lemma map_posix_to_osal_error_OK: "map_posix_to_osal_error ret = POS_OK \<longleftrightarrow> ret = 0"
  by (simp add: map_posix_to_osal_error_def)

lemma map_posix_to_osal_error_simps [simp]:
  "map_posix_to_osal_error 0 = POS_OK"
  "map_posix_to_osal_error ENOMEM = POS_ENOMEM"
  "map_posix_to_osal_error ETIMEDOUT = POS_TIMEOUT"
  "map_posix_to_osal_error EBUSY = POS_EBUSY"
  "map_posix_to_osal_error EINVAL = POS_EINVAL"
  "map_posix_to_osal_error EDEADLK = POS_BAD_MUTEX"
  "map_posix_to_osal_error EPERM = POS_ERR_PRIV"
  "map_posix_to_osal_error EINTR = POS_ERROR"
  "map_posix_to_osal_error EAGAIN = POS_ERROR"
  "map_posix_to_osal_error (- 1) = POS_ERROR"
  by (simp_all add: map_posix_to_osal_error_def)

lemma uint_ms_to_ns: "uint ((timeout mod 1000) * 1000000 :: u32) = uint timeout mod 1000 * 1000000"
proof -
  have "uint timeout mod 1000 * 1000000 < 2 ^ 32"
    using pos_mod_bound [of 1000 "uint timeout"] by simp
  moreover have "0 \<le> uint timeout mod 1000 * 1000000" by simp
  ultimately show ?thesis by (simp add: uint_word_ariths uint_mod)
qed

lemma deadline_after_instant:
  "instant_ns (deadline_after now timeout) = instant_ns now + uint timeout * 1000000"
proof -
  have "uint timeout div 1000 * 1000000000 + uint timeout mod 1000 * 1000000 = uint timeout * 1000000"
    using div_mult_mod_eq [of "uint timeout" 1000] by linarith
  then show ?thesis
    by (simp add: deadline_after_def instant_ns_def uint_ms_to_ns uint_div)
qed

lemma deadline_after_valid_iff:
  assumes "valid_timespec now"
  shows "valid_timespec (deadline_after now timeout) \<longleftrightarrow>
           tv_nsec now + uint timeout mod 1000 * 1000000 < 1000000000"
  using assms by (simp add: deadline_after_def valid_timespec_def uint_ms_to_ns)

text \<open>The absolute deadline that the POSIX port computes denotes exactly the instant \<open>timeout\<close>
  milliseconds later, without overflow for any 32-bit timeout; it has the form the library
  requires exactly when the nanoseconds do not carry into the next second.\<close>

theorem posix_deadline:
  assumes "valid_timespec now"
  shows "instant_ns (deadline_after now timeout) = instant_ns now + uint timeout * 1000000 \<and>
         (valid_timespec (deadline_after now timeout) \<longleftrightarrow>
            tv_nsec now + uint timeout mod 1000 * 1000000 < 1000000000)"
  using deadline_after_instant deadline_after_valid_iff [OF assms] by blast

theorem posix_deadline_witness:
  "instant_ns (deadline_after \<lparr>tv_sec = 7, tv_nsec = 999999999\<rparr> 4294967295) = 4294975294999999 \<and>
   \<not> valid_timespec (deadline_after \<lparr>tv_sec = 7, tv_nsec = 999999999\<rparr> 4294967295)"
  using posix_deadline [of "\<lparr>tv_sec = 7, tv_nsec = 999999999\<rparr>" 4294967295]
  by (simp add: valid_timespec_def instant_ns_def)

end
