(* ===== verification/Posix_Mutex.thy ===== *)
theory Posix_Mutex
  imports Posix_Utils
begin

text \<open>
  The POSIX mutex of \<^verbatim>\<open>targets/posix/os_mutex.c\<close>: a recursive pthread mutex, its attribute
  object and a scratch \<open>timespec\<close> for timed locks.  Every call is made by a task \<open>'t\<close>.
\<close>

section \<open>Definitions\<close>

datatype mutex_type = PTHREAD_MUTEX_NORMAL | PTHREAD_MUTEX_RECURSIVE

record ('t, 'm, 'a, 'k) pthread_mutex_api =
  pthread_mutexattr_init :: "'a \<Rightarrow> (int, 'k) prog"
  pthread_mutexattr_settype :: "'a \<Rightarrow> mutex_type \<Rightarrow> (int, 'k) prog"
  pthread_mutex_init :: "'m \<Rightarrow> 'a \<Rightarrow> (int, 'k) prog"
  pthread_mutex_lock :: "'t \<Rightarrow> 'm \<Rightarrow> (int, 'k) prog"
  pthread_mutex_timedlock :: "'t \<Rightarrow> 'm \<Rightarrow> timespec \<Rightarrow> (int, 'k) prog"
  pthread_mutex_unlock :: "'t \<Rightarrow> 'm \<Rightarrow> (int, 'k) prog"
  mutex_clock_realtime :: "(int \<times> timespec, 'k) prog"

record ('m, 'a) pos_mutex_posix =
  pm_lock :: 'm
  pm_attr :: 'a
  pm_wait :: timespec

definition pos_mutex_init_posix ::
    "('t, 'm, 'a, 'k) pthread_mutex_api \<Rightarrow> (pos_error, ('m, 'a) pos_mutex_posix \<times> 'k) prog" where
  "pos_mutex_init_posix api =
     c_bind (get_obj pm_attr) (\<lambda>attr.
     c_bind (get_obj pm_lock) (\<lambda>lock.
     c_bind
       (SuccessOrExit (kcall (pthread_mutexattr_init api attr))
       (SuccessOrExit (kcall (pthread_mutexattr_settype api attr PTHREAD_MUTEX_RECURSIVE))
       (SuccessOrExit (kcall (pthread_mutex_init api lock attr))
       (c_return 0))))
       (\<lambda>ret. c_return (if ret \<noteq> 0 then POS_BAD_MUTEX else POS_OK))))"

definition pos_mutex_unlock_posix ::
    "('t, 'm, 'a, 'k) pthread_mutex_api \<Rightarrow> 't \<Rightarrow> (pos_error, ('m, 'a) pos_mutex_posix \<times> 'k) prog" where
  "pos_mutex_unlock_posix api t =
     c_bind (get_obj pm_lock) (\<lambda>lock.
     c_bind (SuccessOrExit (kcall (pthread_mutex_unlock api t lock)) (c_return 0))
       (\<lambda>ret. c_return (map_posix_to_osal_error ret)))"

definition pos_mutex_lock_posix ::
    "('t, 'm, 'a, 'k) pthread_mutex_api \<Rightarrow> 't \<Rightarrow> pos_time \<Rightarrow>
     (pos_error, ('m, 'a) pos_mutex_posix \<times> 'k) prog" where
  "pos_mutex_lock_posix api t timeout =
     c_bind (get_obj pm_lock) (\<lambda>lock.
     c_bind
       (if timeout = POS_TIME_FOREVER_posix then
          SuccessOrExit (kcall (pthread_mutex_lock api t lock)) (c_return 0)
        else
          SuccessOrExit
            (c_bind (kcall (mutex_clock_realtime api)) (\<lambda>(ret, now).
               if ret \<noteq> 0 then c_return ret
               else c_then (upd_obj (\<lambda>mu. mu\<lparr>pm_wait := now\<rparr>)) (c_return 0)))
            (c_then (upd_obj (\<lambda>mu. mu\<lparr>pm_wait := deadline_after (pm_wait mu) timeout\<rparr>))
            (c_bind (get_obj pm_wait) (\<lambda>wait.
             SuccessOrExit (kcall (pthread_mutex_timedlock api t lock wait)) (c_return 0)))))
       (\<lambda>ret. c_return (map_posix_to_osal_error ret)))"

text \<open>On Apple targets the timeout is not used.\<close>

definition pos_mutex_lock_apple ::
    "('t, 'm, 'a, 'k) pthread_mutex_api \<Rightarrow> 't \<Rightarrow> 64 word \<Rightarrow>
     (pos_error, ('m, 'a) pos_mutex_posix \<times> 'k) prog" where
  "pos_mutex_lock_apple api t timeout =
     c_bind (get_obj pm_lock) (\<lambda>lock.
     c_bind (SuccessOrExit (kcall (pthread_mutex_lock api t lock)) (c_return 0))
       (\<lambda>ret. c_return (map_posix_to_osal_error ret)))"

subsection \<open>A reference model of the library\<close>

text \<open>Recursive mutexes with owner and depth, attribute types and a clock.\<close>

record ref_mutexes =
  rm_own :: "nat \<Rightarrow> nat mutex_state"
  rm_type :: "nat \<Rightarrow> mutex_type"
  rm_attr :: "nat \<Rightarrow> mutex_type"
  rm_now :: nat

definition rm_limit :: nat where
  "rm_limit = 4294967295"

definition rm_set :: "nat \<Rightarrow> nat mutex_state \<Rightarrow> ref_mutexes \<Rightarrow> ref_mutexes" where
  "rm_set m st k = k\<lparr>rm_own := (rm_own k)(m := st)\<rparr>"

definition rm_acquire :: "nat \<Rightarrow> nat \<Rightarrow> (int, ref_mutexes) outcome \<Rightarrow> (int, ref_mutexes) prog" where
  "rm_acquire t m busy k =
     (case rm_own k m of
        None \<Rightarrow> Returns 0 (rm_set m (Some (t, 1)) k)
      | Some (u, n) \<Rightarrow>
          if u \<noteq> t then busy
          else if n < rm_limit then Returns 0 (rm_set m (Some (t, Suc n)) k) else Returns EAGAIN k)"

definition ref_mutex_api :: "(nat, nat, nat, ref_mutexes) pthread_mutex_api" where
  "ref_mutex_api =
     \<lparr>pthread_mutexattr_init = (\<lambda>a k. Returns 0 (k\<lparr>rm_attr := (rm_attr k)(a := PTHREAD_MUTEX_NORMAL)\<rparr>)),
      pthread_mutexattr_settype = (\<lambda>a ty k. Returns 0 (k\<lparr>rm_attr := (rm_attr k)(a := ty)\<rparr>)),
      pthread_mutex_init = (\<lambda>m a k.
        Returns 0 (k\<lparr>rm_own := (rm_own k)(m := None), rm_type := (rm_type k)(m := rm_attr k a)\<rparr>)),
      pthread_mutex_lock = (\<lambda>t m k. rm_acquire t m (Stops Blocked) k),
      pthread_mutex_timedlock = (\<lambda>t m ts k.
        rm_acquire t m (Returns (if valid_timespec ts then ETIMEDOUT else EINVAL) k) k),
      pthread_mutex_unlock = (\<lambda>t m k.
        case rm_own k m of
          None \<Rightarrow> Returns EPERM k
        | Some (u, n) \<Rightarrow>
            if u = t then Returns 0 (rm_set m (released t (n - 1)) k) else Returns EPERM k),
      mutex_clock_realtime = (\<lambda>k. Returns (0, timespec_of_ns (rm_now k)) k)\<rparr>"

definition rm_recursive :: "ref_mutexes \<Rightarrow> nat \<Rightarrow> bool" where
  "rm_recursive k m \<longleftrightarrow>
     rm_type k m = PTHREAD_MUTEX_RECURSIVE \<and>
     (case rm_own k m of None \<Rightarrow> True | Some (_, n) \<Rightarrow> 0 < n)"

definition rm_attr_recursive :: "ref_mutexes \<Rightarrow> nat \<Rightarrow> bool" where
  "rm_attr_recursive k a \<longleftrightarrow> rm_attr k a = PTHREAD_MUTEX_RECURSIVE"

text \<open>A process with one mutex object, before and after its initialisation.\<close>

definition ref_mutexes0 :: ref_mutexes where
  "ref_mutexes0 = \<lparr>rm_own = \<lambda>_. None, rm_type = \<lambda>_. PTHREAD_MUTEX_NORMAL,
     rm_attr = \<lambda>_. PTHREAD_MUTEX_NORMAL, rm_now = 0\<rparr>"

definition mutex0 :: "(nat, nat) pos_mutex_posix" where
  "mutex0 = \<lparr>pm_lock = 0, pm_attr = 0, pm_wait = timespec_of_ns 0\<rparr>"

definition ref_mutexes1 :: ref_mutexes where
  "ref_mutexes1 = ref_mutexes0\<lparr>rm_own := (rm_own ref_mutexes0)(0 := None),
     rm_type := (rm_type ref_mutexes0)(0 := PTHREAD_MUTEX_RECURSIVE),
     rm_attr := ((rm_attr ref_mutexes0)(0 := PTHREAD_MUTEX_NORMAL))(0 := PTHREAD_MUTEX_RECURSIVE)\<rparr>"

section \<open>The documented behaviour of the library\<close>

text \<open>
  \<open>own k m\<close> is the state of the recursive mutex \<open>m\<close> (\<open>recursive k m\<close>: it was initialised with
  the recursive type).  A lock by the owner counts up, until the implementation's limit
  (\<open>EAGAIN\<close>); a lock by another task waits, and a timed one reports \<open>ETIMEDOUT\<close>, or \<open>EINVAL\<close>
  for a malformed deadline; an unlock by a task that does not own it reports \<open>EPERM\<close>.
\<close>

locale pthread_mutex_kernel =
  fixes api :: "('t, 'm, 'a, 'k) pthread_mutex_api"
    and own :: "'k \<Rightarrow> 'm \<Rightarrow> 't mutex_state"
    and recursive :: "'k \<Rightarrow> 'm \<Rightarrow> bool"
    and attr_recursive :: "'k \<Rightarrow> 'a \<Rightarrow> bool"
    and rec_limit :: nat
  assumes settype_recursive:
      "pthread_mutexattr_settype api a PTHREAD_MUTEX_RECURSIVE k = Returns 0 k' \<Longrightarrow>
       attr_recursive k' a"
    and init_recursive:
      "attr_recursive k a \<Longrightarrow> pthread_mutex_init api m a k = Returns 0 k' \<Longrightarrow>
       recursive k' m \<and> own k' m = None"
    and mutex_lock_free:
      "recursive k m \<Longrightarrow> own k m = None \<Longrightarrow>
       \<exists>k'. pthread_mutex_lock api t m k = Returns 0 k' \<and> recursive k' m \<and> own k' m = Some (t, 1)"
    and mutex_lock_again:
      "recursive k m \<Longrightarrow> own k m = Some (t, n) \<Longrightarrow>
       \<exists>ret k'. pthread_mutex_lock api t m k = Returns ret k' \<and> recursive k' m \<and>
                own k' m = (if ret = 0 then Some (t, Suc n) else own k m) \<and>
                (n < rec_limit \<longrightarrow> ret = 0)"
    and mutex_lock_other:
      "recursive k m \<Longrightarrow> own k m = Some (u, n) \<Longrightarrow> u \<noteq> t \<Longrightarrow>
       pthread_mutex_lock api t m k = Stops Blocked"
    and timedlock_immediate:
      "recursive k m \<Longrightarrow> own k m = None \<or> 0 < held (own k m) t \<Longrightarrow>
       pthread_mutex_timedlock api t m ts k = pthread_mutex_lock api t m k"
    and timedlock_other:
      "recursive k m \<Longrightarrow> own k m = Some (u, n) \<Longrightarrow> u \<noteq> t \<Longrightarrow>
       \<exists>k'. pthread_mutex_timedlock api t m ts k =
              Returns (if valid_timespec ts then ETIMEDOUT else EINVAL) k' \<and>
            recursive k' m \<and> own k' m = own k m"
    and mutex_unlock_own:
      "recursive k m \<Longrightarrow> own k m = Some (t, Suc n) \<Longrightarrow>
       \<exists>k'. pthread_mutex_unlock api t m k = Returns 0 k' \<and> recursive k' m \<and>
            own k' m = released t n"
    and mutex_unlock_other:
      "recursive k m \<Longrightarrow> held (own k m) t = 0 \<Longrightarrow>
       \<exists>k'. pthread_mutex_unlock api t m k = Returns EPERM k' \<and> recursive k' m \<and>
            own k' m = own k m"
    and mutex_own_pos: "recursive k m \<Longrightarrow> own k m = Some (t, n) \<Longrightarrow> 0 < n"
    and clock_reads:
      "\<exists>now. mutex_clock_realtime api k = Returns (0, now) k \<and> valid_timespec now"
begin

lemma init_ok:
  assumes "pos_mutex_init_posix api (mu, k) = Returns POS_OK (mu', k')"
  shows "mu' = mu \<and> recursive k' (pm_lock mu) \<and> own k' (pm_lock mu) = None"
  using assms
  by (auto simp: pos_mutex_init_posix_def SuccessOrExit_def prog_defs
      split: outcome.splits if_splits dest!: settype_recursive dest: init_recursive)

text \<open>A lock that need not wait, in both branches of the code: the result is \<open>pthread_mutex_lock\<close>'s.\<close>

lemma lock_immediate:
  assumes "recursive k (pm_lock mu)" and "own k (pm_lock mu) = None \<or> 0 < held (own k (pm_lock mu)) t"
    and "pthread_mutex_lock api t (pm_lock mu) k = Returns ret k'"
  shows "\<exists>mu'. pos_mutex_lock_posix api t tmo (mu, k) =
                 Returns (map_posix_to_osal_error ret) (mu', k') \<and> pm_lock mu' = pm_lock mu"
proof -
  obtain now where "mutex_clock_realtime api k = Returns (0, now) k" using clock_reads by blast
  then show ?thesis
    using timedlock_immediate [OF assms(1,2)] assms(3)
    by (auto simp: pos_mutex_lock_posix_def SuccessOrExit_def prog_defs)
qed

lemma lock_contended:
  assumes "recursive k (pm_lock mu)" and "own k (pm_lock mu) = Some (u, n)" and "u \<noteq> t"
    and "mutex_clock_realtime api k = Returns (0, now) k" and "valid_timespec now"
    and "tmo \<noteq> POS_TIME_FOREVER_posix"
  shows "\<exists>mu' k'. pos_mutex_lock_posix api t tmo (mu, k) =
           Returns (if tv_nsec now + uint tmo mod 1000 * 1000000 < 1000000000
                    then POS_TIMEOUT else POS_EINVAL) (mu', k') \<and>
           pm_lock mu' = pm_lock mu \<and> recursive k' (pm_lock mu) \<and>
           own k' (pm_lock mu) = own k (pm_lock mu)"
proof -
  obtain k' where "pthread_mutex_timedlock api t (pm_lock mu) (deadline_after now tmo) k =
      Returns (if valid_timespec (deadline_after now tmo) then ETIMEDOUT else EINVAL) k'"
      "recursive k' (pm_lock mu)" "own k' (pm_lock mu) = own k (pm_lock mu)"
    using timedlock_other [OF assms(1-3)] by blast
  then show ?thesis
    using assms(4,6) deadline_after_valid_iff [OF assms(5), of tmo]
    by (auto simp: pos_mutex_lock_posix_def SuccessOrExit_def prog_defs)
qed

lemma lock_contended_forever:
  assumes "recursive k (pm_lock mu)" and "own k (pm_lock mu) = Some (u, n)" and "u \<noteq> t"
  shows "pos_mutex_lock_posix api t POS_TIME_FOREVER_posix (mu, k) = Stops Blocked"
  using mutex_lock_other [OF assms]
  by (simp add: pos_mutex_lock_posix_def SuccessOrExit_def prog_defs)

end

sublocale pthread_mutex_kernel \<subseteq> posix_mutex: osal_mutex "pos_mutex_lock_posix api"
  "pos_mutex_unlock_posix api" "\<lambda>(mu, k). own k (pm_lock mu)" "\<lambda>(mu, k). recursive k (pm_lock mu)"
  rec_limit
proof (unfold_locales, goal_cases)
  case (1 w t tmo)
  obtain mu k where w: "w = (mu, k)" by (cases w)
  obtain k' where "pthread_mutex_lock api t (pm_lock mu) k = Returns 0 k'"
      "recursive k' (pm_lock mu)" "own k' (pm_lock mu) = Some (t, 1)"
    using mutex_lock_free [of k "pm_lock mu" t] 1 w by auto
  then show ?case using lock_immediate [of k mu t 0 k' tmo] 1 w by auto
next
  case (2 w t n tmo)
  obtain mu k where w: "w = (mu, k)" by (cases w)
  then obtain ret k' where k': "pthread_mutex_lock api t (pm_lock mu) k = Returns ret k'"
      "recursive k' (pm_lock mu)"
      "own k' (pm_lock mu) = (if ret = 0 then Some (t, Suc n) else own k (pm_lock mu))"
      "n < rec_limit \<longrightarrow> ret = 0"
    using mutex_lock_again [of k "pm_lock mu" t n] 2 by auto
  moreover have "0 < held (own k (pm_lock mu)) t"
    using mutex_own_pos [of k "pm_lock mu" t n] 2 w by auto
  ultimately show ?case
    using lock_immediate [of k mu t ret k' tmo] 2 w
    by (auto simp: map_posix_to_osal_error_OK intro!: exI [of _ "map_posix_to_osal_error ret"])
next
  case (3 w u n t tmo)
  obtain mu k where w: "w = (mu, k)" by (cases w)
  obtain now where "mutex_clock_realtime api k = Returns (0, now) k" "valid_timespec now"
    using clock_reads by blast
  then show ?case
    using lock_contended [of k mu u n t now tmo] lock_contended_forever [of k mu u n t] 3 w
    by (cases "tmo = POS_TIME_FOREVER_posix") (auto split: if_splits)
next
  case (4 w t n)
  then show ?case
    using mutex_unlock_own
    by (cases w) (fastforce simp: pos_mutex_unlock_posix_def SuccessOrExit_def prog_defs)
next
  case (5 w t)
  obtain mu k where w: "w = (mu, k)" by (cases w)
  then obtain k' where "pthread_mutex_unlock api t (pm_lock mu) k = Returns EPERM k'"
      "recursive k' (pm_lock mu)" "own k' (pm_lock mu) = own k (pm_lock mu)"
    using mutex_unlock_other [of k "pm_lock mu" t] 5 by auto
  with w show ?case by (simp add: pos_mutex_unlock_posix_def SuccessOrExit_def prog_defs)
next
  case (6 w t n)
  then show ?case using mutex_own_pos by (cases w) auto
qed

interpretation ref_posix_mutex: pthread_mutex_kernel ref_mutex_api rm_own rm_recursive
  rm_attr_recursive rm_limit
  by unfold_locales
    (auto simp: ref_mutex_api_def rm_acquire_def rm_set_def rm_recursive_def rm_attr_recursive_def
      released_def split: option.splits if_splits)

context pthread_mutex_kernel
begin

lemma run_balance:
  assumes "pos_mutex_init_posix api (mu, k) = Returns POS_OK w"
    and "mutex_run (pos_mutex_lock_posix api) (pos_mutex_unlock_posix api) cs w = Returns bal (mu', k')"
  shows "int (held (own k' (pm_lock mu')) t) = bal t \<and> (0 < bal t \<and> 0 < bal u \<longrightarrow> t = u)"
proof -
  obtain k1 where w: "w = (mu, k1)" "recursive k1 (pm_lock mu)" "own k1 (pm_lock mu) = None"
    using init_ok [of mu k "fst w" "snd w"] assms(1) by (cases w) auto
  then show ?thesis
    using posix_mutex.mutex_run_balance [of w cs bal "(mu', k')" t]
      posix_mutex.mutex_run_exclusive [of w cs bal "(mu', k')" t u] assms(2) by auto
qed

lemma nested:
  assumes "pos_mutex_init_posix api (mu, k) = Returns POS_OK w" and "n \<le> rec_limit"
  shows "\<exists>mu1 k1 mu2 k2.
     repeat_ok n (pos_mutex_lock_posix api t tmo) w = Returns POS_OK (mu1, k1) \<and>
     own k1 (pm_lock mu1) = released t n \<and>
     repeat_ok n (pos_mutex_unlock_posix api t) (mu1, k1) = Returns POS_OK (mu2, k2) \<and>
     own k2 (pm_lock mu2) = None"
proof -
  obtain k1 where w: "w = (mu, k1)" "recursive k1 (pm_lock mu)" "own k1 (pm_lock mu) = None"
    using init_ok [of mu k "fst w" "snd w"] assms(1) by (cases w) auto
  then obtain mu1 k2 where "repeat_ok n (pos_mutex_lock_posix api t tmo) w = Returns POS_OK (mu1, k2)"
      "recursive k2 (pm_lock mu1)" "own k2 (pm_lock mu1) = released t n"
    using posix_mutex.lock_n [of w t 0 n tmo] assms(2) by (auto simp: released_def)
  then show ?thesis
    using posix_mutex.unlock_n [of "(mu1, k2)" t 0 n] by (auto simp: released_def)
qed

end

section \<open>Properties\<close>

lemmas ref_mutex_simps = ref_mutex_api_def rm_acquire_def rm_set_def rm_limit_def released_def
  SuccessOrExit_def prog_defs

lemma ref_mutex_init: "pos_mutex_init_posix ref_mutex_api (mutex0, ref_mutexes0) =
    Returns POS_OK (mutex0, ref_mutexes1)"
  by (simp add: pos_mutex_init_posix_def ref_mutex_simps ref_mutexes0_def ref_mutexes1_def mutex0_def)

text \<open>Mutual exclusion of the POSIX mutex: over any interleaving of lock and unlock calls of any
  tasks on a freshly initialised mutex, the depth at which a task holds it is its successful
  locks less its successful unlocks, and no two tasks have a positive balance.\<close>

theorem posix_mutex_exclusive:
  assumes "pthread_mutex_kernel api own recursive attr_recursive rec_limit"
    and "pos_mutex_init_posix api (mu, k) = Returns POS_OK w"
    and "mutex_run (pos_mutex_lock_posix api) (pos_mutex_unlock_posix api) cs w = Returns bal (mu', k')"
  shows "int (held (own k' (pm_lock mu')) t) = bal t \<and> (0 < bal t \<and> 0 < bal u \<longrightarrow> t = u)"
  by (rule pthread_mutex_kernel.run_balance [OF assms])

theorem posix_mutex_exclusive_witness:
  "\<exists>bal mu' k'. mutex_run (pos_mutex_lock_posix ref_mutex_api) (pos_mutex_unlock_posix ref_mutex_api)
      [MLock 1 5, MLock 2 0, MUnlock 2] (mutex0, ref_mutexes1) = Returns bal (mu', k') \<and>
     int (held (rm_own k' (pm_lock mu')) 1) = 1 \<and> bal 1 = 1 \<and> bal 2 = 0"
proof -
  obtain bal mu' k' where run: "mutex_run (pos_mutex_lock_posix ref_mutex_api)
      (pos_mutex_unlock_posix ref_mutex_api)
      [MLock 1 5, MLock 2 0, MUnlock 2] (mutex0, ref_mutexes1) = Returns bal (mu', k')"
      and bal: "bal 1 = 1" "bal 2 = 0"
    by (simp add: pos_mutex_lock_posix_def pos_mutex_unlock_posix_def ref_mutex_simps
        ref_mutexes1_def mutex0_def ref_mutexes0_def POS_TIME_FOREVER_posix_def
        deadline_after_def timespec_of_ns_def valid_timespec_def)
  from posix_mutex_exclusive [OF ref_posix_mutex.pthread_mutex_kernel_axioms ref_mutex_init run, of 1 2]
    run bal show ?thesis by metis
qed

text \<open>The POSIX mutex is recursive: after a successful initialisation a task locks it \<open>n\<close> times in
  a row, for every \<open>n\<close> up to the system's limit and every timeout, then holds it at depth
  \<open>n\<close>, and \<open>n\<close> unlocks make it free again.\<close>

theorem posix_mutex_nested:
  assumes "pthread_mutex_kernel api own recursive attr_recursive rec_limit"
    and "pos_mutex_init_posix api (mu, k) = Returns POS_OK w" and "n \<le> rec_limit"
  shows "\<exists>mu1 k1 mu2 k2.
     repeat_ok n (pos_mutex_lock_posix api t tmo) w = Returns POS_OK (mu1, k1) \<and>
     own k1 (pm_lock mu1) = released t n \<and>
     repeat_ok n (pos_mutex_unlock_posix api t) (mu1, k1) = Returns POS_OK (mu2, k2) \<and>
     own k2 (pm_lock mu2) = None"
  by (rule pthread_mutex_kernel.nested [OF assms])

theorem posix_mutex_nested_witness:
  "\<exists>mu1 k1. repeat_ok 1000 (pos_mutex_lock_posix ref_mutex_api 3 25) (mutex0, ref_mutexes1) =
     Returns POS_OK (mu1, k1) \<and> rm_own k1 (pm_lock mu1) = Some (3, 1000)"
  using posix_mutex_nested [OF ref_posix_mutex.pthread_mutex_kernel_axioms ref_mutex_init, of 1000 3 25]
  by (auto simp: rm_limit_def released_def)

text \<open>A lock of a POSIX mutex that another task holds: with the infinite timeout it waits; with any
  other timeout it returns, leaves the owner unchanged and reports \<open>POS_TIMEOUT\<close> exactly
  when the deadline is well formed, and \<open>POS_EINVAL\<close> otherwise.\<close>

theorem posix_mutex_contended:
  assumes "pthread_mutex_kernel api own recursive attr_recursive rec_limit"
    and "recursive k (pm_lock mu)" and "own k (pm_lock mu) = Some (u, n)" and "u \<noteq> t"
    and "mutex_clock_realtime api k = Returns (0, now) k" and "valid_timespec now"
  shows "pos_mutex_lock_posix api t POS_TIME_FOREVER_posix (mu, k) = Stops Blocked \<and>
         (tmo \<noteq> POS_TIME_FOREVER_posix \<longrightarrow>
          (\<exists>mu' k'. pos_mutex_lock_posix api t tmo (mu, k) =
             Returns (if tv_nsec now + uint tmo mod 1000 * 1000000 < 1000000000
                      then POS_TIMEOUT else POS_EINVAL) (mu', k') \<and>
             pm_lock mu' = pm_lock mu \<and> own k' (pm_lock mu) = own k (pm_lock mu)))"
  using pthread_mutex_kernel.lock_contended [OF assms(1-6)]
    pthread_mutex_kernel.lock_contended_forever [OF assms(1-4)] by blast

theorem posix_mutex_contended_witness:
  "pos_mutex_lock_posix ref_mutex_api 2 POS_TIME_FOREVER_posix
     (mutex0, rm_set 0 (Some (1, 1)) ref_mutexes1) = Stops Blocked"
  using posix_mutex_contended [OF ref_posix_mutex.pthread_mutex_kernel_axioms,
      of "rm_set 0 (Some (1, 1)) ref_mutexes1" mutex0 1 1 2 "timespec_of_ns 0" 0]
  by (simp add: rm_recursive_def rm_set_def ref_mutexes1_def ref_mutexes0_def mutex0_def
      ref_mutex_api_def)

end
