(* ===== verification/Posix_Sem.thy ===== *)
theory Posix_Sem
  imports Posix_Utils
begin

text \<open>
  The POSIX semaphore of \<^verbatim>\<open>targets/posix/os_sem.c\<close>: the Linux functions over the C library's
  \<open>sem_t\<close>, and the Apple functions over a dispatch semaphore.  The library calls are
  parameters of the model; a locale states what their documentation says of them.
\<close>

section \<open>Definitions\<close>

subsection \<open>Linux\<close>

text \<open>
  The library calls.  A semaphore is named by the address of its \<open>sem_t\<close>.  \<open>clock_realtime\<close>
  is \<open>clock_gettime(CLOCK_REALTIME, &ts)\<close>: status and time.
\<close>

record ('s, 'k) posix_sem_api =
  sem_init :: "'s \<Rightarrow> int \<Rightarrow> u32 \<Rightarrow> (int, 'k) prog"
  sem_post :: "'s \<Rightarrow> (int, 'k) prog"
  sem_wait :: "'s \<Rightarrow> (int, 'k) prog"
  sem_timedwait :: "'s \<Rightarrow> timespec \<Rightarrow> (int, 'k) prog"
  sem_clock_realtime :: "(int \<times> timespec, 'k) prog"
  sem_errno :: "'k \<Rightarrow> int"

record 's pos_sem_posix =
  ps_lock :: 's

definition pos_sem_init_posix ::
    "('s, 'k) posix_sem_api \<Rightarrow> u16 \<Rightarrow> (pos_error, 's pos_sem_posix \<times> 'k) prog" where
  "pos_sem_init_posix api tokens =
     c_bind (get_obj ps_lock) (\<lambda>lock.
     c_bind (kcall (sem_init api lock 0 (ucast tokens))) (\<lambda>ret.
     c_return (map_posix_to_osal_error ret)))"

definition pos_sem_give_posix ::
    "('s, 'k) posix_sem_api \<Rightarrow> (pos_error, 's pos_sem_posix \<times> 'k) prog" where
  "pos_sem_give_posix api =
     c_bind (get_obj ps_lock) (\<lambda>lock.
     c_bind (kcall (sem_post api lock)) (\<lambda>ret.
     c_return (map_posix_to_osal_error ret)))"

definition pos_sem_take_posix ::
    "('s, 'k) posix_sem_api \<Rightarrow> pos_time \<Rightarrow> (pos_error, 's pos_sem_posix \<times> 'k) prog" where
  "pos_sem_take_posix api timeout =
     c_bind (get_obj ps_lock) (\<lambda>lock.
     c_bind
       (if timeout = POS_TIME_FOREVER_posix then
          SuccessOrExit (kcall (sem_wait api lock)) (c_return 0)
        else
          c_bind (kcall (sem_clock_realtime api)) (\<lambda>(ret, wait).
            SuccessOrExit (c_return ret)
              (SuccessOrExit
                 (c_bind (kcall (sem_timedwait api lock (deadline_after wait timeout))) (\<lambda>ret.
                  c_bind (kcall (c_gets (sem_errno api))) (\<lambda>errno.
                  c_return (if ret \<noteq> 0 then errno else 0))))
                 (c_return 0))))
       (\<lambda>ret. c_return (map_posix_to_osal_error ret)))"

subsection \<open>Apple\<close>

record ('d, 'k) dispatch_sem_api =
  dispatch_semaphore_create :: "u16 \<Rightarrow> ('d option, 'k) prog"
  dispatch_semaphore_signal :: "'d option \<Rightarrow> (int, 'k) prog"
  dispatch_semaphore_wait :: "'d option \<Rightarrow> 64 word \<Rightarrow> (int, 'k) prog"

record 'd pos_sem_apple =
  psa_lock :: "'d option"

definition pos_sem_init_apple ::
    "('d, 'k) dispatch_sem_api \<Rightarrow> u16 \<Rightarrow> (pos_error, 'd pos_sem_apple \<times> 'k) prog" where
  "pos_sem_init_apple api tokens =
     c_bind (kcall (dispatch_semaphore_create api tokens)) (\<lambda>lock.
     c_then (upd_obj (\<lambda>sem. sem\<lparr>psa_lock := lock\<rparr>))
       (c_return (if lock = None then POS_ENOMEM else POS_OK)))"

definition pos_sem_give_apple ::
    "('d, 'k) dispatch_sem_api \<Rightarrow> (pos_error, 'd pos_sem_apple \<times> 'k) prog" where
  "pos_sem_give_apple api =
     c_bind (get_obj psa_lock) (\<lambda>lock.
     c_then (kcall (dispatch_semaphore_signal api lock)) (c_return POS_OK))"

definition pos_sem_take_apple ::
    "('d, 'k) dispatch_sem_api \<Rightarrow> 64 word \<Rightarrow> (pos_error, 'd pos_sem_apple \<times> 'k) prog" where
  "pos_sem_take_apple api timeout =
     c_bind (get_obj psa_lock) (\<lambda>lock.
     c_bind (kcall (dispatch_semaphore_wait api lock timeout)) (\<lambda>expired.
     c_return (if expired \<noteq> 0 then POS_TIMEOUT else POS_OK)))"

subsection \<open>A reference model of the library\<close>

text \<open>
  An executable instance of the calls as POSIX describes them, for one process: a count per
  semaphore, the \<open>errno\<close> variable, a clock in nanoseconds, and the largest count.
\<close>

record ref_sems =
  rs_count :: "nat \<Rightarrow> nat"
  rs_live :: "nat \<Rightarrow> bool"
  rs_errno :: int
  rs_now :: nat

definition SEM_VALUE_MAX :: nat where
  "SEM_VALUE_MAX = 2147483647"

definition rs_set :: "nat \<Rightarrow> nat \<Rightarrow> ref_sems \<Rightarrow> ref_sems" where
  "rs_set n l k = k\<lparr>rs_count := (rs_count k)(l := n)\<rparr>"

definition rs_live_ok :: "ref_sems \<Rightarrow> nat \<Rightarrow> bool" where
  "rs_live_ok k l \<longleftrightarrow> rs_live k l \<and> rs_count k l \<le> SEM_VALUE_MAX"

definition ref_sem_api :: "(nat, ref_sems) posix_sem_api" where
  "ref_sem_api =
     \<lparr>sem_init = (\<lambda>l pshared v k.
        if unat v \<le> SEM_VALUE_MAX
        then Returns 0 (k\<lparr>rs_count := (rs_count k)(l := unat v), rs_live := (rs_live k)(l := True)\<rparr>)
        else Returns (- 1) (k\<lparr>rs_errno := EINVAL\<rparr>)),
      sem_post = (\<lambda>l k. if rs_count k l < SEM_VALUE_MAX then Returns 0 (rs_set (Suc (rs_count k l)) l k)
        else Returns (- 1) (k\<lparr>rs_errno := EOVERFLOW\<rparr>)),
      sem_wait = (\<lambda>l k. case rs_count k l of 0 \<Rightarrow> Stops Blocked | Suc n \<Rightarrow> Returns 0 (rs_set n l k)),
      sem_timedwait = (\<lambda>l ts k. case rs_count k l of
          0 \<Rightarrow> Returns (- 1) (k\<lparr>rs_errno := if valid_timespec ts then ETIMEDOUT else EINVAL\<rparr>)
        | Suc n \<Rightarrow> Returns 0 (rs_set n l k)),
      sem_clock_realtime = (\<lambda>k. Returns (0, timespec_of_ns (rs_now k)) k),
      sem_errno = rs_errno\<rparr>"

section \<open>The documented behaviour of the library\<close>

text \<open>
  \<open>count k l\<close> is the value of semaphore \<open>l\<close>, \<open>live k l\<close> that it has been initialised.  The
  laws are those of the POSIX pages of \<open>sem_init\<close>, \<open>sem_post\<close>, \<open>sem_wait\<close>, \<open>sem_timedwait\<close> and
  \<open>clock_gettime\<close>: a wait may be interrupted (\<open>EINTR\<close>), and a timed wait that would
  block reports \<open>EINVAL\<close> for a deadline whose nanoseconds are out of range.
\<close>

locale posix_sem_kernel =
  fixes api :: "('s, 'k) posix_sem_api"
    and count :: "'k \<Rightarrow> 's \<Rightarrow> nat"
    and live :: "'k \<Rightarrow> 's \<Rightarrow> bool"
    and max_value :: nat
  assumes init_value:
      "sem_init api l 0 v k = Returns 0 k' \<Longrightarrow> live k' l \<and> count k' l = unat v"
    and post_room:
      "live k l \<Longrightarrow> count k l < max_value \<Longrightarrow>
       \<exists>k'. sem_post api l k = Returns 0 k' \<and> live k' l \<and> count k' l = Suc (count k l)"
    and post_full:
      "live k l \<Longrightarrow> \<not> count k l < max_value \<Longrightarrow>
       \<exists>k'. sem_post api l k = Returns (- 1) k' \<and> live k' l \<and> count k' l = count k l"
    and wait_token:
      "live k l \<Longrightarrow> 0 < count k l \<Longrightarrow>
       \<exists>k'. sem_wait api l k = Returns 0 k' \<and> live k' l \<and> count k l = Suc (count k' l)"
    and wait_none:
      "live k l \<Longrightarrow> count k l = 0 \<Longrightarrow>
       sem_wait api l k = Stops Blocked \<or>
       (\<exists>k'. sem_wait api l k = Returns (- 1) k' \<and> live k' l \<and> count k' l = 0)"
    and timedwait_token:
      "live k l \<Longrightarrow> 0 < count k l \<Longrightarrow>
       \<exists>k'. sem_timedwait api l ts k = Returns 0 k' \<and> live k' l \<and> count k l = Suc (count k' l)"
    and timedwait_none:
      "live k l \<Longrightarrow> count k l = 0 \<Longrightarrow> valid_timespec ts \<Longrightarrow>
       \<exists>k'. sem_timedwait api l ts k = Returns (- 1) k' \<and> live k' l \<and> count k' l = 0 \<and>
            (sem_errno api k' = ETIMEDOUT \<or> sem_errno api k' = EINTR)"
    and timedwait_invalid:
      "live k l \<Longrightarrow> count k l = 0 \<Longrightarrow> \<not> valid_timespec ts \<Longrightarrow>
       \<exists>k'. sem_timedwait api l ts k = Returns (- 1) k' \<and> live k' l \<and> count k' l = 0 \<and>
            sem_errno api k' = EINVAL"
    and clock_reads:
      "\<exists>now. sem_clock_realtime api k = Returns (0, now) k \<and> valid_timespec now"
begin

lemma init_tokens:
  assumes "pos_sem_init_posix api n (s, k) = Returns POS_OK (s', k')"
  shows "s' = s \<and> live k' (ps_lock s) \<and> count k' (ps_lock s) = unat n"
  using assms init_value [of "ps_lock s" "ucast n"]
  by (auto simp: pos_sem_init_posix_def prog_defs map_posix_to_osal_error_OK
      split: outcome.splits)

lemma give_cases:
  assumes "live k (ps_lock s)"
  shows "\<exists>k'. pos_sem_give_posix api (s, k) =
                Returns (if count k (ps_lock s) < max_value then POS_OK else POS_ERROR) (s, k') \<and>
              live k' (ps_lock s) \<and>
              count k' (ps_lock s) =
                (if count k (ps_lock s) < max_value then Suc (count k (ps_lock s))
                 else count k (ps_lock s))"
  using post_room [OF assms] post_full [OF assms]
  by (cases "count k (ps_lock s) < max_value") (auto simp: pos_sem_give_posix_def prog_defs)

lemma take_token_ok:
  assumes "live k (ps_lock s)" and "0 < count k (ps_lock s)"
  shows "\<exists>k'. pos_sem_take_posix api tmo (s, k) = Returns POS_OK (s, k') \<and> live k' (ps_lock s) \<and>
              count k (ps_lock s) = Suc (count k' (ps_lock s))"
proof -
  obtain now where now: "sem_clock_realtime api k = Returns (0, now) k"
    using clock_reads by blast
  show ?thesis
    using wait_token [OF assms] timedwait_token [OF assms, of "deadline_after now tmo"] now
    by (auto simp: pos_sem_take_posix_def SuccessOrExit_def prog_defs)
qed

lemma take_forever_none:
  assumes "live k (ps_lock s)" and "count k (ps_lock s) = 0" and "tmo = POS_TIME_FOREVER_posix"
  shows "pos_sem_take_posix api tmo (s, k) = Stops Blocked \<or>
         (\<exists>k'. pos_sem_take_posix api tmo (s, k) = Returns POS_ERROR (s, k') \<and>
               live k' (ps_lock s) \<and> count k' (ps_lock s) = 0)"
  using wait_none [OF assms(1,2)] assms(3)
  by (auto simp: pos_sem_take_posix_def SuccessOrExit_def prog_defs)

lemma take_timed_none:
  assumes "live k (ps_lock s)" and "count k (ps_lock s) = 0" and "tmo \<noteq> POS_TIME_FOREVER_posix"
    and "sem_clock_realtime api k = Returns (0, now) k" and "valid_timespec now"
  shows "\<exists>e k'. pos_sem_take_posix api tmo (s, k) = Returns e (s, k') \<and> live k' (ps_lock s) \<and>
           count k' (ps_lock s) = 0 \<and>
           (if tv_nsec now + uint tmo mod 1000 * 1000000 < 1000000000
            then e = POS_TIMEOUT \<or> e = POS_ERROR else e = POS_EINVAL)"
  using timedwait_none [OF assms(1,2), of "deadline_after now tmo"]
    timedwait_invalid [OF assms(1,2), of "deadline_after now tmo"] assms(3,4)
    deadline_after_valid_iff [OF assms(5), of tmo]
  by (auto simp: pos_sem_take_posix_def SuccessOrExit_def prog_defs)

end

sublocale posix_sem_kernel \<subseteq> posix_sem: osal_sem "pos_sem_give_posix api" "pos_sem_take_posix api"
  "\<lambda>(s, k). count k (ps_lock s)" max_value "\<lambda>(s, k). s = s0 \<and> live k (ps_lock s)" for s0
proof (unfold_locales, goal_cases)
  case (1 w)
  then show ?case using give_cases by (cases w) fastforce
next
  case (2 w e w')
  then show ?case using give_cases [of "snd w" "fst w"] by (cases w) (auto split: if_splits)
next
  case (3 w tmo)
  then show ?case using take_token_ok by (cases w) fastforce
next
  case (4 w tmo)
  obtain s k where w: "w = (s, k)" by (cases w)
  obtain now where "sem_clock_realtime api k = Returns (0, now) k" "valid_timespec now"
    using clock_reads by blast
  then show ?case
    using 4 w take_forever_none [of k s tmo] take_timed_none [of k s tmo now]
    by (cases "tmo = POS_TIME_FOREVER_posix") (fastforce split: if_splits)+
qed

interpretation ref_posix_sem: posix_sem_kernel ref_sem_api rs_count rs_live_ok SEM_VALUE_MAX
  by unfold_locales
    (auto simp: ref_sem_api_def rs_set_def rs_live_ok_def SEM_VALUE_MAX_def split: nat.splits if_splits)

context posix_sem_kernel
begin

lemma init_take_n:
  assumes "pos_sem_init_posix api n (s, k) = Returns POS_OK w"
  shows "\<exists>k'. repeat_ok (unat n) (pos_sem_take_posix api tmo) w = Returns POS_OK (s, k') \<and>
              live k' (ps_lock s) \<and> count k' (ps_lock s) = 0"
  using posix_sem.take_n [of s w 0 "unat n" tmo] init_tokens [of n s k "fst w" "snd w"] assms
  by (cases w) auto

lemma run_conserves:
  assumes "live k (ps_lock s)"
    and "count k (ps_lock s) + length (filter (\<lambda>c. c = SGive) cs) \<le> max_value"
    and "sem_run (pos_sem_give_posix api) (pos_sem_take_posix api) cs (s, k) = Returns (g, n) w'"
  shows "\<exists>k'. w' = (s, k') \<and> live k' (ps_lock s) \<and>
              count k (ps_lock s) + g = count k' (ps_lock s) + n"
  using posix_sem.sem_run_conserves [of s "(s, k)" cs g n w'] assms by (cases w') auto

end

lemmas ref_sem_simps = ref_sem_api_def rs_set_def rs_live_ok_def SEM_VALUE_MAX_def prog_defs
  SuccessOrExit_def

section \<open>Properties\<close>

text \<open>Over any sequence of completed gives and takes of a POSIX semaphore, no token is lost or
  invented: the tokens at the start plus the successful gives are the tokens at the end plus
  the successful takes, provided the count cannot reach the system's maximum.\<close>

theorem posix_sem_conserves:
  assumes "posix_sem_kernel api count live max_value" and "live k (ps_lock s)"
    and "count k (ps_lock s) + length (filter (\<lambda>c. c = SGive) cs) \<le> max_value"
    and "sem_run (pos_sem_give_posix api) (pos_sem_take_posix api) cs (s, k) = Returns (g, n) (s', k')"
  shows "s' = s \<and> live k' (ps_lock s) \<and> count k (ps_lock s) + g = count k' (ps_lock s) + n"
  using posix_sem_kernel.run_conserves [OF assms] by simp

theorem posix_sem_conserves_witness:
  "\<exists>g n s' k'. sem_run (pos_sem_give_posix ref_sem_api) (pos_sem_take_posix ref_sem_api)
       [SGive, STake 5, STake 0] (\<lparr>ps_lock = 0\<rparr>, \<lparr>rs_count = \<lambda>_. 0, rs_live = \<lambda>_. True, rs_errno = 0, rs_now = 0\<rparr>) =
       Returns (g, n) (s', k') \<and> g = 1 \<and> n = 1 \<and> rs_count k' 0 + n = g"
proof -
  let ?w = "(\<lparr>ps_lock = 0\<rparr>, \<lparr>rs_count = \<lambda>_. 0, rs_live = \<lambda>_. True, rs_errno = 0, rs_now = 0\<rparr>)"
  obtain s' k' where run: "sem_run (pos_sem_give_posix ref_sem_api) (pos_sem_take_posix ref_sem_api)
       [SGive, STake 5, STake 0] ?w = Returns (1, 1) (s', k')"
    by (simp add: pos_sem_give_posix_def pos_sem_take_posix_def ref_sem_simps
        POS_TIME_FOREVER_posix_def deadline_after_def timespec_of_ns_def valid_timespec_def)
  from posix_sem_conserves [OF ref_posix_sem.posix_sem_kernel_axioms _ _ run] run show ?thesis
    by (auto simp: rs_live_ok_def SEM_VALUE_MAX_def)
qed

text \<open>A POSIX semaphore initialised with \<open>n\<close> tokens grants exactly \<open>n\<close> takes, whatever timeout
  they carry: \<open>n\<close> takes in a row succeed, and then no token is left.\<close>

theorem posix_sem_init_grants:
  assumes "posix_sem_kernel api count live max_value"
    and "pos_sem_init_posix api n (s, k) = Returns POS_OK w"
  shows "\<exists>k'. repeat_ok (unat n) (pos_sem_take_posix api tmo) w = Returns POS_OK (s, k') \<and>
              live k' (ps_lock s) \<and> count k' (ps_lock s) = 0"
  by (rule posix_sem_kernel.init_take_n [OF assms])

theorem posix_sem_init_grants_witness:
  "\<exists>w k'. pos_sem_init_posix ref_sem_api 3
      (\<lparr>ps_lock = 0\<rparr>, \<lparr>rs_count = \<lambda>_. 7, rs_live = \<lambda>_. False, rs_errno = 0, rs_now = 0\<rparr>) = Returns POS_OK w \<and>
     repeat_ok 3 (pos_sem_take_posix ref_sem_api 10) w = Returns POS_OK (\<lparr>ps_lock = 0\<rparr>, k') \<and>
     rs_count k' 0 = 0"
proof -
  obtain w where w: "pos_sem_init_posix ref_sem_api 3
      (\<lparr>ps_lock = 0\<rparr>, \<lparr>rs_count = \<lambda>_. 7, rs_live = \<lambda>_. False, rs_errno = 0, rs_now = 0\<rparr>) = Returns POS_OK w"
    by (simp add: pos_sem_init_posix_def ref_sem_simps)
  from posix_sem_init_grants [OF ref_posix_sem.posix_sem_kernel_axioms w, of 10] w show ?thesis by auto
qed

text \<open>C29. A timed take of a POSIX semaphore without a token does not wait beyond the call and takes
  nothing.  It reports a timeout (or an interrupted wait as a generic error) only when the
  nanoseconds of the deadline stay below one second; otherwise the deadline is malformed and the
  caller gets \<open>POS_EINVAL\<close>.\<close>

theorem posix_sem_timed_take:
  assumes "posix_sem_kernel api count live max_value" and "live k (ps_lock s)"
    and "count k (ps_lock s) = 0" and "tmo \<noteq> POS_TIME_FOREVER_posix"
    and "sem_clock_realtime api k = Returns (0, now) k" and "valid_timespec now"
  shows "\<exists>e k'. pos_sem_take_posix api tmo (s, k) = Returns e (s, k') \<and> live k' (ps_lock s) \<and>
           count k' (ps_lock s) = 0 \<and>
           (if tv_nsec now + uint tmo mod 1000 * 1000000 < 1000000000
            then e = POS_TIMEOUT \<or> e = POS_ERROR else e = POS_EINVAL)"
  by (rule posix_sem_kernel.take_timed_none [OF assms])

theorem posix_sem_timed_take_witness:
  "\<exists>k'. pos_sem_take_posix ref_sem_api 500
     (\<lparr>ps_lock = 0\<rparr>, \<lparr>rs_count = \<lambda>_. 0, rs_live = \<lambda>_. True, rs_errno = 0, rs_now = 600000000\<rparr>) =
     Returns POS_EINVAL (\<lparr>ps_lock = 0\<rparr>, k')"
  using posix_sem_timed_take [OF ref_posix_sem.posix_sem_kernel_axioms,
      of "\<lparr>rs_count = \<lambda>_. 0, rs_live = \<lambda>_. True, rs_errno = 0, rs_now = 600000000\<rparr>" "\<lparr>ps_lock = 0\<rparr>" 500
        "timespec_of_ns 600000000"]
  by (auto simp: ref_sem_simps POS_TIME_FOREVER_posix_def timespec_of_ns_def valid_timespec_def)

end
