(* ===== verification/Freertos_Sync.thy ===== *)
theory Freertos_Sync
  imports Osal_Interfaces
begin

text \<open>
  The FreeRTOS port's mutex and semaphore, \<^verbatim>\<open>targets/freertos/os_mutex.c\<close> and
  \<^verbatim>\<open>os_sem.c\<close>, with the interrupt test of \<^verbatim>\<open>os_hw.h\<close>.  The FreeRTOS calls are parameters.
  A handle is \<open>None\<close> when null; \<open>mu_null\<close> and \<open>sem_null\<close> say that the caller passed a null
  struct pointer.
\<close>

section \<open>Definitions\<close>

text \<open>
  FreeRTOS's status codes, and the tick count that waits forever: all bits set, whatever the width of
  \<open>TickType_t\<close>.  The port's \<open>pos_time_t\<close> is \<open>TickType_t\<close>; the functions below only compare and pass on a timeout,
  which they take with 32 bits.
\<close>

abbreviation "pdPASS \<equiv> (1 :: int)"
abbreviation "pdFAIL \<equiv> (0 :: int)"

definition portMAX_DELAY :: "'w::len word" where
  "portMAX_DELAY = - 1"

definition POS_TIME_FOREVER_freertos :: pos_time where
  "POS_TIME_FOREVER_freertos = portMAX_DELAY"

lemma portMAX_DELAY_32: "(portMAX_DELAY :: pos_time) = 0xFFFFFFFF"
  by (simp add: portMAX_DELAY_def)

text \<open>
  \<open>pos_hw_in_isr\<close>: on the nRF5 target the active-vector field of the interrupt control
  register (\<open>SCB->ICSR\<close>), elsewhere constantly false.
\<close>

record 'k isr_hw =
  hw_nrf5 :: bool
  hw_icsr :: "'k \<Rightarrow> u32"
  hw_vectactive_msk :: u32

definition pos_hw_in_isr_freertos :: "'k isr_hw \<Rightarrow> 'k \<Rightarrow> bool" where
  "pos_hw_in_isr_freertos hw k =
     (if hw_nrf5 hw then hw_icsr hw k AND hw_vectactive_msk hw \<noteq> 0 else False)"

subsection \<open>Mutex\<close>

record ('t, 'h, 'k) freertos_mutex_api =
  xSemaphoreCreateRecursiveMutex :: "('h option, 'k) prog"
  xSemaphoreTakeRecursive :: "'t \<Rightarrow> 'h \<Rightarrow> pos_time \<Rightarrow> (int, 'k) prog"
  xSemaphoreGiveRecursive :: "'t \<Rightarrow> 'h \<Rightarrow> (int, 'k) prog"

record 'h pos_mutex_freertos =
  fm_handle :: "'h option"

text \<open>\<open>assert(x->handle)\<close> and the handle.\<close>

definition assert_handle :: "('o \<Rightarrow> 'h option) \<Rightarrow> ('h, 'o \<times> 'k) prog" where
  "assert_handle field =
     c_bind (get_obj field) (\<lambda>h. case h of None \<Rightarrow> c_stop Assert_Failure | Some h \<Rightarrow> c_return h)"

definition pos_mutex_init_freertos ::
    "('t, 'h, 'k) freertos_mutex_api \<Rightarrow> bool \<Rightarrow> (pos_error, 'h pos_mutex_freertos \<times> 'k) prog" where
  "pos_mutex_init_freertos api mu_null =
     (if mu_null then c_return POS_INVALID_PARAM
      else
        c_bind (kcall (xSemaphoreCreateRecursiveMutex api)) (\<lambda>h.
        c_then (upd_obj (\<lambda>mu. mu\<lparr>fm_handle := h\<rparr>))
        (c_then (c_assert (h \<noteq> None))
          (c_return (if h = None then POS_BAD_MUTEX else POS_OK)))))"

definition pos_mutex_lock_freertos ::
    "'k isr_hw \<Rightarrow> ('t, 'h, 'k) freertos_mutex_api \<Rightarrow> bool \<Rightarrow> 't \<Rightarrow> pos_time \<Rightarrow>
     (pos_error, 'h pos_mutex_freertos \<times> 'k) prog" where
  "pos_mutex_lock_freertos hw api mu_null t timeout =
     c_bind (kcall (c_gets (pos_hw_in_isr_freertos hw))) (\<lambda>in_isr.
     c_then (c_assert (\<not> in_isr))
       (if mu_null then c_return POS_INVALID_PARAM
        else
          c_bind (assert_handle fm_handle) (\<lambda>h.
          c_bind (kcall (xSemaphoreTakeRecursive api t h timeout)) (\<lambda>ret.
          c_return (if ret = pdPASS then POS_OK else POS_TIMEOUT)))))"

definition pos_mutex_unlock_freertos ::
    "'k isr_hw \<Rightarrow> ('t, 'h, 'k) freertos_mutex_api \<Rightarrow> bool \<Rightarrow> 't \<Rightarrow>
     (pos_error, 'h pos_mutex_freertos \<times> 'k) prog" where
  "pos_mutex_unlock_freertos hw api mu_null t =
     c_bind (kcall (c_gets (pos_hw_in_isr_freertos hw))) (\<lambda>in_isr.
     c_then (c_assert (\<not> in_isr))
       (if mu_null then c_return POS_INVALID_PARAM
        else
          c_bind (assert_handle fm_handle) (\<lambda>h.
          c_bind (kcall (xSemaphoreGiveRecursive api t h)) (\<lambda>ret.
          c_return (if ret \<noteq> pdPASS then POS_BAD_MUTEX else POS_OK)))))"

subsection \<open>Semaphore\<close>

text \<open>
  The calls for interrupt handlers take the current content of the flag \<open>woken\<close> and return
  the status and the flag; they set it when a task was woken and do not clear it.
\<close>

record ('h, 'k) freertos_sem_api =
  xSemaphoreCreateCounting :: "u32 \<Rightarrow> u32 \<Rightarrow> ('h option, 'k) prog"
  xSemaphoreTake :: "'h \<Rightarrow> pos_time \<Rightarrow> (int, 'k) prog"
  xSemaphoreTakeFromISR :: "'h \<Rightarrow> int \<Rightarrow> (int \<times> int, 'k) prog"
  xSemaphoreGive :: "'h \<Rightarrow> (int, 'k) prog"
  xSemaphoreGiveFromISR :: "'h \<Rightarrow> int \<Rightarrow> (int \<times> int, 'k) prog"
  uxSemaphoreGetCount :: "'h \<Rightarrow> (u32, 'k) prog"
  sem_portYIELD_FROM_ISR :: "int \<Rightarrow> (unit, 'k) prog"

record 'h pos_sem_freertos =
  fs_handle :: "'h option"

definition pos_sem_init_freertos ::
    "('h, 'k) freertos_sem_api \<Rightarrow> bool \<Rightarrow> u16 \<Rightarrow> (pos_error, 'h pos_sem_freertos \<times> 'k) prog" where
  "pos_sem_init_freertos api sem_null tokens =
     (if sem_null then c_return POS_INVALID_PARAM
      else
        c_bind (kcall (xSemaphoreCreateCounting api 128 (ucast tokens))) (\<lambda>h.
        c_then (upd_obj (\<lambda>sem. sem\<lparr>fs_handle := h\<rparr>))
        (c_then (c_assert (h \<noteq> None)) (c_return POS_OK))))"

text \<open>\<open>junk\<close> is the indeterminate initial content of the local variable \<open>woken\<close>.\<close>

definition pos_sem_take_freertos ::
    "'k isr_hw \<Rightarrow> ('h, 'k) freertos_sem_api \<Rightarrow> int \<Rightarrow> bool \<Rightarrow> pos_time \<Rightarrow>
     (pos_error, 'h pos_sem_freertos \<times> 'k) prog" where
  "pos_sem_take_freertos hw api junk sem_null timeout =
     (if sem_null then c_return POS_INVALID_PARAM
      else
        c_bind (assert_handle fs_handle) (\<lambda>h.
        c_bind (kcall (c_gets (pos_hw_in_isr_freertos hw))) (\<lambda>in_isr.
        c_bind
          (if in_isr then
             c_then (c_assert (timeout = 0))
               (c_bind (kcall (xSemaphoreTakeFromISR api h junk)) (\<lambda>(ret, woken).
                c_then (kcall (sem_portYIELD_FROM_ISR api woken)) (c_return ret)))
           else kcall (xSemaphoreTake api h timeout))
          (\<lambda>ret. c_return (if ret = pdPASS then POS_OK else POS_TIMEOUT)))))"

definition pos_sem_give_freertos ::
    "'k isr_hw \<Rightarrow> ('h, 'k) freertos_sem_api \<Rightarrow> int \<Rightarrow> bool \<Rightarrow>
     (pos_error, 'h pos_sem_freertos \<times> 'k) prog" where
  "pos_sem_give_freertos hw api junk sem_null =
     (if sem_null then c_return POS_INVALID_PARAM
      else
        c_bind (assert_handle fs_handle) (\<lambda>h.
        c_bind (kcall (c_gets (pos_hw_in_isr_freertos hw))) (\<lambda>in_isr.
        c_bind
          (if in_isr then
             c_bind (kcall (xSemaphoreGiveFromISR api h junk)) (\<lambda>(ret, woken).
             c_then (kcall (sem_portYIELD_FROM_ISR api woken)) (c_return ret))
           else kcall (xSemaphoreGive api h))
          (\<lambda>ret. c_then (c_assert (ret = pdPASS)) (c_return POS_OK)))))"

definition pos_sem_get_count_freertos ::
    "('h, 'k) freertos_sem_api \<Rightarrow> bool \<Rightarrow> (u16, 'h pos_sem_freertos \<times> 'k) prog" where
  "pos_sem_get_count_freertos api sem_null =
     c_then (c_assert (\<not> sem_null))
       (c_bind (assert_handle fs_handle) (\<lambda>h.
        c_bind (kcall (uxSemaphoreGetCount api h)) (\<lambda>n. c_return (ucast n))))"

subsection \<open>A reference model of the kernel objects\<close>

record ref_freertos =
  rf_own :: "nat \<Rightarrow> nat mutex_state"
  rf_count :: "nat \<Rightarrow> nat"
  rf_next :: nat
  rf_isr :: bool

definition ref_hw :: "ref_freertos isr_hw" where
  "ref_hw = \<lparr>hw_nrf5 = True, hw_icsr = (\<lambda>k. if rf_isr k then 16 else 0), hw_vectactive_msk = 511\<rparr>"

definition ref_freertos_mutex :: "(nat, nat, ref_freertos) freertos_mutex_api" where
  "ref_freertos_mutex =
     \<lparr>xSemaphoreCreateRecursiveMutex = (\<lambda>k.
        Returns (Some (rf_next k)) (k\<lparr>rf_next := Suc (rf_next k), rf_own := (rf_own k)(rf_next k := None)\<rparr>)),
      xSemaphoreTakeRecursive = (\<lambda>t h tmo k.
        case rf_own k h of
          None \<Rightarrow> Returns pdPASS (k\<lparr>rf_own := (rf_own k)(h := Some (t, 1))\<rparr>)
        | Some (u, n) \<Rightarrow>
            if u = t then Returns pdPASS (k\<lparr>rf_own := (rf_own k)(h := Some (t, Suc n))\<rparr>)
            else if tmo = portMAX_DELAY then Stops Blocked else Returns pdFAIL k),
      xSemaphoreGiveRecursive = (\<lambda>t h k.
        case rf_own k h of
          None \<Rightarrow> Returns pdFAIL k
        | Some (u, n) \<Rightarrow>
            if u = t then Returns pdPASS (k\<lparr>rf_own := (rf_own k)(h := released t (n - 1))\<rparr>)
            else Returns pdFAIL k)\<rparr>"

definition rf_mutex_ok :: "ref_freertos \<Rightarrow> nat \<Rightarrow> bool" where
  "rf_mutex_ok k h \<longleftrightarrow> \<not> rf_isr k \<and> (case rf_own k h of None \<Rightarrow> True | Some (_, n) \<Rightarrow> 0 < n)"

definition rf_take :: "nat \<Rightarrow> (int, ref_freertos) outcome \<Rightarrow> (int, ref_freertos) prog" where
  "rf_take h none k =
     (case rf_count k h of 0 \<Rightarrow> none | Suc n \<Rightarrow> Returns pdPASS (k\<lparr>rf_count := (rf_count k)(h := n)\<rparr>))"

definition rf_give :: "nat \<Rightarrow> (int, ref_freertos) prog" where
  "rf_give h k =
     (if rf_count k h < 128 then Returns pdPASS (k\<lparr>rf_count := (rf_count k)(h := Suc (rf_count k h))\<rparr>)
      else Returns pdFAIL k)"

definition ref_freertos_sem :: "(nat, ref_freertos) freertos_sem_api" where
  "ref_freertos_sem =
     \<lparr>xSemaphoreCreateCounting = (\<lambda>mx n k.
        if unat n \<le> unat mx
        then Returns (Some (rf_next k))
               (k\<lparr>rf_next := Suc (rf_next k), rf_count := (rf_count k)(rf_next k := unat n)\<rparr>)
        else Returns None k),
      xSemaphoreTake = (\<lambda>h tmo k.
        rf_take h (if tmo = portMAX_DELAY then Stops Blocked else Returns pdFAIL k) k),
      xSemaphoreTakeFromISR = (\<lambda>h woken. c_bind (\<lambda>k. rf_take h (Returns pdFAIL k) k) (\<lambda>r. c_return (r, woken))),
      xSemaphoreGive = rf_give,
      xSemaphoreGiveFromISR = (\<lambda>h woken. c_bind (rf_give h) (\<lambda>r. c_return (r, woken))),
      uxSemaphoreGetCount = (\<lambda>h. c_gets (\<lambda>k. word_of_nat (rf_count k h))),
      sem_portYIELD_FROM_ISR = (\<lambda>woken. c_return ())\<rparr>"

definition rf_sem_ok :: "ref_freertos \<Rightarrow> nat \<Rightarrow> bool" where
  "rf_sem_ok k h \<longleftrightarrow> \<not> rf_isr k \<and> rf_count k h \<le> 128"

definition ref_freertos0 :: ref_freertos where
  "ref_freertos0 = \<lparr>rf_own = \<lambda>_. None, rf_count = \<lambda>_. 0, rf_next = 0, rf_isr = False\<rparr>"

section \<open>The documented behaviour of the kernel\<close>

text \<open>
  \<open>task_mutex k h\<close>: \<open>h\<close> is a recursive mutex and the caller is a task, not an interrupt
  handler.  A take by the owner counts up; a take of another task's mutex waits or
  reports \<open>pdFAIL\<close> when the ticks have passed; only the owner can give.
\<close>

locale freertos_mutex_kernel =
  fixes hw :: "'k isr_hw"
    and api :: "('t, 'h, 'k) freertos_mutex_api"
    and own :: "'k \<Rightarrow> 'h \<Rightarrow> 't mutex_state"
    and task_mutex :: "'k \<Rightarrow> 'h \<Rightarrow> bool"
  assumes mutex_task_level: "task_mutex k h \<Longrightarrow> \<not> pos_hw_in_isr_freertos hw k"
    and create_free:
      "\<not> pos_hw_in_isr_freertos hw k \<Longrightarrow> xSemaphoreCreateRecursiveMutex api k = Returns (Some h) k' \<Longrightarrow>
       task_mutex k' h \<and> own k' h = None"
    and take_free:
      "task_mutex k h \<Longrightarrow> own k h = None \<Longrightarrow>
       \<exists>k'. xSemaphoreTakeRecursive api t h tmo k = Returns pdPASS k' \<and> task_mutex k' h \<and> own k' h = Some (t, 1)"
    and take_again:
      "task_mutex k h \<Longrightarrow> own k h = Some (t, n) \<Longrightarrow>
       \<exists>k'. xSemaphoreTakeRecursive api t h tmo k = Returns pdPASS k' \<and> task_mutex k' h \<and>
            own k' h = Some (t, Suc n)"
    and take_other:
      "task_mutex k h \<Longrightarrow> own k h = Some (u, n) \<Longrightarrow> u \<noteq> t \<Longrightarrow>
       (tmo = portMAX_DELAY \<and> xSemaphoreTakeRecursive api t h tmo k = Stops Blocked) \<or>
       (tmo \<noteq> portMAX_DELAY \<and>
        (\<exists>k'. xSemaphoreTakeRecursive api t h tmo k = Returns pdFAIL k' \<and> task_mutex k' h \<and> own k' h = own k h))"
    and give_own:
      "task_mutex k h \<Longrightarrow> own k h = Some (t, Suc n) \<Longrightarrow>
       \<exists>k'. xSemaphoreGiveRecursive api t h k = Returns pdPASS k' \<and> task_mutex k' h \<and> own k' h = released t n"
    and give_other:
      "task_mutex k h \<Longrightarrow> held (own k h) t = 0 \<Longrightarrow>
       \<exists>k'. xSemaphoreGiveRecursive api t h k = Returns pdFAIL k' \<and> task_mutex k' h \<and> own k' h = own k h"
    and depth_pos: "task_mutex k h \<Longrightarrow> own k h = Some (t, n) \<Longrightarrow> 0 < n"
begin

text \<open>At task level a call is the kernel call, with its status translated.\<close>

lemma lock_task_level:
  assumes "fm_handle mu = Some h" and "task_mutex k h"
  shows "pos_mutex_lock_freertos hw api False t tmo (mu, k) =
    (case xSemaphoreTakeRecursive api t h tmo k of
       Stops s \<Rightarrow> Stops s
     | Returns ret k' \<Rightarrow> Returns (if ret = pdPASS then POS_OK else POS_TIMEOUT) (mu, k'))"
  using mutex_task_level [OF assms(2)] assms(1)
  by (simp add: pos_mutex_lock_freertos_def assert_handle_def prog_defs split: outcome.split)

lemma unlock_task_level:
  assumes "fm_handle mu = Some h" and "task_mutex k h"
  shows "pos_mutex_unlock_freertos hw api False t (mu, k) =
    (case xSemaphoreGiveRecursive api t h k of
       Stops s \<Rightarrow> Stops s
     | Returns ret k' \<Rightarrow> Returns (if ret = pdPASS then POS_OK else POS_BAD_MUTEX) (mu, k'))"
  using mutex_task_level [OF assms(2)] assms(1)
  by (simp add: pos_mutex_unlock_freertos_def assert_handle_def prog_defs split: outcome.split)

lemma init_handle:
  assumes "\<not> pos_hw_in_isr_freertos hw k"
    and "pos_mutex_init_freertos api False (mu, k) = Returns e (mu', k')"
  shows "e = POS_OK \<and> (\<exists>h. fm_handle mu' = Some h \<and> task_mutex k' h \<and> own k' h = None)"
  using assms create_free [of k]
  by (auto simp: pos_mutex_init_freertos_def prog_defs split: outcome.splits if_splits)

end

sublocale freertos_mutex_kernel \<subseteq> freertos_mutex: osal_mutex
  "pos_mutex_lock_freertos hw api False" "pos_mutex_unlock_freertos hw api False"
  "\<lambda>(mu, k). own k h" "\<lambda>(mu, k). fm_handle mu = Some h \<and> task_mutex k h" limit for h limit
proof (unfold_locales, goal_cases)
  case (1 w t tmo)
  then show ?case using take_free [of "snd w" h t tmo] by (cases w) (auto simp: lock_task_level)
next
  case (2 w t n tmo)
  then show ?case using take_again [of "snd w" h t n tmo] by (cases w) (auto simp: lock_task_level)
next
  case (3 w u n t tmo)
  then show ?case using take_other [of "snd w" h u n t tmo] by (cases w) (auto simp: lock_task_level)
next
  case (4 w t n)
  then show ?case using give_own [of "snd w" h t n] by (cases w) (auto simp: unlock_task_level)
next
  case (5 w t)
  then show ?case using give_other [of "snd w" h t] by (cases w) (auto simp: unlock_task_level)
next
  case (6 w t n)
  then show ?case using depth_pos by (cases w) auto
qed

interpretation ref_freertos_mutex: freertos_mutex_kernel ref_hw ref_freertos_mutex rf_own rf_mutex_ok
  by unfold_locales
    (auto simp: ref_freertos_mutex_def rf_mutex_ok_def ref_hw_def pos_hw_in_isr_freertos_def
      released_def split: option.splits if_splits)

text \<open>
  \<open>task_sem k h\<close>: \<open>h\<close> is a counting semaphore with maximum 128 and the caller is a task.
  A give at the maximum fails.
\<close>

locale freertos_sem_kernel =
  fixes hw :: "'k isr_hw"
    and api :: "('h, 'k) freertos_sem_api"
    and count :: "'k \<Rightarrow> 'h \<Rightarrow> nat"
    and task_sem :: "'k \<Rightarrow> 'h \<Rightarrow> bool"
  assumes sem_task_level: "task_sem k h \<Longrightarrow> \<not> pos_hw_in_isr_freertos hw k"
    and create_count:
      "\<not> pos_hw_in_isr_freertos hw k \<Longrightarrow> xSemaphoreCreateCounting api 128 n k = Returns (Some h) k' \<Longrightarrow>
       task_sem k' h \<and> count k' h = unat n"
    and create_too_many:
      "128 < unat n \<Longrightarrow> \<exists>k'. xSemaphoreCreateCounting api 128 n k = Returns None k'"
    and give_below:
      "task_sem k h \<Longrightarrow> count k h < 128 \<Longrightarrow>
       \<exists>k'. xSemaphoreGive api h k = Returns pdPASS k' \<and> task_sem k' h \<and> count k' h = Suc (count k h)"
    and give_at_max:
      "task_sem k h \<Longrightarrow> \<not> count k h < 128 \<Longrightarrow> \<exists>k'. xSemaphoreGive api h k = Returns pdFAIL k'"
    and take_present:
      "task_sem k h \<Longrightarrow> 0 < count k h \<Longrightarrow>
       \<exists>k'. xSemaphoreTake api h tmo k = Returns pdPASS k' \<and> task_sem k' h \<and> count k h = Suc (count k' h)"
    and take_absent:
      "task_sem k h \<Longrightarrow> count k h = 0 \<Longrightarrow>
       (tmo = portMAX_DELAY \<and> xSemaphoreTake api h tmo k = Stops Blocked) \<or>
       (tmo \<noteq> portMAX_DELAY \<and>
        (\<exists>k'. xSemaphoreTake api h tmo k = Returns pdFAIL k' \<and> task_sem k' h \<and> count k' h = 0))"
begin

lemma take_task_level:
  assumes "fs_handle sem = Some h" and "task_sem k h"
  shows "pos_sem_take_freertos hw api junk False tmo (sem, k) =
    (case xSemaphoreTake api h tmo k of
       Stops s \<Rightarrow> Stops s
     | Returns ret k' \<Rightarrow> Returns (if ret = pdPASS then POS_OK else POS_TIMEOUT) (sem, k'))"
  using sem_task_level [OF assms(2)] assms(1)
  by (simp add: pos_sem_take_freertos_def assert_handle_def prog_defs split: outcome.split)

lemma give_task_level:
  assumes "fs_handle sem = Some h" and "task_sem k h"
  shows "pos_sem_give_freertos hw api junk False (sem, k) =
    (case xSemaphoreGive api h k of
       Stops s \<Rightarrow> Stops s
     | Returns ret k' \<Rightarrow> if ret = pdPASS then Returns POS_OK (sem, k') else Stops Assert_Failure)"
  using sem_task_level [OF assms(2)] assms(1)
  by (simp add: pos_sem_give_freertos_def assert_handle_def prog_defs split: outcome.split)

lemma give_cases:
  assumes "fs_handle sem = Some h" and "task_sem k h"
  shows "if count k h < 128
         then \<exists>k'. pos_sem_give_freertos hw api junk False (sem, k) = Returns POS_OK (sem, k') \<and>
                   task_sem k' h \<and> count k' h = Suc (count k h)
         else pos_sem_give_freertos hw api junk False (sem, k) = Stops Assert_Failure"
  using give_below [OF assms(2)] give_at_max [OF assms(2)]
  by (auto simp: give_task_level [OF assms])

lemma init_cases:
  assumes "\<not> pos_hw_in_isr_freertos hw k"
  shows "(128 < unat n \<longrightarrow> pos_sem_init_freertos api False n (sem, k) = Stops Assert_Failure) \<and>
         (\<forall>e sem' k'. pos_sem_init_freertos api False n (sem, k) = Returns e (sem', k') \<longrightarrow>
            e = POS_OK \<and> (\<exists>h. fs_handle sem' = Some h \<and> task_sem k' h \<and> count k' h = unat n))"
  using create_count [OF assms, of "ucast n"] create_too_many [of "ucast n" k]
  by (auto simp: pos_sem_init_freertos_def prog_defs split: outcome.splits if_splits)

end

sublocale freertos_sem_kernel \<subseteq> freertos_sem: osal_sem
  "pos_sem_give_freertos hw api junk False" "pos_sem_take_freertos hw api junk False"
  "\<lambda>(sem, k). count k h" 128 "\<lambda>(sem, k). fs_handle sem = Some h \<and> task_sem k h" for junk h
proof (unfold_locales, goal_cases)
  case (1 w)
  then show ?case using give_cases [of "fst w" h "snd w" junk] by (cases w) auto
next
  case (2 w e w')
  then show ?case using give_cases [of "fst w" h "snd w" junk] by (cases w) (auto split: if_splits)
next
  case (3 w tmo)
  then show ?case using take_present [of "snd w" h tmo] by (cases w) (auto simp: take_task_level)
next
  case (4 w tmo)
  then show ?case using take_absent [of "snd w" h tmo] by (cases w) (auto simp: take_task_level)
qed

interpretation ref_freertos_sem: freertos_sem_kernel ref_hw ref_freertos_sem rf_count rf_sem_ok
  by unfold_locales
    (auto simp: ref_freertos_sem_def rf_sem_ok_def ref_hw_def pos_hw_in_isr_freertos_def rf_take_def
      rf_give_def split: nat.splits if_splits)

context freertos_mutex_kernel
begin

lemma run_balance:
  assumes "\<not> pos_hw_in_isr_freertos hw k" and "pos_mutex_init_freertos api False (mu, k) = Returns e w"
    and "mutex_run (pos_mutex_lock_freertos hw api False) (pos_mutex_unlock_freertos hw api False) cs w =
           Returns bal (mu', k')"
  shows "\<exists>h. fm_handle mu' = Some h \<and> int (held (own k' h) t) = bal t \<and> (0 < bal t \<and> 0 < bal u \<longrightarrow> t = u)"
proof -
  obtain mu1 k1 h where w: "w = (mu1, k1)" "fm_handle mu1 = Some h" "task_mutex k1 h" "own k1 h = None"
    using init_handle [OF assms(1), of mu e "fst w" "snd w"] assms(2) by (cases w) auto
  then show ?thesis
    using freertos_mutex.mutex_run_balance [of h w cs bal "(mu', k')" t]
      freertos_mutex.mutex_run_exclusive [of h w cs bal "(mu', k')" t u] assms(3) by auto
qed

end

context freertos_sem_kernel
begin

lemma run_conserves:
  assumes "\<not> pos_hw_in_isr_freertos hw k" and "pos_sem_init_freertos api False m (sem, k) = Returns e w"
    and "unat m + length (filter (\<lambda>c. c = SGive) cs) \<le> 128"
    and "sem_run (pos_sem_give_freertos hw api junk False) (pos_sem_take_freertos hw api junk False) cs w =
           Returns (g, n) (sem', k')"
  shows "\<exists>h. fs_handle sem' = Some h \<and> unat m + g = count k' h + n"
proof -
  obtain s1 k1 h where w: "w = (s1, k1)" "fs_handle s1 = Some h" "task_sem k1 h" "count k1 h = unat m"
    using init_cases [OF assms(1), of m sem] assms(2) by (cases w) auto
  then show ?thesis
    using freertos_sem.sem_run_conserves [of h w cs junk g n "(sem', k')"] assms(3,4) by auto
qed

end

section \<open>Properties\<close>

text \<open>Mutual exclusion of the FreeRTOS mutex: over any interleaving of lock and unlock calls of
  tasks on a freshly created mutex, a task's depth is its successful locks less its successful
  unlocks, and no two tasks have a positive balance.\<close>

theorem freertos_mutex_exclusive:
  assumes "freertos_mutex_kernel hw api own task_mutex" and "\<not> pos_hw_in_isr_freertos hw k"
    and "pos_mutex_init_freertos api False (mu, k) = Returns e w"
    and "mutex_run (pos_mutex_lock_freertos hw api False) (pos_mutex_unlock_freertos hw api False) cs w =
           Returns bal (mu', k')"
  shows "\<exists>h. fm_handle mu' = Some h \<and> int (held (own k' h) t) = bal t \<and> (0 < bal t \<and> 0 < bal u \<longrightarrow> t = u)"
  by (rule freertos_mutex_kernel.run_balance [OF assms])

theorem freertos_mutex_exclusive_witness:
  "\<exists>w bal mu' k'. pos_mutex_init_freertos ref_freertos_mutex False (\<lparr>fm_handle = None\<rparr>, ref_freertos0) =
       Returns POS_OK w \<and>
     mutex_run (pos_mutex_lock_freertos ref_hw ref_freertos_mutex False)
       (pos_mutex_unlock_freertos ref_hw ref_freertos_mutex False)
       [MLock 1 0, MLock 1 9, MLock 2 3, MUnlock 1] w = Returns bal (mu', k') \<and>
     bal 1 = 1 \<and> bal 2 = 0 \<and> (\<exists>h. fm_handle mu' = Some h \<and> int (held (rf_own k' h) 1) = bal 1)"
proof -
  note defs = pos_mutex_init_freertos_def pos_mutex_lock_freertos_def pos_mutex_unlock_freertos_def
    assert_handle_def prog_defs ref_freertos_mutex_def ref_freertos0_def ref_hw_def
    pos_hw_in_isr_freertos_def portMAX_DELAY_32 released_def
  have isr: "\<not> pos_hw_in_isr_freertos ref_hw ref_freertos0"
    by (simp add: ref_hw_def ref_freertos0_def pos_hw_in_isr_freertos_def)
  obtain w where w: "pos_mutex_init_freertos ref_freertos_mutex False (\<lparr>fm_handle = None\<rparr>, ref_freertos0) =
      Returns POS_OK w"
    by (simp add: defs)
  moreover obtain bal mu' k' where run: "mutex_run (pos_mutex_lock_freertos ref_hw ref_freertos_mutex False)
      (pos_mutex_unlock_freertos ref_hw ref_freertos_mutex False)
      [MLock 1 0, MLock 1 9, MLock 2 3, MUnlock 1] w = Returns bal (mu', k')" "bal 1 = 1" "bal 2 = 0"
    using w by (auto simp: defs)
  ultimately show ?thesis
    using freertos_mutex_exclusive [OF ref_freertos_mutex.freertos_mutex_kernel_axioms isr w run(1), of 1 2]
    by blast
qed

text \<open>The FreeRTOS semaphore: it cannot be created with more than 128 tokens (the assertion stops
  the program); otherwise tokens are conserved over any sequence of completed calls that cannot
  push the count beyond 128.\<close>

theorem freertos_sem_conserves:
  assumes "freertos_sem_kernel hw api count task_sem" and "\<not> pos_hw_in_isr_freertos hw k"
    and "pos_sem_init_freertos api False m (sem, k) = Returns e w"
    and "unat m + length (filter (\<lambda>c. c = SGive) cs) \<le> 128"
    and "sem_run (pos_sem_give_freertos hw api junk False) (pos_sem_take_freertos hw api junk False) cs w =
           Returns (g, n) (sem', k')"
  shows "(\<exists>h. fs_handle sem' = Some h \<and> unat m + g = count k' h + n) \<and>
         (128 < unat m' \<longrightarrow> pos_sem_init_freertos api False m' (sem, k) = Stops Assert_Failure)"
  using freertos_sem_kernel.run_conserves [OF assms] freertos_sem_kernel.init_cases [OF assms(1,2)]
  by blast

theorem freertos_sem_conserves_witness:
  "\<exists>w sem' k'. pos_sem_init_freertos ref_freertos_sem False 2 (\<lparr>fs_handle = None\<rparr>, ref_freertos0) =
       Returns POS_OK w \<and>
     sem_run (pos_sem_give_freertos ref_hw ref_freertos_sem 0 False)
       (pos_sem_take_freertos ref_hw ref_freertos_sem 0 False) [STake 0, STake 0, STake 0, SGive] w =
       Returns (1, 2) (sem', k') \<and>
     (\<exists>h. fs_handle sem' = Some h \<and> 3 = rf_count k' h + 2) \<and>
     pos_sem_init_freertos ref_freertos_sem False 129 (\<lparr>fs_handle = None\<rparr>, ref_freertos0) = Stops Assert_Failure"
proof -
  note defs = pos_sem_init_freertos_def pos_sem_give_freertos_def pos_sem_take_freertos_def
    assert_handle_def prog_defs ref_freertos_sem_def ref_freertos0_def ref_hw_def rf_take_def rf_give_def
    pos_hw_in_isr_freertos_def portMAX_DELAY_32
  have isr: "\<not> pos_hw_in_isr_freertos ref_hw ref_freertos0"
    by (simp add: ref_hw_def ref_freertos0_def pos_hw_in_isr_freertos_def)
  obtain w where w: "pos_sem_init_freertos ref_freertos_sem False 2 (\<lparr>fs_handle = None\<rparr>, ref_freertos0) =
      Returns POS_OK w"
    by (simp add: defs)
  moreover obtain sem' k' where run: "sem_run (pos_sem_give_freertos ref_hw ref_freertos_sem 0 False)
      (pos_sem_take_freertos ref_hw ref_freertos_sem 0 False) [STake 0, STake 0, STake 0, SGive] w =
      Returns (1, 2) (sem', k')"
    using w by (auto simp: defs)
  ultimately show ?thesis
    using freertos_sem_conserves [OF ref_freertos_sem.freertos_sem_kernel_axioms isr w _ run, of 129]
    by auto
qed

end
