(* ===== verification/Zephyr_Sync.thy ===== *)
theory Zephyr_Sync
  imports Osal_Interfaces
begin

text \<open>
  The Zephyr port's mutex and semaphore, \<^verbatim>\<open>targets/zephyr/os_mutex.c\<close> and \<^verbatim>\<open>os_sem.c\<close>, its
  timeouts and the error translation of \<^verbatim>\<open>os_utils.c\<close>.  The Zephyr calls are parameters;
  kernel objects live inside the structs and are named by their addresses.
\<close>

section \<open>Definitions\<close>

abbreviation "Z_EPERM \<equiv> (1 :: int)"
abbreviation "Z_EAGAIN \<equiv> (11 :: int)"
abbreviation "Z_ENOMEM \<equiv> (12 :: int)"
abbreviation "Z_EBUSY \<equiv> (16 :: int)"
abbreviation "Z_EINVAL \<equiv> (22 :: int)"
abbreviation "Z_ENOMSG \<equiv> (80 :: int)"

definition POS_TIME_FOREVER_zephyr :: pos_time where
  "POS_TIME_FOREVER_zephyr = 0xFFFFFFFF"

definition POS_TIME_NO_WAIT_zephyr :: pos_time where
  "POS_TIME_NO_WAIT_zephyr = 0"

text \<open>Zephyr's \<open>k_timeout_t\<close>, and the conversion that every blocking operation makes.\<close>

datatype k_timeout = K_FOREVER | K_NO_WAIT | K_MSEC u32 | K_TICKS u32

definition k_timeout_of :: "pos_time \<Rightarrow> k_timeout" where
  "k_timeout_of timeout =
     (if timeout = POS_TIME_FOREVER_zephyr then K_FOREVER
      else if timeout = POS_TIME_NO_WAIT_zephyr then K_NO_WAIT
      else K_MSEC timeout)"

text \<open>The translation of the status of a blocking operation, and the one of \<open>os_utils.c\<close>.\<close>

definition wait_status :: "int \<Rightarrow> pos_error" where
  "wait_status err =
     (if err = 0 then POS_OK else if err = - Z_EAGAIN then POS_TIMEOUT else POS_ERROR)"

definition map_zephyr_to_osal_error :: "int \<Rightarrow> pos_error" where
  "map_zephyr_to_osal_error ret =
     (if ret = 0 then POS_OK
      else if ret = - Z_ENOMEM then POS_ENOMEM
      else if ret = - Z_EAGAIN then POS_TIMEOUT
      else if ret = - Z_EBUSY then POS_EBUSY
      else if ret = - Z_EINVAL then POS_EINVAL
      else POS_ERROR)"

subsection \<open>Mutex\<close>

record ('t, 'm, 'k) zephyr_mutex_api =
  k_mutex_init :: "'m \<Rightarrow> (int, 'k) prog"
  k_mutex_lock :: "'t \<Rightarrow> 'm \<Rightarrow> k_timeout \<Rightarrow> (int, 'k) prog"
  k_mutex_unlock :: "'t \<Rightarrow> 'm \<Rightarrow> (int, 'k) prog"

record 'm pos_mutex_zephyr =
  zm_mutex :: 'm

definition pos_mutex_init_zephyr ::
    "('t, 'm, 'k) zephyr_mutex_api \<Rightarrow> (pos_error, 'm pos_mutex_zephyr \<times> 'k) prog" where
  "pos_mutex_init_zephyr api =
     c_bind (get_obj zm_mutex) (\<lambda>m. c_then (kcall (k_mutex_init api m)) (c_return POS_OK))"

definition pos_mutex_lock_zephyr ::
    "('t, 'm, 'k) zephyr_mutex_api \<Rightarrow> 't \<Rightarrow> pos_time \<Rightarrow> (pos_error, 'm pos_mutex_zephyr \<times> 'k) prog" where
  "pos_mutex_lock_zephyr api t timeout =
     c_bind (get_obj zm_mutex) (\<lambda>m.
     c_bind (kcall (k_mutex_lock api t m (k_timeout_of timeout))) (\<lambda>err. c_return (wait_status err)))"

definition pos_mutex_unlock_zephyr ::
    "('t, 'm, 'k) zephyr_mutex_api \<Rightarrow> 't \<Rightarrow> (pos_error, 'm pos_mutex_zephyr \<times> 'k) prog" where
  "pos_mutex_unlock_zephyr api t =
     c_bind (get_obj zm_mutex) (\<lambda>m.
     c_bind (kcall (k_mutex_unlock api t m)) (\<lambda>err. c_return (if err = 0 then POS_OK else POS_ERROR)))"

subsection \<open>Semaphore\<close>

record ('s, 'k) zephyr_sem_api =
  k_sem_init :: "'s \<Rightarrow> u32 \<Rightarrow> u32 \<Rightarrow> (int, 'k) prog"
  k_sem_take :: "'s \<Rightarrow> k_timeout \<Rightarrow> (int, 'k) prog"
  k_sem_give :: "'s \<Rightarrow> (unit, 'k) prog"

definition K_SEM_MAX_LIMIT :: u32 where
  "K_SEM_MAX_LIMIT = 0xFFFFFFFF"

record 's pos_sem_zephyr =
  zs_sem :: 's

definition pos_sem_init_zephyr ::
    "('s, 'k) zephyr_sem_api \<Rightarrow> u16 \<Rightarrow> (pos_error, 's pos_sem_zephyr \<times> 'k) prog" where
  "pos_sem_init_zephyr api tokens =
     c_bind (get_obj zs_sem) (\<lambda>s.
     c_then (kcall (k_sem_init api s (ucast tokens) K_SEM_MAX_LIMIT)) (c_return POS_OK))"

definition pos_sem_take_zephyr ::
    "('s, 'k) zephyr_sem_api \<Rightarrow> pos_time \<Rightarrow> (pos_error, 's pos_sem_zephyr \<times> 'k) prog" where
  "pos_sem_take_zephyr api timeout =
     c_bind (get_obj zs_sem) (\<lambda>s.
     c_bind (kcall (k_sem_take api s (k_timeout_of timeout))) (\<lambda>err. c_return (wait_status err)))"

definition pos_sem_give_zephyr ::
    "('s, 'k) zephyr_sem_api \<Rightarrow> (pos_error, 's pos_sem_zephyr \<times> 'k) prog" where
  "pos_sem_give_zephyr api =
     c_bind (get_obj zs_sem) (\<lambda>s. c_then (kcall (k_sem_give api s)) (c_return POS_OK))"

subsection \<open>A reference model of the kernel objects\<close>

record ref_zephyr =
  rz_own :: "nat \<Rightarrow> nat mutex_state"
  rz_count :: "nat \<Rightarrow> nat"

fun rz_wait :: "k_timeout \<Rightarrow> 'k \<Rightarrow> (int, 'k) outcome" where
  "rz_wait K_FOREVER k = Stops Blocked"
| "rz_wait K_NO_WAIT k = Returns (- Z_EBUSY) k"
| "rz_wait (K_MSEC n) k = Returns (- Z_EAGAIN) k"
| "rz_wait (K_TICKS n) k = Returns (- Z_EAGAIN) k"

definition ref_zephyr_mutex :: "(nat, nat, ref_zephyr) zephyr_mutex_api" where
  "ref_zephyr_mutex =
     \<lparr>k_mutex_init = (\<lambda>m k. Returns 0 (k\<lparr>rz_own := (rz_own k)(m := None)\<rparr>)),
      k_mutex_lock = (\<lambda>t m tmo k.
        case rz_own k m of
          None \<Rightarrow> Returns 0 (k\<lparr>rz_own := (rz_own k)(m := Some (t, 1))\<rparr>)
        | Some (u, n) \<Rightarrow>
            if u = t then Returns 0 (k\<lparr>rz_own := (rz_own k)(m := Some (t, Suc n))\<rparr>) else rz_wait tmo k),
      k_mutex_unlock = (\<lambda>t m k.
        case rz_own k m of
          None \<Rightarrow> Returns (- Z_EINVAL) k
        | Some (u, n) \<Rightarrow>
            if u = t then Returns 0 (k\<lparr>rz_own := (rz_own k)(m := released t (n - 1))\<rparr>)
            else Returns (- Z_EPERM) k)\<rparr>"

definition rz_mutex_ok :: "ref_zephyr \<Rightarrow> nat \<Rightarrow> bool" where
  "rz_mutex_ok k m \<longleftrightarrow> (case rz_own k m of None \<Rightarrow> True | Some (_, n) \<Rightarrow> 0 < n)"

definition ref_zephyr_sem :: "(nat, ref_zephyr) zephyr_sem_api" where
  "ref_zephyr_sem =
     \<lparr>k_sem_init = (\<lambda>s n limit k. Returns 0 (k\<lparr>rz_count := (rz_count k)(s := unat n)\<rparr>)),
      k_sem_take = (\<lambda>s tmo k.
        case rz_count k s of 0 \<Rightarrow> rz_wait tmo k | Suc n \<Rightarrow> Returns 0 (k\<lparr>rz_count := (rz_count k)(s := n)\<rparr>)),
      k_sem_give = (\<lambda>s k.
        Returns () (if rz_count k s < 4294967295 then k\<lparr>rz_count := (rz_count k)(s := Suc (rz_count k s))\<rparr> else k))\<rparr>"

definition rz_sem_ok :: "ref_zephyr \<Rightarrow> nat \<Rightarrow> bool" where
  "rz_sem_ok k s \<longleftrightarrow> rz_count k s \<le> 4294967295"

section \<open>The documented behaviour of the kernel\<close>

text \<open>
  A call that cannot succeed waits (\<open>K_FOREVER\<close>), returns \<open>-EBUSY\<close> without waiting
  (\<open>K_NO_WAIT\<close>) or \<open>-EAGAIN\<close> after the time has passed.
\<close>

definition gives_up :: "k_timeout \<Rightarrow> (int, 'k) outcome \<Rightarrow> ('k \<Rightarrow> bool) \<Rightarrow> bool" where
  "gives_up tmo out unchanged \<longleftrightarrow>
     (case tmo of
        K_FOREVER \<Rightarrow> out = Stops Blocked
      | K_NO_WAIT \<Rightarrow> (\<exists>k'. out = Returns (- Z_EBUSY) k' \<and> unchanged k')
      | _ \<Rightarrow> (\<exists>k'. out = Returns (- Z_EAGAIN) k' \<and> unchanged k'))"

locale zephyr_mutex_kernel =
  fixes api :: "('t, 'm, 'k) zephyr_mutex_api"
    and own :: "'k \<Rightarrow> 'm \<Rightarrow> 't mutex_state"
    and live :: "'k \<Rightarrow> 'm \<Rightarrow> bool"
  assumes mutex_init: "\<exists>k'. k_mutex_init api m k = Returns 0 k' \<and> live k' m \<and> own k' m = None"
    and lock_free:
      "live k m \<Longrightarrow> own k m = None \<Longrightarrow>
       \<exists>k'. k_mutex_lock api t m tmo k = Returns 0 k' \<and> live k' m \<and> own k' m = Some (t, 1)"
    and lock_own:
      "live k m \<Longrightarrow> own k m = Some (t, n) \<Longrightarrow>
       \<exists>k'. k_mutex_lock api t m tmo k = Returns 0 k' \<and> live k' m \<and> own k' m = Some (t, Suc n)"
    and lock_busy:
      "live k m \<Longrightarrow> own k m = Some (u, n) \<Longrightarrow> u \<noteq> t \<Longrightarrow>
       gives_up tmo (k_mutex_lock api t m tmo k) (\<lambda>k'. live k' m \<and> own k' m = own k m)"
    and unlock_owner:
      "live k m \<Longrightarrow> own k m = Some (t, Suc n) \<Longrightarrow>
       \<exists>k'. k_mutex_unlock api t m k = Returns 0 k' \<and> live k' m \<and> own k' m = released t n"
    and unlock_stranger:
      "live k m \<Longrightarrow> held (own k m) t = 0 \<Longrightarrow>
       \<exists>err k'. k_mutex_unlock api t m k = Returns err k' \<and> err \<noteq> 0 \<and> live k' m \<and> own k' m = own k m"
    and count_pos: "live k m \<Longrightarrow> own k m = Some (t, n) \<Longrightarrow> 0 < n"
begin

lemma lock_contended:
  assumes "live k (zm_mutex mu)" and "own k (zm_mutex mu) = Some (u, n)" and "u \<noteq> t"
  shows "if tmo = POS_TIME_FOREVER_zephyr then pos_mutex_lock_zephyr api t tmo (mu, k) = Stops Blocked
         else \<exists>k'. pos_mutex_lock_zephyr api t tmo (mu, k) =
                Returns (if tmo = POS_TIME_NO_WAIT_zephyr then POS_ERROR else POS_TIMEOUT) (mu, k') \<and>
                live k' (zm_mutex mu) \<and> own k' (zm_mutex mu) = own k (zm_mutex mu)"
  using lock_busy [OF assms, of "k_timeout_of tmo"]
  by (auto simp: pos_mutex_lock_zephyr_def prog_defs gives_up_def k_timeout_of_def wait_status_def
      split: if_splits)

end

sublocale zephyr_mutex_kernel \<subseteq> zephyr_mutex: osal_mutex "pos_mutex_lock_zephyr api"
  "pos_mutex_unlock_zephyr api" "\<lambda>(mu, k). own k (zm_mutex mu)"
  "\<lambda>(mu, k). mu = mu0 \<and> live k (zm_mutex mu)" limit for mu0 limit
proof (unfold_locales, goal_cases)
  case (1 w t tmo)
  then show ?case
    using lock_free [of "snd w" "zm_mutex (fst w)" t "k_timeout_of tmo"]
    by (cases w) (auto simp: pos_mutex_lock_zephyr_def prog_defs wait_status_def)
next
  case (2 w t n tmo)
  then show ?case
    using lock_own [of "snd w" "zm_mutex (fst w)" t n "k_timeout_of tmo"]
    by (cases w) (auto simp: pos_mutex_lock_zephyr_def prog_defs wait_status_def)
next
  case (3 w u n t tmo)
  then show ?case
    using lock_contended [of "snd w" "fst w" u n t tmo]
    by (cases w) (auto split: if_splits)
next
  case (4 w t n)
  then show ?case
    using unlock_owner [of "snd w" "zm_mutex (fst w)" t n]
    by (cases w) (auto simp: pos_mutex_unlock_zephyr_def prog_defs)
next
  case (5 w t)
  then show ?case
    using unlock_stranger [of "snd w" "zm_mutex (fst w)" t]
    by (cases w) (auto simp: pos_mutex_unlock_zephyr_def prog_defs)
next
  case (6 w t n)
  then show ?case using count_pos by (cases w) auto
qed

interpretation ref_zephyr_mutex: zephyr_mutex_kernel ref_zephyr_mutex rz_own rz_mutex_ok
proof (unfold_locales, goal_cases)
  case (4 k m u n t tmo)
  then have "k_mutex_lock ref_zephyr_mutex t m tmo k = rz_wait tmo k" by (simp add: ref_zephyr_mutex_def)
  then show ?case using 4 by (auto simp: gives_up_def split: k_timeout.split)
qed (auto simp: ref_zephyr_mutex_def rz_mutex_ok_def released_def split: option.splits if_splits)

locale zephyr_sem_kernel =
  fixes api :: "('s, 'k) zephyr_sem_api"
    and count :: "'k \<Rightarrow> 's \<Rightarrow> nat"
    and live :: "'k \<Rightarrow> 's \<Rightarrow> bool"
  assumes sem_init:
      "\<exists>ret k'. k_sem_init api s n K_SEM_MAX_LIMIT k = Returns ret k' \<and> live k' s \<and> count k' s = unat n"
    and sem_give:
      "live k s \<Longrightarrow>
       \<exists>k'. k_sem_give api s k = Returns () k' \<and> live k' s \<and>
            count k' s = (if count k s < unat K_SEM_MAX_LIMIT then Suc (count k s) else count k s)"
    and sem_take_token:
      "live k s \<Longrightarrow> 0 < count k s \<Longrightarrow>
       \<exists>k'. k_sem_take api s tmo k = Returns 0 k' \<and> live k' s \<and> count k s = Suc (count k' s)"
    and sem_take_none:
      "live k s \<Longrightarrow> count k s = 0 \<Longrightarrow>
       gives_up tmo (k_sem_take api s tmo k) (\<lambda>k'. live k' s \<and> count k' s = 0)"
begin

lemma take_none_status:
  assumes "live k (zs_sem s)" and "count k (zs_sem s) = 0"
  shows "if tmo = POS_TIME_FOREVER_zephyr then pos_sem_take_zephyr api tmo (s, k) = Stops Blocked
         else \<exists>k'. pos_sem_take_zephyr api tmo (s, k) =
                Returns (if tmo = POS_TIME_NO_WAIT_zephyr then POS_ERROR else POS_TIMEOUT) (s, k') \<and>
                live k' (zs_sem s) \<and> count k' (zs_sem s) = 0"
  using sem_take_none [OF assms, of "k_timeout_of tmo"]
  by (auto simp: pos_sem_take_zephyr_def prog_defs gives_up_def k_timeout_of_def wait_status_def
      split: if_splits)

lemma init_tokens:
  "\<exists>k'. pos_sem_init_zephyr api n (s, k) = Returns POS_OK (s, k') \<and> live k' (zs_sem s) \<and>
        count k' (zs_sem s) = unat n"
  using sem_init [of "zs_sem s" "ucast n" k] by (auto simp: pos_sem_init_zephyr_def prog_defs)

end

sublocale zephyr_sem_kernel \<subseteq> zephyr_sem: osal_sem "pos_sem_give_zephyr api"
  "pos_sem_take_zephyr api" "\<lambda>(s, k). count k (zs_sem s)" "unat K_SEM_MAX_LIMIT"
  "\<lambda>(s, k). s = s0 \<and> live k (zs_sem s)" for s0
proof (unfold_locales, goal_cases)
  case (1 w)
  then show ?case
    using sem_give [of "snd w" "zs_sem (fst w)"] by (cases w) (auto simp: pos_sem_give_zephyr_def prog_defs)
next
  case (2 w e w')
  then show ?case
    using sem_give [of "snd w" "zs_sem (fst w)"]
    by (cases w) (auto simp: pos_sem_give_zephyr_def prog_defs split: if_splits)
next
  case (3 w tmo)
  then show ?case
    using sem_take_token [of "snd w" "zs_sem (fst w)" "k_timeout_of tmo"]
    by (cases w) (auto simp: pos_sem_take_zephyr_def prog_defs wait_status_def)
next
  case (4 w tmo)
  then show ?case
    using take_none_status [of "snd w" "fst w" tmo] by (cases w) (auto split: if_splits)
qed

interpretation ref_zephyr_sem: zephyr_sem_kernel ref_zephyr_sem rz_count rz_sem_ok
  by unfold_locales
    (auto simp: ref_zephyr_sem_def rz_sem_ok_def K_SEM_MAX_LIMIT_def gives_up_def unat_u32_le
      split: nat.splits k_timeout.splits)

context zephyr_mutex_kernel
begin

lemma init_free:
  "\<exists>k'. pos_mutex_init_zephyr api (mu, k) = Returns POS_OK (mu, k') \<and> live k' (zm_mutex mu) \<and>
        own k' (zm_mutex mu) = None"
  using mutex_init [of "zm_mutex mu" k] by (auto simp: pos_mutex_init_zephyr_def prog_defs)

lemma run_balance:
  assumes "pos_mutex_init_zephyr api (mu, k) = Returns e w"
    and "mutex_run (pos_mutex_lock_zephyr api) (pos_mutex_unlock_zephyr api) cs w = Returns bal (mu', k')"
  shows "mu' = mu \<and> int (held (own k' (zm_mutex mu)) t) = bal t \<and> (0 < bal t \<and> 0 < bal u \<longrightarrow> t = u)"
proof -
  obtain k1 where w: "w = (mu, k1)" "live k1 (zm_mutex mu)" "own k1 (zm_mutex mu) = None"
    using init_free [of mu k] assms(1) by auto
  then show ?thesis
    using zephyr_mutex.mutex_run_balance [of mu w cs bal "(mu', k')" t]
      zephyr_mutex.mutex_run_exclusive [of mu w cs bal "(mu', k')" t u] assms(2) by auto
qed

end

context zephyr_sem_kernel
begin

lemma run_conserves:
  assumes "pos_sem_init_zephyr api m (s, k) = Returns e w"
    and "unat m + length (filter (\<lambda>c. c = SGive) cs) \<le> unat K_SEM_MAX_LIMIT"
    and "sem_run (pos_sem_give_zephyr api) (pos_sem_take_zephyr api) cs w = Returns (g, n) (s', k')"
  shows "s' = s \<and> unat m + g = count k' (zs_sem s) + n"
proof -
  obtain k1 where w: "w = (s, k1)" "live k1 (zs_sem s)" "count k1 (zs_sem s) = unat m"
    using init_tokens [of m s k] assms(1) by auto
  then show ?thesis
    using zephyr_sem.sem_run_conserves [of s w cs g n "(s', k')"] assms(2,3) by auto
qed

end

section \<open>Properties\<close>

text \<open>Mutual exclusion of the Zephyr mutex over any interleaving of lock and unlock calls of any
  threads on a freshly initialised mutex, with exact accounting of each thread's depth.\<close>

theorem zephyr_mutex_exclusive:
  assumes "zephyr_mutex_kernel api own live"
    and "pos_mutex_init_zephyr api (mu, k) = Returns e w"
    and "mutex_run (pos_mutex_lock_zephyr api) (pos_mutex_unlock_zephyr api) cs w = Returns bal (mu', k')"
  shows "mu' = mu \<and> int (held (own k' (zm_mutex mu)) t) = bal t \<and> (0 < bal t \<and> 0 < bal u \<longrightarrow> t = u)"
  by (rule zephyr_mutex_kernel.run_balance [OF assms])

theorem zephyr_mutex_exclusive_witness:
  "\<exists>w bal mu' k'. pos_mutex_init_zephyr ref_zephyr_mutex
       (\<lparr>zm_mutex = 0\<rparr>, \<lparr>rz_own = \<lambda>_. Some (5, 5), rz_count = \<lambda>_. 0\<rparr>) = Returns POS_OK w \<and>
     mutex_run (pos_mutex_lock_zephyr ref_zephyr_mutex) (pos_mutex_unlock_zephyr ref_zephyr_mutex)
       [MLock 1 0, MLock 2 0, MUnlock 2, MLock 1 4] w = Returns bal (mu', k') \<and>
     bal 1 = 2 \<and> int (held (rz_own k' 0) 1) = bal 1"
proof -
  note defs = pos_mutex_init_zephyr_def pos_mutex_lock_zephyr_def pos_mutex_unlock_zephyr_def prog_defs
    ref_zephyr_mutex_def k_timeout_of_def wait_status_def POS_TIME_FOREVER_zephyr_def POS_TIME_NO_WAIT_zephyr_def
  obtain w where w: "pos_mutex_init_zephyr ref_zephyr_mutex
       (\<lparr>zm_mutex = 0\<rparr>, \<lparr>rz_own = \<lambda>_. Some (5, 5), rz_count = \<lambda>_. 0\<rparr>) = Returns POS_OK w"
    by (simp add: defs)
  moreover obtain bal mu' k' where run: "mutex_run (pos_mutex_lock_zephyr ref_zephyr_mutex)
      (pos_mutex_unlock_zephyr ref_zephyr_mutex) [MLock 1 0, MLock 2 0, MUnlock 2, MLock 1 4] w =
      Returns bal (mu', k')" "bal 1 = 2"
    using w by (auto simp: defs)
  moreover have "int (held (rz_own k' 0) 1) = bal 1"
    using zephyr_mutex_exclusive [OF ref_zephyr_mutex.zephyr_mutex_kernel_axioms w run(1), of 1] by simp
  ultimately show ?thesis by blast
qed

text \<open>The Zephyr semaphore conserves tokens over any sequence of completed calls on a semaphore
  initialised with any 16-bit number of tokens; a take that finds no token and must not wait reports
  \<open>POS_ERROR\<close>, a timed one \<open>POS_TIMEOUT\<close>.\<close>

theorem zephyr_sem_conserves:
  assumes "zephyr_sem_kernel api count live"
    and "pos_sem_init_zephyr api m (s, k) = Returns e w"
    and "unat m + length (filter (\<lambda>c. c = SGive) cs) \<le> unat K_SEM_MAX_LIMIT"
    and "sem_run (pos_sem_give_zephyr api) (pos_sem_take_zephyr api) cs w = Returns (g, n) (s', k')"
  shows "s' = s \<and> unat m + g = count k' (zs_sem s) + n \<and>
         (live k2 (zs_sem s) \<and> count k2 (zs_sem s) = 0 \<and> tmo \<noteq> POS_TIME_FOREVER_zephyr \<longrightarrow>
           (\<exists>k3. pos_sem_take_zephyr api tmo (s, k2) =
              Returns (if tmo = POS_TIME_NO_WAIT_zephyr then POS_ERROR else POS_TIMEOUT) (s, k3)))"
  using zephyr_sem_kernel.run_conserves [OF assms]
    zephyr_sem_kernel.take_none_status [OF assms(1), of k2 s tmo] by auto

theorem zephyr_sem_conserves_witness:
  "\<exists>w s' k' k3. pos_sem_init_zephyr ref_zephyr_sem 1 (\<lparr>zs_sem = 0\<rparr>, \<lparr>rz_own = \<lambda>_. None, rz_count = \<lambda>_. 9\<rparr>) =
       Returns POS_OK w \<and>
     sem_run (pos_sem_give_zephyr ref_zephyr_sem) (pos_sem_take_zephyr ref_zephyr_sem)
       [STake 0, STake 5, SGive, SGive] w = Returns (2, 1) (s', k') \<and> 3 = rz_count k' 0 + 1 \<and>
     pos_sem_take_zephyr ref_zephyr_sem 0 (\<lparr>zs_sem = 0\<rparr>, \<lparr>rz_own = \<lambda>_. None, rz_count = \<lambda>_. 0\<rparr>) =
       Returns POS_ERROR (\<lparr>zs_sem = 0\<rparr>, k3)"
proof -
  note defs = pos_sem_init_zephyr_def pos_sem_give_zephyr_def pos_sem_take_zephyr_def prog_defs
    ref_zephyr_sem_def k_timeout_of_def wait_status_def POS_TIME_FOREVER_zephyr_def POS_TIME_NO_WAIT_zephyr_def
  obtain w where w: "pos_sem_init_zephyr ref_zephyr_sem 1 (\<lparr>zs_sem = 0\<rparr>, \<lparr>rz_own = \<lambda>_. None, rz_count = \<lambda>_. 9\<rparr>) =
      Returns POS_OK w"
    by (simp add: defs)
  moreover obtain s' k' where run: "sem_run (pos_sem_give_zephyr ref_zephyr_sem)
      (pos_sem_take_zephyr ref_zephyr_sem) [STake 0, STake 5, SGive, SGive] w = Returns (2, 1) (s', k')"
    using w by (auto simp: defs)
  ultimately show ?thesis
    using zephyr_sem_conserves [OF ref_zephyr_sem.zephyr_sem_kernel_axioms w _ run,
        of "\<lparr>rz_own = \<lambda>_. None, rz_count = \<lambda>_. 0\<rparr>" 0]
    by (auto simp: rz_sem_ok_def K_SEM_MAX_LIMIT_def POS_TIME_FOREVER_zephyr_def POS_TIME_NO_WAIT_zephyr_def)
qed

end
