(* ===== verification/Rtt_Sync.thy ===== *)
theory Rtt_Sync
  imports Osal_Interfaces
begin

text \<open>
  The RT-Thread port's mutex and semaphore, \<^verbatim>\<open>targets/rt-thread/os_mutex.c\<close> and \<^verbatim>\<open>os_sem.c\<close>,
  with the interrupt test of \<^verbatim>\<open>os_hw.h\<close>.  The RT-Thread calls are parameters; timeouts are
  signed 32-bit tick counts there, \<open>-1\<close> waits forever.
\<close>

section \<open>Definitions\<close>

abbreviation "RT_EOK \<equiv> (0 :: int)"
abbreviation "RT_ERROR \<equiv> (1 :: int)"
abbreviation "RT_ETIMEOUT \<equiv> (2 :: int)"
abbreviation "RT_EFULL \<equiv> (3 :: int)"

definition POS_TIME_FOREVER_rtt :: pos_time where
  "POS_TIME_FOREVER_rtt = - 1"

definition POS_TIME_NO_WAIT_rtt :: pos_time where
  "POS_TIME_NO_WAIT_rtt = 0"

text \<open>\<open>pos_hw_in_isr\<close>: the interrupt nesting count is not zero.\<close>

definition pos_hw_in_isr_rtt :: "('k \<Rightarrow> u8) \<Rightarrow> 'k \<Rightarrow> bool" where
  "pos_hw_in_isr_rtt rt_interrupt_get_nest k = (if rt_interrupt_get_nest k \<noteq> 0 then True else False)"

text \<open>\<open>assert(x->handle)\<close> and the handle.\<close>

definition rtt_handle :: "('o \<Rightarrow> 'h option) \<Rightarrow> ('h, 'o \<times> 'k) prog" where
  "rtt_handle field =
     c_bind (get_obj field) (\<lambda>h. case h of None \<Rightarrow> c_stop Assert_Failure | Some h \<Rightarrow> c_return h)"

subsection \<open>Mutex\<close>

record ('t, 'h, 'k) rtt_mutex_api =
  rt_mutex_create :: "string \<Rightarrow> ('h option, 'k) prog"
  rt_mutex_take :: "'t \<Rightarrow> 'h \<Rightarrow> int \<Rightarrow> (int, 'k) prog"
  rt_mutex_release :: "'t \<Rightarrow> 'h \<Rightarrow> (int, 'k) prog"
  rt_interrupt_get_nest :: "'k \<Rightarrow> u8"

record 'h pos_mutex_rtt =
  rm_handle :: "'h option"

definition pos_mutex_init_rtt ::
    "('t, 'h, 'k) rtt_mutex_api \<Rightarrow> bool \<Rightarrow> (pos_error, 'h pos_mutex_rtt \<times> 'k) prog" where
  "pos_mutex_init_rtt api mu_null =
     (if mu_null then c_return POS_INVALID_PARAM
      else
        c_bind (kcall (rt_mutex_create api ''chip_mutex'')) (\<lambda>h.
        c_then (upd_obj (\<lambda>mu. mu\<lparr>rm_handle := h\<rparr>))
        (c_then (c_assert (h \<noteq> None))
          (c_return (if h = None then POS_BAD_MUTEX else POS_OK)))))"

definition pos_mutex_lock_rtt ::
    "('t, 'h, 'k) rtt_mutex_api \<Rightarrow> bool \<Rightarrow> 't \<Rightarrow> pos_time \<Rightarrow> (pos_error, 'h pos_mutex_rtt \<times> 'k) prog" where
  "pos_mutex_lock_rtt api mu_null t timeout =
     (if mu_null then c_return POS_INVALID_PARAM
      else
        c_bind (rtt_handle rm_handle) (\<lambda>h.
        c_bind (kcall (rt_mutex_take api t h (sint timeout))) (\<lambda>ret.
        c_return (if ret = RT_EOK then POS_OK else POS_BAD_MUTEX))))"

definition pos_mutex_unlock_rtt ::
    "('t, 'h, 'k) rtt_mutex_api \<Rightarrow> bool \<Rightarrow> 't \<Rightarrow> (pos_error, 'h pos_mutex_rtt \<times> 'k) prog" where
  "pos_mutex_unlock_rtt api mu_null t =
     c_bind (kcall (c_gets (pos_hw_in_isr_rtt (rt_interrupt_get_nest api)))) (\<lambda>in_isr.
     c_then (c_assert (\<not> in_isr))
       (if mu_null then c_return POS_INVALID_PARAM
        else
          c_bind (rtt_handle rm_handle) (\<lambda>h.
          c_bind (kcall (rt_mutex_release api t h)) (\<lambda>ret.
          c_return (if ret \<noteq> RT_EOK then POS_BAD_MUTEX else POS_OK)))))"

subsection \<open>Semaphore\<close>

record ('h, 'k) rtt_sem_api =
  rt_sem_create :: "string \<Rightarrow> u32 \<Rightarrow> ('h option, 'k) prog"
  rt_sem_take :: "'h \<Rightarrow> int \<Rightarrow> (int, 'k) prog"
  rt_sem_release :: "'h \<Rightarrow> (int, 'k) prog"

record 'h pos_sem_rtt =
  rsm_handle :: "'h option"

definition pos_sem_init_rtt ::
    "('h, 'k) rtt_sem_api \<Rightarrow> bool \<Rightarrow> u16 \<Rightarrow> (pos_error, 'h pos_sem_rtt \<times> 'k) prog" where
  "pos_sem_init_rtt api sem_null tokens =
     (if sem_null then c_return POS_INVALID_PARAM
      else
        c_bind (kcall (rt_sem_create api ''chip_sem'' (ucast tokens))) (\<lambda>h.
        c_then (upd_obj (\<lambda>sem. sem\<lparr>rsm_handle := h\<rparr>))
        (c_then (c_assert (h \<noteq> None)) (c_return POS_OK))))"

definition pos_sem_take_rtt ::
    "('h, 'k) rtt_sem_api \<Rightarrow> bool \<Rightarrow> pos_time \<Rightarrow> (pos_error, 'h pos_sem_rtt \<times> 'k) prog" where
  "pos_sem_take_rtt api sem_null timeout =
     (if sem_null then c_return POS_INVALID_PARAM
      else
        c_bind (rtt_handle rsm_handle) (\<lambda>h.
        c_bind (kcall (rt_sem_take api h (sint timeout))) (\<lambda>ret.
        c_return (if ret = RT_EOK then POS_OK else POS_TIMEOUT))))"

definition pos_sem_give_rtt ::
    "('h, 'k) rtt_sem_api \<Rightarrow> bool \<Rightarrow> (pos_error, 'h pos_sem_rtt \<times> 'k) prog" where
  "pos_sem_give_rtt api sem_null =
     (if sem_null then c_return POS_INVALID_PARAM
      else
        c_bind (rtt_handle rsm_handle) (\<lambda>h.
        c_bind (kcall (rt_sem_release api h)) (\<lambda>ret.
        c_return (if ret = RT_EOK then POS_OK else POS_ERROR))))"

subsection \<open>A reference model of the kernel objects\<close>

record ref_rtt =
  rr_own :: "nat \<Rightarrow> nat mutex_state"
  rr_count :: "nat \<Rightarrow> nat"
  rr_next :: nat

definition RT_MUTEX_HOLD_MAX :: nat where
  "RT_MUTEX_HOLD_MAX = 255"

definition RT_SEM_VALUE_MAX :: nat where
  "RT_SEM_VALUE_MAX = 65535"

definition rr_wait :: "int \<Rightarrow> 'k \<Rightarrow> (int, 'k) outcome" where
  "rr_wait tmo k = (if tmo < 0 then Stops Blocked else Returns (- RT_ETIMEOUT) k)"

definition ref_rtt_mutex :: "(nat, nat, ref_rtt) rtt_mutex_api" where
  "ref_rtt_mutex =
     \<lparr>rt_mutex_create = (\<lambda>nm k.
        Returns (Some (rr_next k)) (k\<lparr>rr_next := Suc (rr_next k), rr_own := (rr_own k)(rr_next k := None)\<rparr>)),
      rt_mutex_take = (\<lambda>t h tmo k.
        case rr_own k h of
          None \<Rightarrow> Returns RT_EOK (k\<lparr>rr_own := (rr_own k)(h := Some (t, 1))\<rparr>)
        | Some (u, n) \<Rightarrow>
            if u \<noteq> t then rr_wait tmo k
            else if n < RT_MUTEX_HOLD_MAX then Returns RT_EOK (k\<lparr>rr_own := (rr_own k)(h := Some (t, Suc n))\<rparr>)
            else Returns (- RT_EFULL) k),
      rt_mutex_release = (\<lambda>t h k.
        case rr_own k h of
          None \<Rightarrow> Returns (- RT_ERROR) k
        | Some (u, n) \<Rightarrow>
            if u = t then Returns RT_EOK (k\<lparr>rr_own := (rr_own k)(h := released t (n - 1))\<rparr>)
            else Returns (- RT_ERROR) k),
      rt_interrupt_get_nest = (\<lambda>k. 0)\<rparr>"

definition rr_mutex_ok :: "ref_rtt \<Rightarrow> nat \<Rightarrow> bool" where
  "rr_mutex_ok k h \<longleftrightarrow> (case rr_own k h of None \<Rightarrow> True | Some (_, n) \<Rightarrow> 0 < n)"

definition ref_rtt_sem :: "(nat, ref_rtt) rtt_sem_api" where
  "ref_rtt_sem =
     \<lparr>rt_sem_create = (\<lambda>nm v k.
        if unat v \<le> RT_SEM_VALUE_MAX
        then Returns (Some (rr_next k))
               (k\<lparr>rr_next := Suc (rr_next k), rr_count := (rr_count k)(rr_next k := unat v)\<rparr>)
        else Returns None k),
      rt_sem_take = (\<lambda>h tmo k.
        case rr_count k h of
          0 \<Rightarrow> rr_wait tmo k
        | Suc n \<Rightarrow> Returns RT_EOK (k\<lparr>rr_count := (rr_count k)(h := n)\<rparr>)),
      rt_sem_release = (\<lambda>h k.
        if rr_count k h < RT_SEM_VALUE_MAX
        then Returns RT_EOK (k\<lparr>rr_count := (rr_count k)(h := Suc (rr_count k h))\<rparr>)
        else Returns (- RT_EFULL) k)\<rparr>"

definition ref_rtt0 :: ref_rtt where
  "ref_rtt0 = \<lparr>rr_own = \<lambda>_. None, rr_count = \<lambda>_. 0, rr_next = 0\<rparr>"

section \<open>The documented behaviour of the kernel\<close>

text \<open>
  \<open>usable k h\<close>: the mutex exists and the caller is a thread.  The owner's holds are counted
  up to \<open>hold_max\<close>.
\<close>

locale rtt_mutex_kernel =
  fixes api :: "('t, 'h, 'k) rtt_mutex_api"
    and own :: "'k \<Rightarrow> 'h \<Rightarrow> 't mutex_state"
    and usable :: "'k \<Rightarrow> 'h \<Rightarrow> bool"
    and hold_max :: nat
  assumes thread_level: "usable k h \<Longrightarrow> rt_interrupt_get_nest api k = 0"
    and create_free: "rt_mutex_create api nm k = Returns (Some h) k' \<Longrightarrow> usable k' h \<and> own k' h = None"
    and take_free:
      "usable k h \<Longrightarrow> own k h = None \<Longrightarrow>
       \<exists>k'. rt_mutex_take api t h tmo k = Returns RT_EOK k' \<and> usable k' h \<and> own k' h = Some (t, 1)"
    and take_again:
      "usable k h \<Longrightarrow> own k h = Some (t, n) \<Longrightarrow>
       \<exists>ret k'. rt_mutex_take api t h tmo k = Returns ret k' \<and> usable k' h \<and>
                own k' h = (if ret = RT_EOK then Some (t, Suc n) else own k h) \<and>
                (n < hold_max \<longrightarrow> ret = RT_EOK)"
    and take_other:
      "usable k h \<Longrightarrow> own k h = Some (u, n) \<Longrightarrow> u \<noteq> t \<Longrightarrow>
       (tmo < 0 \<and> rt_mutex_take api t h tmo k = Stops Blocked) \<or>
       (tmo \<noteq> - 1 \<and>
        (\<exists>k'. rt_mutex_take api t h tmo k = Returns (- RT_ETIMEOUT) k' \<and> usable k' h \<and> own k' h = own k h))"
    and release_own:
      "usable k h \<Longrightarrow> own k h = Some (t, Suc n) \<Longrightarrow>
       \<exists>k'. rt_mutex_release api t h k = Returns RT_EOK k' \<and> usable k' h \<and> own k' h = released t n"
    and release_other:
      "usable k h \<Longrightarrow> held (own k h) t = 0 \<Longrightarrow>
       \<exists>k'. rt_mutex_release api t h k = Returns (- RT_ERROR) k' \<and> usable k' h \<and> own k' h = own k h"
    and hold_pos: "usable k h \<Longrightarrow> own k h = Some (t, n) \<Longrightarrow> 0 < n"
begin

lemma lock_status:
  assumes "rm_handle mu = Some h"
  shows "pos_mutex_lock_rtt api False t tmo (mu, k) =
    (case rt_mutex_take api t h (sint tmo) k of
       Stops s \<Rightarrow> Stops s
     | Returns ret k' \<Rightarrow> Returns (if ret = RT_EOK then POS_OK else POS_BAD_MUTEX) (mu, k'))"
  using assms by (simp add: pos_mutex_lock_rtt_def rtt_handle_def prog_defs split: outcome.split)

lemma unlock_status:
  assumes "rm_handle mu = Some h" and "usable k h"
  shows "pos_mutex_unlock_rtt api False t (mu, k) =
    (case rt_mutex_release api t h k of
       Stops s \<Rightarrow> Stops s
     | Returns ret k' \<Rightarrow> Returns (if ret = RT_EOK then POS_OK else POS_BAD_MUTEX) (mu, k'))"
  using assms thread_level [OF assms(2)]
  by (simp add: pos_mutex_unlock_rtt_def rtt_handle_def pos_hw_in_isr_rtt_def prog_defs split: outcome.split)

lemma init_handle:
  assumes "pos_mutex_init_rtt api False (mu, k) = Returns e (mu', k')"
  shows "e = POS_OK \<and> (\<exists>h. rm_handle mu' = Some h \<and> usable k' h \<and> own k' h = None)"
  using assms create_free
  by (auto simp: pos_mutex_init_rtt_def prog_defs split: outcome.splits if_splits)

lemma contended_status:
  assumes "rm_handle mu = Some h" and "usable k h" and "own k h = Some (u, n)" and "u \<noteq> t" and "0 \<le> sint tmo"
  shows "\<exists>k'. pos_mutex_lock_rtt api False t tmo (mu, k) = Returns POS_BAD_MUTEX (mu, k') \<and> own k' h = own k h"
  using take_other [OF assms(2-4), of "sint tmo"] assms(5) by (auto simp: lock_status [OF assms(1)])

end

sublocale rtt_mutex_kernel \<subseteq> rtt_mutex: osal_mutex "pos_mutex_lock_rtt api False"
  "pos_mutex_unlock_rtt api False" "\<lambda>(mu, k). own k h"
  "\<lambda>(mu, k). rm_handle mu = Some h \<and> usable k h" hold_max for h
proof (unfold_locales, goal_cases)
  case (1 w t tmo)
  then show ?case using take_free [of "snd w" h t "sint tmo"] by (cases w) (auto simp: lock_status)
next
  case (2 w t n tmo)
  obtain mu k where w: "w = (mu, k)" by (cases w)
  with 2 obtain ret k' where r: "rt_mutex_take api t h (sint tmo) k = Returns ret k'" "usable k' h"
      "own k' h = (if ret = RT_EOK then Some (t, Suc n) else own k h)" "n < hold_max \<longrightarrow> ret = RT_EOK"
    using take_again [of k h t n "sint tmo"] by auto
  with 2 w show ?case
    by (intro exI [of _ "if ret = RT_EOK then POS_OK else POS_BAD_MUTEX"] exI [of _ "(mu, k')"])
      (auto simp: lock_status)
next
  case (3 w u n t tmo)
  then show ?case using take_other [of "snd w" h u n t "sint tmo"] by (cases w) (auto simp: lock_status)
next
  case (4 w t n)
  then show ?case using release_own [of "snd w" h t n] by (cases w) (auto simp: unlock_status)
next
  case (5 w t)
  then show ?case using release_other [of "snd w" h t] by (cases w) (auto simp: unlock_status)
next
  case (6 w t n)
  then show ?case using hold_pos by (cases w) auto
qed

interpretation ref_rtt_mutex: rtt_mutex_kernel ref_rtt_mutex rr_own rr_mutex_ok RT_MUTEX_HOLD_MAX
  by unfold_locales
    (auto simp: ref_rtt_mutex_def rr_mutex_ok_def rr_wait_def released_def split: option.splits if_splits)

locale rtt_sem_kernel =
  fixes api :: "('h, 'k) rtt_sem_api"
    and count :: "'k \<Rightarrow> 'h \<Rightarrow> nat"
    and usable :: "'k \<Rightarrow> 'h \<Rightarrow> bool"
    and value_max :: nat
  assumes create_count: "rt_sem_create api nm v k = Returns (Some h) k' \<Longrightarrow> usable k' h \<and> count k' h = unat v"
    and release_room:
      "usable k h \<Longrightarrow> count k h < value_max \<Longrightarrow>
       \<exists>k'. rt_sem_release api h k = Returns RT_EOK k' \<and> usable k' h \<and> count k' h = Suc (count k h)"
    and release_full:
      "usable k h \<Longrightarrow> \<not> count k h < value_max \<Longrightarrow>
       \<exists>k'. rt_sem_release api h k = Returns (- RT_EFULL) k' \<and> usable k' h \<and> count k' h = count k h"
    and take_present:
      "usable k h \<Longrightarrow> 0 < count k h \<Longrightarrow>
       \<exists>k'. rt_sem_take api h tmo k = Returns RT_EOK k' \<and> usable k' h \<and> count k h = Suc (count k' h)"
    and take_absent:
      "usable k h \<Longrightarrow> count k h = 0 \<Longrightarrow>
       (tmo < 0 \<and> rt_sem_take api h tmo k = Stops Blocked) \<or>
       (tmo \<noteq> - 1 \<and>
        (\<exists>k'. rt_sem_take api h tmo k = Returns (- RT_ETIMEOUT) k' \<and> usable k' h \<and> count k' h = 0))"
begin

lemma take_status:
  assumes "rsm_handle sem = Some h"
  shows "pos_sem_take_rtt api False tmo (sem, k) =
    (case rt_sem_take api h (sint tmo) k of
       Stops s \<Rightarrow> Stops s
     | Returns ret k' \<Rightarrow> Returns (if ret = RT_EOK then POS_OK else POS_TIMEOUT) (sem, k'))"
  using assms by (simp add: pos_sem_take_rtt_def rtt_handle_def prog_defs split: outcome.split)

lemma give_status:
  assumes "rsm_handle sem = Some h"
  shows "pos_sem_give_rtt api False (sem, k) =
    (case rt_sem_release api h k of
       Stops s \<Rightarrow> Stops s
     | Returns ret k' \<Rightarrow> Returns (if ret = RT_EOK then POS_OK else POS_ERROR) (sem, k'))"
  using assms by (simp add: pos_sem_give_rtt_def rtt_handle_def prog_defs split: outcome.split)

lemma init_handle:
  assumes "pos_sem_init_rtt api False n (sem, k) = Returns e (sem', k')"
  shows "e = POS_OK \<and> (\<exists>h. rsm_handle sem' = Some h \<and> usable k' h \<and> count k' h = unat n)"
  using assms create_count [of _ "ucast n"]
  by (auto simp: pos_sem_init_rtt_def prog_defs split: outcome.splits if_splits)

end

sublocale rtt_sem_kernel \<subseteq> rtt_sem: osal_sem "pos_sem_give_rtt api False" "pos_sem_take_rtt api False"
  "\<lambda>(sem, k). count k h" value_max "\<lambda>(sem, k). rsm_handle sem = Some h \<and> usable k h" for h
proof (unfold_locales, goal_cases)
  case (1 w)
  then show ?case using release_room [of "snd w" h] by (cases w) (auto simp: give_status)
next
  case (2 w e w')
  then show ?case
    using release_room [of "snd w" h] release_full [of "snd w" h]
    by (cases w; cases "count (snd w) h < value_max") (auto simp: give_status)
next
  case (3 w tmo)
  then show ?case using take_present [of "snd w" h "sint tmo"] by (cases w) (auto simp: take_status)
next
  case (4 w tmo)
  then show ?case using take_absent [of "snd w" h "sint tmo"] by (cases w) (auto simp: take_status)
qed

interpretation ref_rtt_sem: rtt_sem_kernel ref_rtt_sem rr_count "\<lambda>k h. rr_count k h \<le> RT_SEM_VALUE_MAX"
  RT_SEM_VALUE_MAX
  by unfold_locales (auto simp: ref_rtt_sem_def rr_wait_def split: nat.splits if_splits)

context rtt_mutex_kernel
begin

lemma run_balance:
  assumes "pos_mutex_init_rtt api False (mu, k) = Returns e w"
    and "mutex_run (pos_mutex_lock_rtt api False) (pos_mutex_unlock_rtt api False) cs w = Returns bal (mu', k')"
  shows "\<exists>h. rm_handle mu' = Some h \<and> int (held (own k' h) t) = bal t \<and> (0 < bal t \<and> 0 < bal u \<longrightarrow> t = u)"
proof -
  obtain mu1 k1 h where w: "w = (mu1, k1)" "rm_handle mu1 = Some h" "usable k1 h" "own k1 h = None"
    using init_handle [of mu k e "fst w" "snd w"] assms(1) by (cases w) auto
  then show ?thesis
    using rtt_mutex.mutex_run_balance [of h w cs bal "(mu', k')" t]
      rtt_mutex.mutex_run_exclusive [of h w cs bal "(mu', k')" t u] assms(2) by auto
qed

end

context rtt_sem_kernel
begin

lemma run_conserves:
  assumes "pos_sem_init_rtt api False m (sem, k) = Returns e w"
    and "unat m + length (filter (\<lambda>c. c = SGive) cs) \<le> value_max"
    and "sem_run (pos_sem_give_rtt api False) (pos_sem_take_rtt api False) cs w = Returns (g, n) (sem', k')"
  shows "\<exists>h. rsm_handle sem' = Some h \<and> unat m + g = count k' h + n"
proof -
  obtain s1 k1 h where w: "w = (s1, k1)" "rsm_handle s1 = Some h" "usable k1 h" "count k1 h = unat m"
    using init_handle [of m sem k e "fst w" "snd w"] assms(1) by (cases w) auto
  then show ?thesis
    using rtt_sem.sem_run_conserves [of h w cs g n "(sem', k')"] assms(2,3) by auto
qed

end

section \<open>Properties\<close>

text \<open>Mutual exclusion of the RT-Thread mutex over any interleaving of calls on a freshly created
  mutex, with exact accounting of each thread's depth; and a lock with a finite timeout of a mutex
  that another thread holds reports \<open>POS_BAD_MUTEX\<close>, not a timeout.\<close>

theorem rtt_mutex_exclusive:
  assumes "rtt_mutex_kernel api own usable hold_max"
    and "pos_mutex_init_rtt api False (mu, k) = Returns e w"
    and "mutex_run (pos_mutex_lock_rtt api False) (pos_mutex_unlock_rtt api False) cs w = Returns bal (mu', k')"
  shows "\<exists>h. rm_handle mu' = Some h \<and> int (held (own k' h) t) = bal t \<and> (0 < bal t \<and> 0 < bal u \<longrightarrow> t = u) \<and>
             (usable k' h \<and> own k' h = Some (t, n) \<and> t \<noteq> v \<and> 0 \<le> sint tmo \<longrightarrow>
               (\<exists>k2. pos_mutex_lock_rtt api False v tmo (mu', k') = Returns POS_BAD_MUTEX (mu', k2)))"
  using rtt_mutex_kernel.run_balance [OF assms, of t u]
    rtt_mutex_kernel.contended_status [OF assms(1), of mu' _ k' t n v tmo] by blast

theorem rtt_mutex_exclusive_witness:
  "\<exists>w bal mu' k' k2. pos_mutex_init_rtt ref_rtt_mutex False (\<lparr>rm_handle = None\<rparr>, ref_rtt0) = Returns POS_OK w \<and>
     mutex_run (pos_mutex_lock_rtt ref_rtt_mutex False) (pos_mutex_unlock_rtt ref_rtt_mutex False)
       [MLock 1 0, MLock 2 5, MUnlock 2] w = Returns bal (mu', k') \<and> bal 1 = 1 \<and> bal 2 = 0 \<and>
     pos_mutex_lock_rtt ref_rtt_mutex False 2 7 (mu', k') = Returns POS_BAD_MUTEX (mu', k2)"
proof -
  note defs = pos_mutex_init_rtt_def pos_mutex_lock_rtt_def pos_mutex_unlock_rtt_def rtt_handle_def prog_defs
    ref_rtt_mutex_def ref_rtt0_def rr_wait_def pos_hw_in_isr_rtt_def
  obtain w where w: "pos_mutex_init_rtt ref_rtt_mutex False (\<lparr>rm_handle = None\<rparr>, ref_rtt0) = Returns POS_OK w"
    by (simp add: defs)
  let ?mu = "\<lparr>rm_handle = Some 0\<rparr>"
  obtain bal k' where run: "mutex_run (pos_mutex_lock_rtt ref_rtt_mutex False)
      (pos_mutex_unlock_rtt ref_rtt_mutex False) [MLock 1 0, MLock 2 5, MUnlock 2] w = Returns bal (?mu, k')"
      "bal 1 = 1" "bal 2 = 0" "rr_own k' 0 = Some (1, 1)"
    using w by (auto simp: defs)
  moreover have "\<exists>k2. pos_mutex_lock_rtt ref_rtt_mutex False 2 7 (?mu, k') = Returns POS_BAD_MUTEX (?mu, k2)"
    using rtt_mutex_exclusive [OF ref_rtt_mutex.rtt_mutex_kernel_axioms w run(1), of 1 1 1 2 7] run
    by (auto simp: rr_mutex_ok_def)
  ultimately show ?thesis using w by blast
qed

text \<open>The RT-Thread semaphore conserves tokens over any sequence of completed calls on a freshly
  created semaphore, as long as the kernel's maximum cannot be reached.\<close>

theorem rtt_sem_conserves:
  assumes "rtt_sem_kernel api count usable value_max"
    and "pos_sem_init_rtt api False m (sem, k) = Returns e w"
    and "unat m + length (filter (\<lambda>c. c = SGive) cs) \<le> value_max"
    and "sem_run (pos_sem_give_rtt api False) (pos_sem_take_rtt api False) cs w = Returns (g, n) (sem', k')"
  shows "\<exists>h. rsm_handle sem' = Some h \<and> unat m + g = count k' h + n"
  by (rule rtt_sem_kernel.run_conserves [OF assms])

theorem rtt_sem_conserves_witness:
  "\<exists>w sem' k' h. pos_sem_init_rtt ref_rtt_sem False 1 (\<lparr>rsm_handle = None\<rparr>, ref_rtt0) = Returns POS_OK w \<and>
     sem_run (pos_sem_give_rtt ref_rtt_sem False) (pos_sem_take_rtt ref_rtt_sem False)
       [STake 0, STake 3, SGive, SGive] w = Returns (2, 1) (sem', k') \<and> 3 = rr_count k' h + 1"
proof -
  note defs = pos_sem_init_rtt_def pos_sem_give_rtt_def pos_sem_take_rtt_def rtt_handle_def prog_defs
    ref_rtt_sem_def ref_rtt0_def rr_wait_def RT_SEM_VALUE_MAX_def
  obtain w where w: "pos_sem_init_rtt ref_rtt_sem False 1 (\<lparr>rsm_handle = None\<rparr>, ref_rtt0) = Returns POS_OK w"
    by (simp add: defs)
  moreover obtain sem' k' where run: "sem_run (pos_sem_give_rtt ref_rtt_sem False)
      (pos_sem_take_rtt ref_rtt_sem False) [STake 0, STake 3, SGive, SGive] w = Returns (2, 1) (sem', k')"
    using w by (auto simp: defs)
  moreover obtain h where "unat (1 :: u16) + 2 = rr_count k' h + 1"
    using rtt_sem_conserves [OF ref_rtt_sem.rtt_sem_kernel_axioms w _ run]
    by (auto simp: RT_SEM_VALUE_MAX_def)
  then have "3 = rr_count k' h + 1" by simp
  ultimately show ?thesis by blast
qed

end
