(* ===== verification/Freertos_Timer.thy ===== *)
theory Freertos_Timer
  imports Freertos_Sync
begin

text \<open>
  Timers, tasks, time and panic of the FreeRTOS port: \<^verbatim>\<open>targets/freertos/os_timer.c\<close>,
  \<^verbatim>\<open>os_task.c\<close>, \<^verbatim>\<open>os_panic.c\<close> and the inline functions of \<^verbatim>\<open>poski/osal/os_port.h\<close>.
  Timer commands are modelled at the instant the timer task has carried them out.
\<close>

section \<open>Definitions\<close>

subsection \<open>Time\<close>

text \<open>
  The port's \<open>pos_time_t\<close> is FreeRTOS's \<open>TickType_t\<close>, whose width \<open>'w\<close> the kernel's own port chooses: 32 bits on
  the Cortex-M ports, those of \<open>unsigned long\<close> on the GCC/Posix port.  \<open>hz\<close> is \<open>configTICK_RATE_HZ\<close>, which the
  configuration casts to that type; products wrap at its width.  Ticks of 16 bits, which C would promote, are not meant.
\<close>

definition pos_time_ms_to_ticks_freertos :: "'w::len word \<Rightarrow> 'w word \<Rightarrow> 'w word" where
  "pos_time_ms_to_ticks_freertos hz ms = (ms * hz) div 1000"

definition pos_time_ticks_to_ms_freertos :: "'w::len word \<Rightarrow> 'w word \<Rightarrow> 'w word" where
  "pos_time_ticks_to_ms_freertos hz ticks = (ticks * 1000) div hz"

definition pos_time_get_freertos :: "('k \<Rightarrow> 'w::len word) \<Rightarrow> ('w word, 'k) prog" where
  "pos_time_get_freertos xTaskGetTickCountFromISR = c_gets xTaskGetTickCountFromISR"

definition pos_time_get_ms_freertos :: "'w::len word \<Rightarrow> ('k \<Rightarrow> 'w word) \<Rightarrow> ('w word, 'k) prog" where
  "pos_time_get_ms_freertos hz xTaskGetTickCountFromISR =
     c_bind (pos_time_get_freertos xTaskGetTickCountFromISR)
       (\<lambda>t. c_return (pos_time_ticks_to_ms_freertos hz t))"

subsection \<open>Timers\<close>

text \<open>\<open>'n\<close> is \<open>TickType_t\<close>.\<close>

record ('h, 'o, 'n, 'k) freertos_timer_api =
  xTimerCreate :: "string \<Rightarrow> 'n \<Rightarrow> bool \<Rightarrow> 'o \<Rightarrow> ('h option, 'k) prog"
  xTimerStop :: "'h \<Rightarrow> 'n \<Rightarrow> (int, 'k) prog"
  xTimerChangePeriod :: "'h \<Rightarrow> 'n \<Rightarrow> 'n \<Rightarrow> (int, 'k) prog"
  xTimerReset :: "'h \<Rightarrow> 'n \<Rightarrow> (int, 'k) prog"
  xTimerStopFromISR :: "'h \<Rightarrow> int \<Rightarrow> (int \<times> int, 'k) prog"
  xTimerChangePeriodFromISR :: "'h \<Rightarrow> 'n \<Rightarrow> int \<Rightarrow> (int \<times> int, 'k) prog"
  xTimerResetFromISR :: "'h \<Rightarrow> int \<Rightarrow> (int \<times> int, 'k) prog"
  timer_portYIELD_FROM_ISR :: "bool \<Rightarrow> (unit, 'k) prog"
  xTimerGetExpiryTime :: "'h \<Rightarrow> ('n, 'k) prog"
  xTimerIsTimerActive :: "'h \<Rightarrow> (int, 'k) prog"

record ('h, 'f, 'p) pos_timer_freertos =
  ft_handle :: "'h option"
  ft_func :: "'f option"
  ft_arg :: "'p option"

definition pos_timer_init_freertos ::
    "('h, 'o, 'w::len word, 'k) freertos_timer_api \<Rightarrow> 'o \<Rightarrow> 'f option \<Rightarrow> 'p option \<Rightarrow>
     (pos_error, ('h, 'f, 'p) pos_timer_freertos \<times> 'k) prog" where
  "pos_timer_init_freertos api timer cb arg =
     c_then (upd_obj (\<lambda>_. \<lparr>ft_handle = None, ft_func = None, ft_arg = None\<rparr>))
     (c_then (upd_obj (\<lambda>t. t\<lparr>ft_func := cb, ft_arg := arg\<rparr>))
     (c_bind (kcall (xTimerCreate api ''timer'' 1 False timer)) (\<lambda>h.
      c_then (upd_obj (\<lambda>t. t\<lparr>ft_handle := h\<rparr>)) (c_return POS_OK))))"

text \<open>
  \<open>pos_timer_stop\<close> returns the kernel's status as if it were an error code: the result is the
  enumerator with that number, if there is one.
\<close>

definition pos_timer_stop_freertos ::
    "('h, 'o, 'w::len word, 'k) freertos_timer_api \<Rightarrow> bool \<Rightarrow>
     (pos_error option, ('h, 'f, 'p) pos_timer_freertos \<times> 'k) prog" where
  "pos_timer_stop_freertos api tm_null =
     c_then (c_assert (\<not> tm_null))
       (c_bind (assert_handle ft_handle) (\<lambda>h.
        c_bind (kcall (xTimerStop api h portMAX_DELAY)) (\<lambda>ret. c_return (pos_error_of_int ret))))"

text \<open>The callback: the timer's identity is the struct's address, \<open>timer_null\<close> if it is null.\<close>

definition pos_timer_cb_freertos ::
    "('h, 'o, 'w::len word, 'k) freertos_timer_api \<Rightarrow>
     ('f \<Rightarrow> 'p option \<Rightarrow> (unit, ('h, 'f, 'p) pos_timer_freertos \<times> 'k) prog) \<Rightarrow> bool \<Rightarrow>
     (unit, ('h, 'f, 'p) pos_timer_freertos \<times> 'k) prog" where
  "pos_timer_cb_freertos api run_cb timer_null =
     c_then (c_assert (\<not> timer_null))
       (c_then (pos_timer_stop_freertos api timer_null)
       (c_bind (get_obj (\<lambda>t. (ft_func t, ft_arg t))) (\<lambda>(func, arg).
          case func of None \<Rightarrow> c_stop Undefined_Behaviour | Some f \<Rightarrow> run_cb f arg)))"

text \<open>
  \<open>pos_timer_start\<close>: the test \<open>ticks < 0\<close> on an unsigned value never holds; the statuses of
  the timer commands are ignored; the handle is passed on unchecked.
\<close>

definition pos_timer_start_freertos ::
    "'k isr_hw \<Rightarrow> ('h, 'o, 'w::len word, 'k) freertos_timer_api \<Rightarrow> int \<times> int \<times> int \<Rightarrow> 'w word \<Rightarrow>
     (pos_error, ('h, 'f, 'p) pos_timer_freertos \<times> 'k) prog" where
  "pos_timer_start_freertos hw api junk ticks0 =
     (if uint ticks0 < 0 then c_return POS_INVALID_PARAM
      else
        (let ticks = (if ticks0 = 0 then 1 else ticks0); (junk1, junk2, junk3) = junk in
         c_bind (kcall (c_gets (pos_hw_in_isr_freertos hw))) (\<lambda>in_isr.
         c_bind (get_obj ft_handle) (\<lambda>tm.
           case tm of
             None \<Rightarrow> c_stop Undefined_Behaviour
           | Some h \<Rightarrow>
               if in_isr then
                 c_bind (kcall (xTimerStopFromISR api h junk1)) (\<lambda>(_, woken1).
                 c_bind (kcall (xTimerChangePeriodFromISR api h ticks junk2)) (\<lambda>(_, woken2).
                 c_bind (kcall (xTimerResetFromISR api h junk3)) (\<lambda>(_, woken3).
                 c_then (kcall (timer_portYIELD_FROM_ISR api (woken1 \<noteq> 0 \<or> woken2 \<noteq> 0 \<or> woken3 \<noteq> 0)))
                   (c_return POS_OK))))
               else
                 c_then (kcall (xTimerStop api h portMAX_DELAY))
                 (c_then (kcall (xTimerChangePeriod api h ticks portMAX_DELAY))
                 (c_then (kcall (xTimerReset api h portMAX_DELAY))
                   (c_return POS_OK)))))))"

definition pos_timer_start_ms_freertos ::
    "'k isr_hw \<Rightarrow> ('h, 'o, 'w::len word, 'k) freertos_timer_api \<Rightarrow> 'w word \<Rightarrow> int \<times> int \<times> int \<Rightarrow> 'w word \<Rightarrow>
     (pos_error, ('h, 'f, 'p) pos_timer_freertos \<times> 'k) prog" where
  "pos_timer_start_ms_freertos hw api hz junk duration =
     pos_timer_start_freertos hw api junk (pos_time_ms_to_ticks_freertos hz duration)"

definition pos_timer_remaining_ticks_freertos ::
    "('h, 'o, 'w::len word, 'k) freertos_timer_api \<Rightarrow> 'w word \<Rightarrow>
     ('w word, ('h, 'f, 'p) pos_timer_freertos \<times> 'k) prog" where
  "pos_timer_remaining_ticks_freertos api now =
     c_bind (get_obj ft_handle) (\<lambda>tm.
       case tm of
         None \<Rightarrow> c_stop Undefined_Behaviour
       | Some h \<Rightarrow>
           c_bind (kcall (xTimerGetExpiryTime api h)) (\<lambda>ex.
             c_return (if now < ex then ex - now else 0)))"

definition pos_timer_is_active_freertos ::
    "('h, 'o, 'w::len word, 'k) freertos_timer_api \<Rightarrow> bool \<Rightarrow> (bool, ('h, 'f, 'p) pos_timer_freertos \<times> 'k) prog" where
  "pos_timer_is_active_freertos api tm_null =
     c_then (c_assert (\<not> tm_null))
       (c_bind (assert_handle ft_handle) (\<lambda>h.
        c_bind (kcall (xTimerIsTimerActive api h)) (\<lambda>a. c_return (a = 1))))"

definition pos_timer_get_ticks_freertos ::
    "('h, 'o, 'w::len word, 'k) freertos_timer_api \<Rightarrow> bool \<Rightarrow> ('w word, ('h, 'f, 'p) pos_timer_freertos \<times> 'k) prog" where
  "pos_timer_get_ticks_freertos api tm_null =
     c_then (c_assert (\<not> tm_null))
       (c_bind (assert_handle ft_handle) (\<lambda>h. kcall (xTimerGetExpiryTime api h)))"

definition pos_timer_arg_get_freertos ::
    "bool \<Rightarrow> ('p option, ('h, 'f, 'p) pos_timer_freertos \<times> 'k) prog" where
  "pos_timer_arg_get_freertos timer_null = c_then (c_assert (\<not> timer_null)) (get_obj ft_arg)"

definition pos_timer_arg_set_freertos ::
    "bool \<Rightarrow> 'p option \<Rightarrow> (unit, ('h, 'f, 'p) pos_timer_freertos \<times> 'k) prog" where
  "pos_timer_arg_set_freertos timer_null arg =
     c_then (c_assert (\<not> timer_null)) (upd_obj (\<lambda>t. t\<lparr>ft_arg := arg\<rparr>))"

subsection \<open>Tasks\<close>

text \<open>
  \<open>xTaskCreate\<close> gets the stack depth in words of \<open>sizeof(pos_base_t)\<close> bytes and the struct
  as the argument of \<open>pos_task_dispatch\<close>; its results are the status and the handle.
\<close>

record ('h, 'n, 'k) freertos_task_api =
  xTaskCreate :: "string option \<Rightarrow> nat \<Rightarrow> u8 \<Rightarrow> (int \<times> 'h option, 'k) prog"
  taskYIELD :: "(unit, 'k) prog"
  vTaskDelay :: "'n \<Rightarrow> (unit, 'k) prog"
  xTaskGetCurrentTaskHandle :: "'k \<Rightarrow> 'h"
  vTaskStartScheduler :: "(unit, 'k) prog"
  scheduler_not_started :: "'k \<Rightarrow> bool"

record ('h, 'f, 'p) pos_task_freertos =
  ftk_handle :: "'h option"
  ftk_func :: "'f option"
  ftk_arg :: "'p option"

definition pos_task_dispatch_freertos ::
    "('f \<Rightarrow> 'p option \<Rightarrow> (unit, 'k) prog) \<Rightarrow> bool \<Rightarrow> (unit, ('h, 'f, 'p) pos_task_freertos \<times> 'k) prog" where
  "pos_task_dispatch_freertos run_func task_null =
     c_then (c_assert (\<not> task_null))
       (c_bind (assert_handle ftk_func) (\<lambda>func.
        c_bind (get_obj ftk_arg) (\<lambda>arg. kcall (run_func func arg))))"

definition pos_task_init_freertos ::
    "('h, 'w::len word, 'k) freertos_task_api \<Rightarrow> nat \<Rightarrow> bool \<Rightarrow> string option \<Rightarrow> 'f option \<Rightarrow> 'p option \<Rightarrow> u8 \<Rightarrow> u16 \<Rightarrow>
     (pos_error, ('h, 'f, 'p) pos_task_freertos \<times> 'k) prog" where
  "pos_task_init_freertos api sizeof_base task_null name func arg prio stack_size =
     (if task_null \<or> func = None then c_return POS_INVALID_PARAM
      else
        c_then (upd_obj (\<lambda>t. t\<lparr>ftk_func := func\<rparr>))
        (c_then (upd_obj (\<lambda>t. t\<lparr>ftk_arg := arg\<rparr>))
        (c_bind (kcall (xTaskCreate api name (unat stack_size div sizeof_base) prio)) (\<lambda>(err, h).
         c_then (upd_obj (\<lambda>t. if err = pdPASS then t\<lparr>ftk_handle := h\<rparr> else t))
           (c_return (if err = pdPASS then POS_OK else POS_ENOMEM))))))"

definition pos_task_yield_freertos :: "('h, 'w::len word, 'k) freertos_task_api \<Rightarrow> (unit, 'k) prog" where
  "pos_task_yield_freertos api = taskYIELD api"

definition pos_task_sleep_freertos :: "('h, 'w::len word, 'k) freertos_task_api \<Rightarrow> 'w word \<Rightarrow> (unit, 'k) prog" where
  "pos_task_sleep_freertos api ticks = vTaskDelay api ticks"

definition pos_task_sleep_ms_freertos :: "('h, 'w::len word, 'k) freertos_task_api \<Rightarrow> 'w word \<Rightarrow> 'w word \<Rightarrow> (unit, 'k) prog" where
  "pos_task_sleep_ms_freertos api hz ms =
     pos_task_sleep_freertos api (pos_time_ms_to_ticks_freertos hz ms)"

definition pos_get_current_task_id_freertos :: "('h, 'w::len word, 'k) freertos_task_api \<Rightarrow> ('h, 'k) prog" where
  "pos_get_current_task_id_freertos api = c_gets (xTaskGetCurrentTaskHandle api)"

definition pos_sched_start_freertos :: "('h, 'w::len word, 'k) freertos_task_api \<Rightarrow> (unit, 'k) prog" where
  "pos_sched_start_freertos api = vTaskStartScheduler api"

definition pos_os_started_freertos :: "('h, 'w::len word, 'k) freertos_task_api \<Rightarrow> (bool, 'k) prog" where
  "pos_os_started_freertos api = c_gets (\<lambda>k. \<not> scheduler_not_started api k)"

subsection \<open>Panic\<close>

text \<open>The world is the text printed so far; \<open>assert(0)\<close> stops the program.\<close>

definition pos_panic_freertos :: "string option \<Rightarrow> (unit, string) prog" where
  "pos_panic_freertos msg =
     c_then
       (case msg of
          None \<Rightarrow> c_return ()
        | Some m \<Rightarrow> c_modify (\<lambda>out. out @ ''POSKI PANIC: '' @ m @ [CHR 0x0A]))
       (c_then (c_assert False) (c_stop Halted))"

subsection \<open>A reference model of the kernel's timers\<close>

record ref_ftimers =
  rft_period :: "nat \<Rightarrow> u32"
  rft_expiry :: "nat \<Rightarrow> u32"
  rft_active :: "nat \<Rightarrow> bool"
  rft_now :: u32

definition rft_hw :: "ref_ftimers isr_hw" where
  "rft_hw = \<lparr>hw_nrf5 = False, hw_icsr = (\<lambda>k. 0), hw_vectactive_msk = 511\<rparr>"

definition rft_stop :: "nat \<Rightarrow> ref_ftimers \<Rightarrow> ref_ftimers" where
  "rft_stop h k = k\<lparr>rft_active := (rft_active k)(h := False)\<rparr>"

definition rft_run :: "nat \<Rightarrow> u32 \<Rightarrow> ref_ftimers \<Rightarrow> ref_ftimers" where
  "rft_run h p k =
     k\<lparr>rft_period := (rft_period k)(h := p), rft_active := (rft_active k)(h := True),
       rft_expiry := (rft_expiry k)(h := rft_now k + p)\<rparr>"

definition ref_freertos_timer :: "(nat, nat, u32, ref_ftimers) freertos_timer_api" where
  "ref_freertos_timer =
     \<lparr>xTimerCreate = (\<lambda>nm p reload o' k.
        Returns (Some o') (k\<lparr>rft_period := (rft_period k)(o' := p), rft_active := (rft_active k)(o' := False)\<rparr>)),
      xTimerStop = (\<lambda>h d k. Returns pdPASS (rft_stop h k)),
      xTimerChangePeriod = (\<lambda>h p d k. Returns pdPASS (rft_run h p k)),
      xTimerReset = (\<lambda>h d k. Returns pdPASS (rft_run h (rft_period k h) k)),
      xTimerStopFromISR = (\<lambda>h woken k. Returns (pdPASS, woken) (rft_stop h k)),
      xTimerChangePeriodFromISR = (\<lambda>h p woken k. Returns (pdPASS, woken) (rft_run h p k)),
      xTimerResetFromISR = (\<lambda>h woken k. Returns (pdPASS, woken) (rft_run h (rft_period k h) k)),
      timer_portYIELD_FROM_ISR = (\<lambda>b. c_return ()),
      xTimerGetExpiryTime = (\<lambda>h. c_gets (\<lambda>k. rft_expiry k h)),
      xTimerIsTimerActive = (\<lambda>h. c_gets (\<lambda>k. if rft_active k h then 1 else 0))\<rparr>"

section \<open>The documented behaviour of the kernel's timers\<close>

text \<open>
  \<open>expiry k h\<close> is the tick at which an active timer expires (\<open>None\<close>: dormant), \<open>period k h\<close>
  its period.  A command sent with an unlimited wait is accepted; changing the period
  also starts the timer; \<open>usable k h\<close> says the timer exists and the caller is a task.
\<close>

locale freertos_timer_kernel =
  fixes hw :: "'k isr_hw"
    and api :: "('h, 'o, 'w::len word, 'k) freertos_timer_api"
    and expiry :: "'k \<Rightarrow> 'h \<Rightarrow> 'w word option"
    and period :: "'k \<Rightarrow> 'h \<Rightarrow> 'w word"
    and tick :: "'k \<Rightarrow> 'w word"
    and usable :: "'k \<Rightarrow> 'h \<Rightarrow> bool"
  assumes timer_task_level: "usable k h \<Longrightarrow> \<not> pos_hw_in_isr_freertos hw k"
    and stop_dormant:
      "usable k h \<Longrightarrow> \<exists>k'. xTimerStop api h portMAX_DELAY k = Returns pdPASS k' \<and> usable k' h \<and>
         expiry k' h = None \<and> tick k' = tick k"
    and change_period:
      "usable k h \<Longrightarrow> 0 < p \<Longrightarrow> \<exists>k'. xTimerChangePeriod api h p portMAX_DELAY k = Returns pdPASS k' \<and>
         usable k' h \<and> expiry k' h = Some (tick k + p) \<and> period k' h = p \<and> tick k' = tick k"
    and reset_restarts:
      "usable k h \<Longrightarrow> \<exists>k'. xTimerReset api h portMAX_DELAY k = Returns pdPASS k' \<and> usable k' h \<and>
         expiry k' h = Some (tick k + period k h) \<and> period k' h = period k h \<and> tick k' = tick k"
    and expiry_time:
      "usable k h \<Longrightarrow> expiry k h = Some e \<Longrightarrow> xTimerGetExpiryTime api h k = Returns e k"
    and timer_active:
      "usable k h \<Longrightarrow> xTimerIsTimerActive api h k = Returns (if expiry k h = None then 0 else 1) k"
begin

lemma start_runs:
  assumes "ft_handle t = Some h" and "usable k h"
  shows "\<exists>k'. pos_timer_start_freertos hw api junk ticks (t, k) = Returns POS_OK (t, k') \<and> usable k' h \<and>
              expiry k' h = Some (tick k + max 1 ticks) \<and> tick k' = tick k"
proof -
  let ?n = "if ticks = 0 then 1 else ticks"
  have "1 \<le> ticks" if "ticks \<noteq> 0" using that by (simp add: word_le_nat_alt unat_gt_0 Suc_le_eq)
  then have n: "?n = max 1 ticks" "0 < ?n" by (auto simp: max_def word_gt_0)
  obtain k1 where k1: "xTimerStop api h portMAX_DELAY k = Returns pdPASS k1" "usable k1 h" "tick k1 = tick k"
    using stop_dormant [OF assms(2)] by blast
  obtain k2 where k2: "xTimerChangePeriod api h ?n portMAX_DELAY k1 = Returns pdPASS k2" "usable k2 h"
      "period k2 h = ?n" "tick k2 = tick k1"
    using change_period [OF k1(2) n(2)] by blast
  obtain k3 where k3: "xTimerReset api h portMAX_DELAY k2 = Returns pdPASS k3" "usable k3 h"
      "expiry k3 h = Some (tick k2 + period k2 h)" "tick k3 = tick k2"
    using reset_restarts [OF k2(2)] by blast
  have "pos_timer_start_freertos hw api junk ticks (t, k) = Returns POS_OK (t, k3)"
    using timer_task_level [OF assms(2)] assms(1) k1(1) k2(1) k3(1)
    by (cases junk) (simp add: pos_timer_start_freertos_def Let_def prog_defs)
  then show ?thesis using k1 k2 k3 n by auto
qed

lemma stop_status:
  assumes "ft_handle t = Some h" and "usable k h"
  shows "\<exists>k'. pos_timer_stop_freertos api False (t, k) = Returns (Some POS_ENOMEM) (t, k') \<and>
              usable k' h \<and> expiry k' h = None"
  using stop_dormant [OF assms(2)] pos_error_of_int_code [of POS_ENOMEM] assms(1)
  by (auto simp: pos_timer_stop_freertos_def assert_handle_def prog_defs)

lemma start_remaining:
  assumes "ft_handle t = Some h" and "usable k h"
    and "pos_timer_start_freertos hw api junk ticks (t, k) = Returns e (t', k')"
  shows "pos_timer_remaining_ticks_freertos api (tick k) (t', k') =
           Returns (if uint (tick k) + uint (max 1 ticks) < 2 ^ LENGTH('w) then max 1 ticks else 0) (t', k')"
proof -
  let ?n = "max 1 ticks" and ?now = "tick k"
  have s: "t' = t" "usable k' h" "expiry k' h = Some (?now + ?n)"
    using start_runs [OF assms(1,2), of junk ticks] assms(3) by auto
  have "?n \<noteq> 0" by (auto simp: max_def word_le_def split: if_splits)
  then have "?now < ?now + ?n \<longleftrightarrow> uint ?now + uint ?n < 2 ^ LENGTH('w)"
    using no_olen_add [of ?now ?n] by (auto simp only: order_less_le) (metis add_cancel_right_right)
  then show ?thesis
    using s assms(1) expiry_time [OF s(2,3)]
    by (simp add: pos_timer_remaining_ticks_freertos_def prog_defs)
qed

end

interpretation ref_freertos_timer: freertos_timer_kernel rft_hw ref_freertos_timer
  "\<lambda>k h. if rft_active k h then Some (rft_expiry k h) else None" rft_period rft_now "\<lambda>k h. True"
  by unfold_locales
    (auto simp: ref_freertos_timer_def rft_hw_def pos_hw_in_isr_freertos_def rft_stop_def rft_run_def
      prog_defs split: if_splits)

lemma unat_1000: "32 \<le> LENGTH('w::len) \<Longrightarrow> unat (1000 :: 'w word) = 1000"
proof -
  assume "32 \<le> LENGTH('w)"
  then have "(2 :: nat) ^ 32 \<le> 2 ^ LENGTH('w)" by (intro power_increasing) simp_all
  then have "(1000 :: nat) < 2 ^ LENGTH('w)" by simp
  then show ?thesis by (simp add: unat_numeral take_bit_nat_eq_self)
qed

lemma unat_mul_div:
  fixes x y z :: "'w::len word"
  shows "unat ((x * y) div z) = (unat x * unat y mod 2 ^ LENGTH('w)) div unat z"
  by (simp add: unat_div unat_word_ariths)

section \<open>Properties\<close>

text \<open>Starting a FreeRTOS timer restarts it with the requested period (one tick for zero); asked at
  once, \<open>pos_timer_remaining_ticks\<close> answers that period, but answers zero when the expiry tick
  wraps around.\<close>

theorem freertos_timer_start:
  fixes ticks :: "'w::len word"
  assumes "freertos_timer_kernel hw api expiry period tick usable"
    and "ft_handle t = Some h" and "usable k h"
  shows "\<exists>k'. pos_timer_start_freertos hw api junk ticks (t, k) = Returns POS_OK (t, k') \<and>
              expiry k' h = Some (tick k + max 1 ticks) \<and>
              pos_timer_remaining_ticks_freertos api (tick k) (t, k') =
                Returns (if uint (tick k) + uint (max 1 ticks) < 2 ^ LENGTH('w) then max 1 ticks else 0) (t, k')"
  using freertos_timer_kernel.start_runs [OF assms, of junk ticks]
    freertos_timer_kernel.start_remaining [OF assms] by blast

theorem freertos_timer_start_witness:
  "\<exists>k'. pos_timer_start_freertos rft_hw ref_freertos_timer (0, 0, 0) 100
      (\<lparr>ft_handle = Some 2, ft_func = Some (0::nat), ft_arg = None :: nat option\<rparr>,
       \<lparr>rft_period = \<lambda>_. 1, rft_expiry = \<lambda>_. 0, rft_active = \<lambda>_. False, rft_now = 0xFFFFFFF0\<rparr>) =
      Returns POS_OK (\<lparr>ft_handle = Some 2, ft_func = Some 0, ft_arg = None\<rparr>, k') \<and>
     pos_timer_remaining_ticks_freertos ref_freertos_timer 0xFFFFFFF0
       (\<lparr>ft_handle = Some 2, ft_func = Some (0::nat), ft_arg = None :: nat option\<rparr>, k') =
       Returns 0 (\<lparr>ft_handle = Some 2, ft_func = Some 0, ft_arg = None\<rparr>, k')"
  using freertos_timer_start [OF ref_freertos_timer.freertos_timer_kernel_axioms,
      where t = "\<lparr>ft_handle = Some 2, ft_func = Some (0::nat), ft_arg = None :: nat option\<rparr>" and h = 2
        and k = "\<lparr>rft_period = \<lambda>_. 1, rft_expiry = \<lambda>_. 0, rft_active = \<lambda>_. False, rft_now = 0xFFFFFFF0\<rparr>"
        and junk = "(0, 0, 0)" and ticks = 100]
  by (auto simp: max_def)

text \<open>Stopping a FreeRTOS timer works but reports the wrong code: the timer is dormant afterwards,
  and the result, the kernel's \<open>pdPASS\<close>, is the number of \<open>POS_ENOMEM\<close>.\<close>

theorem freertos_timer_stop_status:
  assumes "freertos_timer_kernel hw api expiry period tick usable"
    and "ft_handle t = Some h" and "usable k h"
  shows "\<exists>k'. pos_timer_stop_freertos api False (t, k) = Returns (Some POS_ENOMEM) (t, k') \<and>
              expiry k' h = None"
  using freertos_timer_kernel.stop_status [OF assms] by blast

theorem freertos_timer_stop_status_witness:
  "\<exists>k'. pos_timer_stop_freertos ref_freertos_timer False
      (\<lparr>ft_handle = Some 2, ft_func = Some (0::nat), ft_arg = None :: nat option\<rparr>,
       \<lparr>rft_period = \<lambda>_. 1, rft_expiry = \<lambda>_. 0, rft_active = \<lambda>_. True, rft_now = 0\<rparr>) =
     Returns (Some POS_ENOMEM) (\<lparr>ft_handle = Some 2, ft_func = Some 0, ft_arg = None\<rparr>, k') \<and> \<not> rft_active k' 2"
  using freertos_timer_stop_status [OF ref_freertos_timer.freertos_timer_kernel_axioms,
      of "\<lparr>ft_handle = Some 2, ft_func = Some (0::nat), ft_arg = None :: nat option\<rparr>" 2
        "\<lparr>rft_period = \<lambda>_. 1, rft_expiry = \<lambda>_. 0, rft_active = \<lambda>_. True, rft_now = 0\<rparr>"]
  by (auto split: if_splits)

text \<open>The tick conversions of the FreeRTOS port compute with the product modulo the range of \<open>TickType_t\<close>: they are the
  exact quotients while the product fits, and the two undo each other at a rate of 1000 ticks
  per second while 1000 times the milliseconds fit.\<close>

theorem freertos_tick_conversions:
  fixes ms ticks hz :: "'w::len word"
  assumes "32 \<le> LENGTH('w)"
  shows "unat (pos_time_ms_to_ticks_freertos hz ms) = (unat ms * unat hz mod 2 ^ LENGTH('w)) div 1000 \<and>
   unat (pos_time_ticks_to_ms_freertos hz ticks) = (unat ticks * 1000 mod 2 ^ LENGTH('w)) div unat hz \<and>
   (unat ms * 1000 < 2 ^ LENGTH('w) \<longrightarrow>
     pos_time_ticks_to_ms_freertos 1000 (pos_time_ms_to_ticks_freertos 1000 ms) = ms)"
proof -
  note u = unat_1000 [OF assms]
  have c: "unat (pos_time_ms_to_ticks_freertos hz ms) = (unat ms * unat hz mod 2 ^ LENGTH('w)) div 1000"
    for hz ms :: "'w word" by (simp only: pos_time_ms_to_ticks_freertos_def unat_mul_div u)
  have d: "unat (pos_time_ticks_to_ms_freertos hz ticks) = (unat ticks * 1000 mod 2 ^ LENGTH('w)) div unat hz"
    for hz ticks :: "'w word" by (simp only: pos_time_ticks_to_ms_freertos_def unat_mul_div u)
  have "pos_time_ticks_to_ms_freertos 1000 (pos_time_ms_to_ticks_freertos 1000 ms) = ms"
    if "unat ms * 1000 < 2 ^ LENGTH('w)"
  proof (rule unsigned_word_eqI)
    from that have "unat (pos_time_ms_to_ticks_freertos 1000 ms) = unat ms"
      unfolding c u by simp
    with that show "unat (pos_time_ticks_to_ms_freertos 1000 (pos_time_ms_to_ticks_freertos 1000 ms)) = unat ms"
      unfolding d u by simp
  qed
  with c d show ?thesis by blast
qed

theorem freertos_tick_conversions_witness:
  "pos_time_ticks_to_ms_freertos 1000 (pos_time_ms_to_ticks_freertos 1000 4294967) = (4294967 :: 32 word) \<and>
   unat (pos_time_ms_to_ticks_freertos 1000 (4294968 :: 32 word)) = 0 \<and>
   unat (pos_time_ms_to_ticks_freertos 1000 (4294968 :: 64 word)) = 4294968"
  using freertos_tick_conversions [of 1000 "4294967 :: 32 word" 0] freertos_tick_conversions [of 1000 "4294968 :: 32 word" 0]
    freertos_tick_conversions [of 1000 "4294968 :: 64 word" 0]
  by simp

text \<open>A FreeRTOS task runs what it was created for: after \<open>pos_task_init\<close> the entry point
  calls the given function with the given argument, and no assertion fails.\<close>

theorem freertos_task_dispatch:
  assumes "pos_task_init_freertos api sizeof_base False name (Some f) arg prio stack_size (t, k) =
             Returns e (t', k')"
  shows "pos_task_dispatch_freertos run_func False (t', k2) =
           (case run_func f arg k2 of Returns r k3 \<Rightarrow> Returns r (t', k3) | Stops s \<Rightarrow> Stops s)"
proof -
  have "ftk_func t' = Some f \<and> ftk_arg t' = arg"
    using assms by (auto simp: pos_task_init_freertos_def prog_defs split: outcome.splits if_splits)
  then show ?thesis
    by (simp add: pos_task_dispatch_freertos_def assert_handle_def prog_defs split: outcome.split)
qed

theorem freertos_task_dispatch_witness:
  "\<exists>t'. pos_task_init_freertos
     \<lparr>xTaskCreate = (\<lambda>nm d p k. Returns (pdPASS, Some (0::nat)) k), taskYIELD = c_return (),
      vTaskDelay = (\<lambda>n :: u32. c_return ()), xTaskGetCurrentTaskHandle = (\<lambda>k. 0), vTaskStartScheduler = c_return (),
      scheduler_not_started = (\<lambda>k. False)\<rparr> 4 False (Some ''t'') (Some (5::nat)) (Some (6::nat)) 1 512
     (\<lparr>ftk_handle = None, ftk_func = None, ftk_arg = None\<rparr>, [] :: nat list) = Returns POS_OK (t', []) \<and>
   pos_task_dispatch_freertos (\<lambda>f a log. Returns () (f # log)) False (t', []) = Returns () (t', [5])"
proof -
  let ?api = "\<lparr>xTaskCreate = (\<lambda>nm d p k. Returns (pdPASS, Some (0::nat)) k), taskYIELD = c_return (),
      vTaskDelay = (\<lambda>n :: u32. c_return ()), xTaskGetCurrentTaskHandle = (\<lambda>k. 0), vTaskStartScheduler = c_return (),
      scheduler_not_started = (\<lambda>k. False)\<rparr>"
  obtain t' where t': "pos_task_init_freertos ?api 4 False (Some ''t'') (Some (5::nat)) (Some (6::nat)) 1 512
     (\<lparr>ftk_handle = None, ftk_func = None, ftk_arg = None\<rparr>, [] :: nat list) = Returns POS_OK (t', [])"
    by (simp add: pos_task_init_freertos_def prog_defs)
  from freertos_task_dispatch [OF t', of "\<lambda>f a log. Returns () (f # log)" "[]"] t' show ?thesis by auto
qed

end
