(* ===== verification/Rtt_Port.thy ===== *)
theory Rtt_Port
  imports Rtt_Sync
begin

text \<open>
  Queues, timers, tasks, time and panic of the RT-Thread port: \<^verbatim>\<open>targets/rt-thread/os_queue.c\<close>,
  \<^verbatim>\<open>os_timer.c\<close>, \<^verbatim>\<open>os_task.c\<close>, \<^verbatim>\<open>os_panic.c\<close> and the inline functions of
  \<^verbatim>\<open>poski/osal/os_port.h\<close>.
\<close>

section \<open>Definitions\<close>

subsection \<open>Queues\<close>

text \<open>
  \<open>mq_msg_size k h\<close> is the field \<open>handle->msg_size\<close> of the kernel's queue object.  A receive
  takes the caller's area and the number of bytes to copy.
\<close>

record ('h, 'k) rtt_queue_api =
  rt_mq_create :: "string \<Rightarrow> u32 \<Rightarrow> u32 \<Rightarrow> ('h option, 'k) prog"
  rt_mq_recv :: "'h \<Rightarrow> bytes \<Rightarrow> nat \<Rightarrow> int \<Rightarrow> (int \<times> bytes, 'k) prog"
  rt_mq_send :: "'h \<Rightarrow> bytes \<Rightarrow> nat \<Rightarrow> (int, 'k) prog"
  rt_mq_delete :: "'h \<Rightarrow> (int, 'k) prog"
  mq_msg_size :: "'k \<Rightarrow> 'h \<Rightarrow> nat"

record 'h pos_queue_rtt =
  rq_handle :: "'h option"

definition pos_queue_init_rtt ::
    "('h, 'k) rtt_queue_api \<Rightarrow> bool \<Rightarrow> u32 \<Rightarrow> u32 \<Rightarrow> (pos_error, 'h pos_queue_rtt \<times> 'k) prog" where
  "pos_queue_init_rtt api msgq_null msg_size max_msgs =
     (if msgq_null then c_return POS_INVALID_PARAM
      else
        c_bind (kcall (rt_mq_create api ''chip_msgq'' msg_size max_msgs)) (\<lambda>h.
        c_then (upd_obj (\<lambda>q. q\<lparr>rq_handle := h\<rparr>))
        (c_then (c_assert (h \<noteq> None))
          (c_return (if h = None then POS_ERROR else POS_OK)))))"

definition pos_queue_get_rtt ::
    "('h, 'k) rtt_queue_api \<Rightarrow> bytes \<Rightarrow> pos_time \<Rightarrow> (pos_error \<times> bytes, 'h pos_queue_rtt \<times> 'k) prog" where
  "pos_queue_get_rtt api data tmo =
     c_bind (rtt_handle rq_handle) (\<lambda>h.
     c_bind (kcall (c_gets (\<lambda>k. mq_msg_size api k h))) (\<lambda>sz.
     c_bind (kcall (rt_mq_recv api h data sz (sint tmo))) (\<lambda>(ret, data').
     c_return (if ret = RT_EOK then POS_OK else POS_ERROR, data'))))"

definition pos_queue_put_rtt ::
    "('h, 'k) rtt_queue_api \<Rightarrow> bool \<Rightarrow> bytes \<Rightarrow> (pos_error, 'h pos_queue_rtt \<times> 'k) prog" where
  "pos_queue_put_rtt api queue_null data =
     (if queue_null then c_return POS_INVALID_PARAM
      else
        c_bind (rtt_handle rq_handle) (\<lambda>h.
        c_bind (kcall (c_gets (\<lambda>k. mq_msg_size api k h))) (\<lambda>sz.
        c_bind (kcall (rt_mq_send api h data sz)) (\<lambda>ret.
        c_return (if ret \<noteq> RT_EOK then POS_ERROR else POS_OK)))))"

definition pos_queue_deinit_rtt ::
    "('h, 'k) rtt_queue_api \<Rightarrow> bool \<Rightarrow> (pos_error, 'h pos_queue_rtt \<times> 'k) prog" where
  "pos_queue_deinit_rtt api queue_null =
     (if queue_null then c_return POS_OK
      else
        c_bind (get_obj rq_handle) (\<lambda>h.
          case h of
            None \<Rightarrow> c_return POS_OK
          | Some q \<Rightarrow>
              c_then (kcall (rt_mq_delete api q))
              (c_then (upd_obj (\<lambda>o'. o'\<lparr>rq_handle := None\<rparr>)) (c_return POS_OK))))"

definition pos_queue_inited_rtt :: "'h pos_queue_rtt \<Rightarrow> int" where
  "pos_queue_inited_rtt q = (if rq_handle q \<noteq> None then 1 else 0)"

subsection \<open>Time\<close>

definition pos_time_get_rtt :: "('k \<Rightarrow> u32) \<Rightarrow> (pos_time, 'k) prog" where
  "pos_time_get_rtt rt_tick_get = c_gets rt_tick_get"

definition pos_time_get_ms_rtt :: "('k \<Rightarrow> u32) \<Rightarrow> (pos_time, 'k) prog" where
  "pos_time_get_ms_rtt rt_tick_get_millisecond = c_gets rt_tick_get_millisecond"

definition pos_time_ticks_to_ms_rtt :: "u32 \<Rightarrow> pos_time \<Rightarrow> pos_time" where
  "pos_time_ticks_to_ms_rtt hz ticks = (ticks * 1000) div hz"

definition pos_time_ms_to_ticks_rtt :: "u32 \<Rightarrow> pos_time \<Rightarrow> pos_time" where
  "pos_time_ms_to_ticks_rtt hz ms = (ms * hz) div 1000"

subsection \<open>Timers\<close>

text \<open>The commands of \<open>rt_timer_control\<close> are separate fields.\<close>

record ('h, 'f, 'p, 'k) rtt_timer_api =
  rt_timer_create :: "string \<Rightarrow> 'f option \<Rightarrow> 'p option \<Rightarrow> u32 \<Rightarrow> ('h option, 'k) prog"
  rt_timer_control_set_time :: "'h option \<Rightarrow> u32 \<Rightarrow> (int, 'k) prog"
  rt_timer_control_get_remain :: "'h option \<Rightarrow> u32 \<Rightarrow> (u32, 'k) prog"
  rt_timer_control_get_state :: "'h \<Rightarrow> (u32, 'k) prog"
  rt_timer_start :: "'h option \<Rightarrow> (int, 'k) prog"

definition RT_TIMER_FLAG_ACTIVATED :: u32 where
  "RT_TIMER_FLAG_ACTIVATED = 1"

record ('h, 'f, 'p) pos_timer_rtt =
  rtm_handle :: "'h option"
  rtm_func :: "'f option"
  rtm_arg :: "'p option"

definition pos_timer_init_rtt ::
    "('h, 'f, 'p, 'k) rtt_timer_api \<Rightarrow> 'f option \<Rightarrow> 'p option \<Rightarrow>
     (pos_error, ('h, 'f, 'p) pos_timer_rtt \<times> 'k) prog" where
  "pos_timer_init_rtt api cb arg =
     c_then (upd_obj (\<lambda>_. \<lparr>rtm_handle = None, rtm_func = None, rtm_arg = None\<rparr>))
     (c_then (upd_obj (\<lambda>t. t\<lparr>rtm_func := cb, rtm_arg := arg\<rparr>))
     (c_bind (get_obj (\<lambda>t. (rtm_func t, rtm_arg t))) (\<lambda>(f, a).
      c_bind (kcall (rt_timer_create api ''chip_timer'' f a 10)) (\<lambda>h.
      c_then (upd_obj (\<lambda>t. t\<lparr>rtm_handle := h\<rparr>)) (c_return POS_OK)))))"

definition pos_timer_start_rtt ::
    "('h, 'f, 'p, 'k) rtt_timer_api \<Rightarrow> pos_time \<Rightarrow> (pos_error, ('h, 'f, 'p) pos_timer_rtt \<times> 'k) prog" where
  "pos_timer_start_rtt api ticks0 =
     (if uint ticks0 < 0 then c_return POS_INVALID_PARAM
      else
        (let ticks = (if ticks0 = 0 then 1 else ticks0) in
         c_bind (get_obj rtm_handle) (\<lambda>h.
         c_then (kcall (rt_timer_control_set_time api h ticks))
         (c_then (kcall (rt_timer_start api h)) (c_return POS_OK)))))"

definition pos_timer_start_ms_rtt ::
    "('h, 'f, 'p, 'k) rtt_timer_api \<Rightarrow> u32 \<Rightarrow> pos_time \<Rightarrow> (pos_error, ('h, 'f, 'p) pos_timer_rtt \<times> 'k) prog" where
  "pos_timer_start_ms_rtt api hz duration =
     pos_timer_start_rtt api (pos_time_ms_to_ticks_rtt hz duration)"

text \<open>The variable \<open>now\<close> is overwritten by the control command; its old content is the argument.\<close>

definition pos_timer_remaining_ticks_rtt ::
    "('h, 'f, 'p, 'k) rtt_timer_api \<Rightarrow> pos_time \<Rightarrow> (pos_time, ('h, 'f, 'p) pos_timer_rtt \<times> 'k) prog" where
  "pos_timer_remaining_ticks_rtt api now =
     c_bind (get_obj rtm_handle) (\<lambda>h. kcall (rt_timer_control_get_remain api h now))"

definition pos_timer_is_active_rtt ::
    "('h, 'f, 'p, 'k) rtt_timer_api \<Rightarrow> bool \<Rightarrow> (bool, ('h, 'f, 'p) pos_timer_rtt \<times> 'k) prog" where
  "pos_timer_is_active_rtt api tm_null =
     c_then (c_assert (\<not> tm_null))
       (c_bind (rtt_handle rtm_handle) (\<lambda>h.
        c_bind (kcall (rt_timer_control_get_state api h)) (\<lambda>state.
        c_return (if RT_TIMER_FLAG_ACTIVATED = state then True else False))))"

definition pos_timer_arg_get_rtt :: "bool \<Rightarrow> ('p option, ('h, 'f, 'p) pos_timer_rtt \<times> 'k) prog" where
  "pos_timer_arg_get_rtt timer_null = c_then (c_assert (\<not> timer_null)) (get_obj rtm_arg)"

subsection \<open>Tasks\<close>

record ('h, 'f, 'p, 'k) rtt_task_api =
  rt_thread_create :: "string option \<Rightarrow> 'f \<Rightarrow> 'p option \<Rightarrow> u16 \<Rightarrow> u8 \<Rightarrow> nat \<Rightarrow> ('h option, 'k) prog"
  rt_thread_startup :: "'h \<Rightarrow> (int, 'k) prog"
  rt_thread_yield :: "(int, 'k) prog"
  rt_thread_delay :: "u32 \<Rightarrow> (int, 'k) prog"
  rt_thread_mdelay :: "int \<Rightarrow> (int, 'k) prog"
  rt_thread_self :: "'k \<Rightarrow> 'h"
  rt_thread_delete :: "'h option \<Rightarrow> (int, 'k) prog"

record ('h, 'f, 'p) pos_task_rtt =
  rtk_handle :: "'h option"
  rtk_func :: "'f option"
  rtk_arg :: "'p option"

definition pos_task_dispatch_rtt ::
    "('f \<Rightarrow> 'p option \<Rightarrow> (unit, 'k) prog) \<Rightarrow> bool \<Rightarrow> (unit, ('h, 'f, 'p) pos_task_rtt \<times> 'k) prog" where
  "pos_task_dispatch_rtt run_func task_null =
     c_then (c_assert (\<not> task_null))
       (c_bind (rtt_handle rtk_func) (\<lambda>func.
        c_bind (get_obj rtk_arg) (\<lambda>arg. kcall (run_func func arg))))"

text \<open>The thread is created on the task's function itself, with a time slice of ten ticks.\<close>

definition pos_task_init_rtt ::
    "('h, 'f, 'p, 'k) rtt_task_api \<Rightarrow> bool \<Rightarrow> string option \<Rightarrow> 'f option \<Rightarrow> 'p option \<Rightarrow> u8 \<Rightarrow> u16 \<Rightarrow>
     (pos_error, ('h, 'f, 'p) pos_task_rtt \<times> 'k) prog" where
  "pos_task_init_rtt api task_null name func arg prio stack_size =
     (case func of
        None \<Rightarrow> c_return POS_INVALID_PARAM
      | Some f \<Rightarrow>
        if task_null then c_return POS_INVALID_PARAM
        else
          c_then (upd_obj (\<lambda>t. t\<lparr>rtk_arg := arg, rtk_func := Some f\<rparr>))
          (c_bind (kcall (rt_thread_create api name f arg stack_size prio 10)) (\<lambda>h.
           c_then (upd_obj (\<lambda>t. t\<lparr>rtk_handle := h\<rparr>))
           (c_bind (case h of None \<Rightarrow> c_return RT_ERROR | Some t \<Rightarrow> kcall (rt_thread_startup api t)) (\<lambda>err.
            c_return (if err = RT_EOK then POS_OK else POS_ERROR))))))"

definition pos_task_yield_rtt :: "('h, 'f, 'p, 'k) rtt_task_api \<Rightarrow> (unit, 'k) prog" where
  "pos_task_yield_rtt api = c_then (rt_thread_yield api) (c_return ())"

definition pos_task_sleep_rtt :: "('h, 'f, 'p, 'k) rtt_task_api \<Rightarrow> pos_time \<Rightarrow> (unit, 'k) prog" where
  "pos_task_sleep_rtt api ticks = c_then (rt_thread_delay api ticks) (c_return ())"

definition pos_task_sleep_ms_rtt :: "('h, 'f, 'p, 'k) rtt_task_api \<Rightarrow> pos_time \<Rightarrow> (unit, 'k) prog" where
  "pos_task_sleep_ms_rtt api ms = c_then (rt_thread_mdelay api (sint ms)) (c_return ())"

definition pos_get_current_task_id_rtt :: "('h, 'f, 'p, 'k) rtt_task_api \<Rightarrow> ('h, 'k) prog" where
  "pos_get_current_task_id_rtt api = c_gets (rt_thread_self api)"

definition pos_task_remove_rtt ::
    "('h, 'f, 'p, 'k) rtt_task_api \<Rightarrow> (pos_error, ('h, 'f, 'p) pos_task_rtt \<times> 'k) prog" where
  "pos_task_remove_rtt api =
     c_bind (get_obj rtk_handle) (\<lambda>h.
     c_bind (kcall (rt_thread_delete api h)) (\<lambda>err.
     c_return (if err = RT_EOK then POS_OK else POS_ERROR)))"

definition pos_sched_start_rtt :: "(unit, 'k) prog" where
  "pos_sched_start_rtt = c_return ()"

subsection \<open>Panic\<close>

definition pos_panic_rtt :: "string option \<Rightarrow> (unit, string) prog" where
  "pos_panic_rtt msg =
     c_then
       (case msg of
          None \<Rightarrow> c_return ()
        | Some m \<Rightarrow> c_modify (\<lambda>out. out @ ''POSKI PANIC: '' @ m @ [CHR 0x0A]))
       (c_then (c_assert False) (c_stop Halted))"

subsection \<open>A reference model of the kernel's queues\<close>

record ref_mqs =
  rmqs_items :: "nat \<Rightarrow> bytes list"
  rmqs_cap :: "nat \<Rightarrow> nat"
  rmqs_width :: "nat \<Rightarrow> nat"
  rmqs_next :: nat

text \<open>Message sizes are rounded up to a multiple of four.\<close>

definition align4 :: "nat \<Rightarrow> nat" where
  "align4 n = (n + 3) div 4 * 4"

definition ref_mqs_ok :: "ref_mqs \<Rightarrow> nat \<Rightarrow> bool" where
  "ref_mqs_ok k h \<longleftrightarrow>
     length (rmqs_items k h) \<le> rmqs_cap k h \<and> list_all (\<lambda>y. length y = rmqs_width k h) (rmqs_items k h)"

definition ref_rtt_queue :: "(nat, ref_mqs) rtt_queue_api" where
  "ref_rtt_queue =
     \<lparr>rt_mq_create = (\<lambda>nm sz n k.
        Returns (Some (rmqs_next k))
          (k\<lparr>rmqs_next := Suc (rmqs_next k), rmqs_items := (rmqs_items k)(rmqs_next k := []),
             rmqs_cap := (rmqs_cap k)(rmqs_next k := unat n),
             rmqs_width := (rmqs_width k)(rmqs_next k := align4 (unat sz))\<rparr>)),
      rt_mq_recv = (\<lambda>h d n tmo k.
        case rmqs_items k h of
          [] \<Rightarrow> if tmo < 0 then Stops Blocked else Returns (- RT_ETIMEOUT, d) k
        | y # ys \<Rightarrow>
            if length d < n then Stops Undefined_Behaviour
            else Returns (RT_EOK, take n y @ drop (min n (length y)) d) (k\<lparr>rmqs_items := (rmqs_items k)(h := ys)\<rparr>)),
      rt_mq_send = (\<lambda>h x n k.
        if length x < n then Stops Undefined_Behaviour
        else if length (rmqs_items k h) < rmqs_cap k h
        then Returns RT_EOK (k\<lparr>rmqs_items := (rmqs_items k)(h := rmqs_items k h @ [take n x])\<rparr>)
        else Returns (- RT_EFULL) k),
      rt_mq_delete = (\<lambda>h k. Returns RT_EOK k),
      mq_msg_size = rmqs_width\<rparr>"

definition ref_mqs0 :: ref_mqs where
  "ref_mqs0 = \<lparr>rmqs_items = \<lambda>_. [], rmqs_cap = \<lambda>_. 0, rmqs_width = \<lambda>_. 0, rmqs_next = 0\<rparr>"

section \<open>The documented behaviour of the kernel's queues\<close>

text \<open>
  The queue object keeps the message size rounded up by \<open>align_up\<close>; the port copies that many
  bytes.  A send to a full queue fails at once; copying more bytes than the caller's area
  holds is undefined.
\<close>

locale rtt_queue_kernel =
  fixes api :: "('h, 'k) rtt_queue_api"
    and items :: "'k \<Rightarrow> 'h \<Rightarrow> bytes list"
    and cap :: "'k \<Rightarrow> 'h \<Rightarrow> nat"
    and usable :: "'k \<Rightarrow> 'h \<Rightarrow> bool"
    and align_up :: "nat \<Rightarrow> nat"
  assumes mq_create:
      "rt_mq_create api nm sz n k = Returns (Some h) k' \<Longrightarrow>
       usable k' h \<and> items k' h = [] \<and> cap k' h = unat n \<and> mq_msg_size api k' h = align_up (unat sz)"
    and mq_send_room:
      "usable k h \<Longrightarrow> length (items k h) < cap k h \<Longrightarrow> mq_msg_size api k h \<le> length x \<Longrightarrow>
       \<exists>k'. rt_mq_send api h x (mq_msg_size api k h) k = Returns RT_EOK k' \<and> usable k' h \<and>
            items k' h = items k h @ [take (mq_msg_size api k h) x] \<and> cap k' h = cap k h \<and>
            mq_msg_size api k' h = mq_msg_size api k h"
    and mq_send_full:
      "usable k h \<Longrightarrow> length (items k h) = cap k h \<Longrightarrow> mq_msg_size api k h \<le> length x \<Longrightarrow>
       \<exists>k'. rt_mq_send api h x (mq_msg_size api k h) k = Returns (- RT_EFULL) k' \<and> usable k' h \<and>
            items k' h = items k h \<and> cap k' h = cap k h \<and> mq_msg_size api k' h = mq_msg_size api k h"
    and mq_recv_item:
      "usable k h \<Longrightarrow> items k h = y # ys \<Longrightarrow> mq_msg_size api k h \<le> length d \<Longrightarrow>
       \<exists>k'. rt_mq_recv api h d (mq_msg_size api k h) tmo k = Returns (RT_EOK, y @ drop (length y) d) k' \<and>
            usable k' h \<and> items k' h = ys \<and> cap k' h = cap k h \<and> mq_msg_size api k' h = mq_msg_size api k h"
    and mq_recv_short:
      "usable k h \<Longrightarrow> items k h \<noteq> [] \<Longrightarrow> length d < mq_msg_size api k h \<Longrightarrow>
       rt_mq_recv api h d (mq_msg_size api k h) tmo k = Stops Undefined_Behaviour"
    and mq_recv_none:
      "usable k h \<Longrightarrow> items k h = [] \<Longrightarrow>
       (tmo < 0 \<and> rt_mq_recv api h d (mq_msg_size api k h) tmo k = Stops Blocked) \<or>
       (tmo \<noteq> - 1 \<and>
        (\<exists>k'. rt_mq_recv api h d (mq_msg_size api k h) tmo k = Returns (- RT_ETIMEOUT, d) k' \<and> usable k' h \<and>
              items k' h = [] \<and> cap k' h = cap k h \<and> mq_msg_size api k' h = mq_msg_size api k h))"
    and mq_cap: "usable k h \<Longrightarrow> length (items k h) \<le> cap k h"
    and mq_width: "usable k h \<Longrightarrow> y \<in> set (items k h) \<Longrightarrow> length y = mq_msg_size api k h"
begin

lemma put_status:
  assumes "rq_handle q = Some h"
  shows "pos_queue_put_rtt api False x (q, k) =
    (case rt_mq_send api h x (mq_msg_size api k h) k of
       Stops s \<Rightarrow> Stops s
     | Returns ret k' \<Rightarrow> Returns (if ret = RT_EOK then POS_OK else POS_ERROR) (q, k'))"
  using assms by (simp add: pos_queue_put_rtt_def rtt_handle_def prog_defs split: outcome.split)

lemma get_status:
  assumes "rq_handle q = Some h"
  shows "pos_queue_get_rtt api d tmo (q, k) =
    (case rt_mq_recv api h d (mq_msg_size api k h) (sint tmo) k of
       Stops s \<Rightarrow> Stops s
     | Returns (ret, d') k' \<Rightarrow> Returns (if ret = RT_EOK then POS_OK else POS_ERROR, d') (q, k'))"
  using assms by (simp add: pos_queue_get_rtt_def rtt_handle_def prog_defs split: outcome.split prod.split)

lemma init_handle:
  assumes "pos_queue_init_rtt api False msg_size max_msgs (q, k) = Returns e (q', k')"
  shows "e = POS_OK \<and> (\<exists>h. rq_handle q' = Some h \<and> usable k' h \<and> items k' h = [] \<and>
           cap k' h = unat max_msgs \<and> mq_msg_size api k' h = align_up (unat msg_size))"
  using assms mq_create
  by (auto simp: pos_queue_init_rtt_def prog_defs split: outcome.splits if_splits)

end

sublocale rtt_queue_kernel \<subseteq> rtt_queue: osal_queue "pos_queue_put_rtt api False" "pos_queue_get_rtt api"
  "\<lambda>(q, k). items k h" "\<lambda>(q, k). cap k h" "\<lambda>(q, k). mq_msg_size api k h"
  "\<lambda>(q, k). rq_handle q = Some h \<and> usable k h" for h
proof (unfold_locales, goal_cases)
  case (1 w x)
  then show ?case using mq_send_room [of "snd w" h x] by (cases w) (auto simp: put_status)
next
  case (2 w x)
  then show ?case using mq_send_full [of "snd w" h x] by (cases w) (auto simp: put_status)
next
  case (3 w y ys out tmo)
  moreover from this have "length y = mq_msg_size api (snd w) h" by (cases w) (auto intro!: mq_width)
  ultimately show ?case
    using mq_recv_item [of "snd w" h y ys out "sint tmo"] by (cases w) (auto simp: get_status)
next
  case (4 w)
  then show ?case using mq_cap by (cases w) auto
next
  case (5 w y)
  then show ?case using mq_width by (cases w) auto
next
  case (6 w out tmo)
  then show ?case
    using mq_recv_none [of "snd w" h "sint tmo" out] by (cases w) (auto simp: get_status)
qed

interpretation ref_rtt_queue: rtt_queue_kernel ref_rtt_queue rmqs_items rmqs_cap ref_mqs_ok align4
  by unfold_locales
    (auto simp: ref_rtt_queue_def ref_mqs_ok_def list_all_iff split: list.splits if_splits)

context rtt_queue_kernel
begin

lemma run_fifo:
  assumes "pos_queue_init_rtt api False msg_size max_msgs (q, k) = Returns e w0"
    and "\<forall>c \<in> set cs. call_area_ok (align_up (unat msg_size)) c"
    and "queue_run (pos_queue_put_rtt api False) (pos_queue_get_rtt api) cs w0 = Returns (sent, got) (q', k')"
  defines "n \<equiv> align_up (unat msg_size)"
  shows "\<exists>h. rq_handle q' = Some h \<and> map (take n) sent = map (take n) got @ items k' h"
proof -
  obtain q1 k1 h where w0: "w0 = (q1, k1)" "rq_handle q1 = Some h" "usable k1 h" "items k1 h = []"
      "mq_msg_size api k1 h = n"
    using init_handle [of msg_size max_msgs q k e "fst w0" "snd w0"] assms(1) n_def by (cases w0) auto
  then show ?thesis
    using rtt_queue.queue_run_fifo [of h w0 cs sent got "(q', k')"] assms(2,3) n_def by auto
qed

lemma get_overrun:
  assumes "rq_handle q = Some h" and "usable k h" and "items k h \<noteq> []" and "length d < mq_msg_size api k h"
  shows "pos_queue_get_rtt api d tmo (q, k) = Stops Undefined_Behaviour"
  using mq_recv_short [OF assms(2-4)] by (simp add: get_status [OF assms(1)])

end

section \<open>Properties\<close>

text \<open>The RT-Thread queue is first in, first out: over any sequence of completed puts and gets on
  a fresh queue, with areas of at least the aligned message size, the accepted messages are exactly
  the delivered ones, in order, followed by those still queued.\<close>

theorem rtt_queue_fifo:
  assumes "rtt_queue_kernel api items cap usable align_up"
    and "pos_queue_init_rtt api False msg_size max_msgs (q, k) = Returns e w0"
    and "\<forall>c \<in> set cs. call_area_ok (align_up (unat msg_size)) c"
    and "queue_run (pos_queue_put_rtt api False) (pos_queue_get_rtt api) cs w0 = Returns (sent, got) (q', k')"
  shows "\<exists>h. rq_handle q' = Some h \<and>
             map (take (align_up (unat msg_size))) sent =
             map (take (align_up (unat msg_size))) got @ items k' h"
  by (rule rtt_queue_kernel.run_fifo [OF assms])

theorem rtt_queue_fifo_witness:
  "\<exists>w0 sent got q' k' h. queue_run (pos_queue_put_rtt ref_rtt_queue False) (pos_queue_get_rtt ref_rtt_queue)
       [QPut [1, 2, 3, 4], QPut [5, 6, 7, 8], QGet [0, 0, 0, 0] 0, QPut [9, 9, 9, 9]] w0 =
       Returns (sent, got) (q', k') \<and>
     map (take 4) sent = map (take 4) got @ rmqs_items k' h \<and> got = [[1, 2, 3, 4]]"
proof -
  note defs = pos_queue_init_rtt_def pos_queue_put_rtt_def pos_queue_get_rtt_def rtt_handle_def prog_defs
    ref_rtt_queue_def ref_mqs0_def align4_def
  obtain w0 where w0: "pos_queue_init_rtt ref_rtt_queue False 3 2 (\<lparr>rq_handle = None\<rparr>, ref_mqs0) = Returns POS_OK w0"
    by (simp add: defs)
  obtain sent q' k' where run: "queue_run (pos_queue_put_rtt ref_rtt_queue False) (pos_queue_get_rtt ref_rtt_queue)
       [QPut [1, 2, 3, 4], QPut [5, 6, 7, 8], QGet [0, 0, 0, 0] 0, QPut [9, 9, 9, 9]] w0 =
       Returns (sent, [[1, 2, 3, 4]]) (q', k')"
    using w0 by (auto simp: defs)
  have a: "align4 (unat (3 :: u32)) = 4" by (simp add: align4_def)
  obtain h where "map (take 4) sent = map (take 4) [[1, 2, 3, 4]] @ rmqs_items k' h"
    using rtt_queue_fifo [OF ref_rtt_queue.rtt_queue_kernel_axioms w0 _ run] unfolding a by auto
  with run show ?thesis by blast
qed

text \<open>A get on an RT-Thread queue copies the kernel's aligned message size: with an area of the
  requested message size that is smaller than the aligned one, it writes beyond the area.\<close>

theorem rtt_queue_get_overrun:
  assumes "rtt_queue_kernel api items cap usable align_up"
    and "rq_handle q = Some h" and "usable k h" and "items k h \<noteq> []" and "length d < mq_msg_size api k h"
  shows "pos_queue_get_rtt api d tmo (q, k) = Stops Undefined_Behaviour"
  by (rule rtt_queue_kernel.get_overrun [OF assms])

theorem rtt_queue_get_overrun_witness:
  "pos_queue_get_rtt ref_rtt_queue [0, 0, 0] 0
     (\<lparr>rq_handle = Some 0\<rparr>, ref_mqs0\<lparr>rmqs_items := \<lambda>_. [[1, 2, 3, 4]], rmqs_cap := \<lambda>_. 1, rmqs_width := \<lambda>_. 4\<rparr>) =
     Stops Undefined_Behaviour"
  using rtt_queue_get_overrun [OF ref_rtt_queue.rtt_queue_kernel_axioms,
      of "\<lparr>rq_handle = Some 0\<rparr>" 0
        "ref_mqs0\<lparr>rmqs_items := \<lambda>_. [[1, 2, 3, 4]], rmqs_cap := \<lambda>_. 1, rmqs_width := \<lambda>_. 4\<rparr>" "[0, 0, 0]" 0]
  by (simp add: ref_mqs_ok_def ref_rtt_queue_def)

end
