(* ===== verification/Zephyr_Task.thy ===== *)
theory Zephyr_Task
  imports Zephyr_Sync
begin

text \<open>
  Tasks, time, timers and panic of the Zephyr port: \<^verbatim>\<open>targets/zephyr/os_task.c\<close>,
  \<^verbatim>\<open>os_time.c\<close>, \<^verbatim>\<open>os_timer.c\<close> and \<^verbatim>\<open>os_panic.c\<close>.  Task stacks come from a static array of ten;
  a stack address is modelled by its index in that array.
\<close>

section \<open>Definitions\<close>

subsection \<open>Tasks\<close>

definition MAX_TASKS :: nat where
  "MAX_TASKS = 10"

definition STACK_SIZE :: nat where
  "STACK_SIZE = 2048"

record ('h, 'f, 'p, 'k) zephyr_task_api =
  k_thread_create :: "nat \<Rightarrow> nat \<Rightarrow> 'f option \<Rightarrow> 'p option \<Rightarrow> u8 \<Rightarrow> ('h option, 'k) prog"
  k_thread_name_set :: "'h \<Rightarrow> string option \<Rightarrow> (int, 'k) prog"
  k_thread_abort :: "'h option \<Rightarrow> (unit, 'k) prog"
  k_yield :: "(unit, 'k) prog"
  k_sleep :: "k_timeout \<Rightarrow> (int, 'k) prog"
  k_current_get :: "'k \<Rightarrow> 'h"

text \<open>The field \<open>thread\<close>, the kernel's control block, is part of the kernel's state.\<close>

record 'h pos_task_zephyr =
  zt_tid :: "'h option"
  zt_stack :: "nat option"

text \<open>The world of a task operation: the struct, \<open>s_stack_used\<close> and the kernel.\<close>

type_synonym ('h, 'k) ztask_world = "'h pos_task_zephyr \<times> bool list \<times> 'k"

text \<open>The entry point \<open>pos_task_wrapper(p1, p2, p3)\<close>; a null function pointer is undefined.\<close>

definition pos_task_wrapper_zephyr ::
    "('f \<Rightarrow> 'p option \<Rightarrow> (unit, 'k) prog) \<Rightarrow> 'f option \<Rightarrow> 'p option \<Rightarrow> (unit, 'k) prog" where
  "pos_task_wrapper_zephyr run_func p1 p2 =
     (case p1 of None \<Rightarrow> c_stop Undefined_Behaviour | Some func \<Rightarrow> run_func func p2)"

text \<open>The search loop: the first index \<open>i\<close> or above whose stack is not in use.\<close>

fun find_unused :: "bool list \<Rightarrow> nat \<Rightarrow> nat option" where
  "find_unused [] i = None"
| "find_unused (u # us) i = (if \<not> u then Some i else find_unused us (Suc i))"

definition set_used :: "nat \<Rightarrow> bool \<Rightarrow> (unit, ('h, 'k) ztask_world) prog" where
  "set_used i b = kcall (upd_obj (\<lambda>used. used[i := b]))"

definition pos_task_init_zephyr ::
    "('h, 'f, 'p, 'k) zephyr_task_api \<Rightarrow> string option \<Rightarrow> 'f option \<Rightarrow> 'p option \<Rightarrow> u8 \<Rightarrow> u16 \<Rightarrow>
     (pos_error, ('h, 'k) ztask_world) prog" where
  "pos_task_init_zephyr api name func arg prio stack_size =
     (if STACK_SIZE < unat stack_size then c_return POS_EINVAL
      else
        c_bind (kcall (get_obj (\<lambda>used. find_unused used 0))) (\<lambda>idx.
          case idx of
            None \<Rightarrow> c_return POS_ENOMEM
          | Some i \<Rightarrow>
              c_then (set_used i True)
              (c_then (upd_obj (\<lambda>t. t\<lparr>zt_stack := Some i\<rparr>))
              (c_bind (kcall (kcall (k_thread_create api i STACK_SIZE func arg prio))) (\<lambda>tid.
               c_then (upd_obj (\<lambda>t. t\<lparr>zt_tid := tid\<rparr>))
                 (case tid of
                    Some h \<Rightarrow> c_then (kcall (kcall (k_thread_name_set api h name))) (c_return POS_OK)
                  | None \<Rightarrow> c_then (set_used i False) (c_return POS_ERROR)))))))"

text \<open>
  \<open>pos_task_remove\<close>: the loop compares \<open>t->stack\<close> with each of the ten stacks; the struct
  itself is not changed.
\<close>

definition pos_task_remove_zephyr ::
    "('h, 'f, 'p, 'k) zephyr_task_api \<Rightarrow> (pos_error, ('h, 'k) ztask_world) prog" where
  "pos_task_remove_zephyr api =
     c_bind (get_obj zt_tid) (\<lambda>tid.
     c_then (kcall (kcall (k_thread_abort api tid)))
     (c_bind (get_obj zt_stack) (\<lambda>stack.
       c_then
         (case stack of
            None \<Rightarrow> c_return ()
          | Some i \<Rightarrow> if i < MAX_TASKS then set_used i False else c_return ())
         (c_return POS_OK))))"

definition pos_task_yield_zephyr :: "('h, 'f, 'p, 'k) zephyr_task_api \<Rightarrow> (unit, 'k) prog" where
  "pos_task_yield_zephyr api = k_yield api"

definition pos_task_sleep_zephyr :: "('h, 'f, 'p, 'k) zephyr_task_api \<Rightarrow> pos_time \<Rightarrow> (unit, 'k) prog" where
  "pos_task_sleep_zephyr api ticks = c_then (k_sleep api (K_TICKS ticks)) (c_return ())"

definition pos_task_sleep_ms_zephyr :: "('h, 'f, 'p, 'k) zephyr_task_api \<Rightarrow> pos_time \<Rightarrow> (unit, 'k) prog" where
  "pos_task_sleep_ms_zephyr api ms = c_then (k_sleep api (K_MSEC ms)) (c_return ())"

definition pos_get_current_task_id_zephyr :: "('h, 'f, 'p, 'k) zephyr_task_api \<Rightarrow> ('h, 'k) prog" where
  "pos_get_current_task_id_zephyr api = c_gets (k_current_get api)"

subsection \<open>Time\<close>

text \<open>The kernel's clock (a signed 64-bit tick count) and its conversions are parameters.\<close>

definition pos_time_get_zephyr :: "('k \<Rightarrow> 64 word) \<Rightarrow> (pos_time, 'k) prog" where
  "pos_time_get_zephyr k_uptime_ticks = c_gets (\<lambda>k. ucast (k_uptime_ticks k))"

definition pos_time_get_ms_zephyr :: "('k \<Rightarrow> u32) \<Rightarrow> (pos_time, 'k) prog" where
  "pos_time_get_ms_zephyr k_uptime_get_32 = c_gets k_uptime_get_32"

definition pos_time_ms_to_ticks_zephyr :: "(u32 \<Rightarrow> u32) \<Rightarrow> pos_time \<Rightarrow> pos_time" where
  "pos_time_ms_to_ticks_zephyr k_ms_to_ticks_ceil32 ms = k_ms_to_ticks_ceil32 ms"

definition pos_time_ticks_to_ms_zephyr :: "(u32 \<Rightarrow> u32) \<Rightarrow> pos_time \<Rightarrow> pos_time" where
  "pos_time_ticks_to_ms_zephyr k_ticks_to_ms_floor32 ticks = k_ticks_to_ms_floor32 ticks"

subsection \<open>Timers\<close>

record ('m, 'k) zephyr_timer_api =
  k_timer_init :: "'m \<Rightarrow> (unit, 'k) prog"
  k_timer_start :: "'m \<Rightarrow> k_timeout \<Rightarrow> k_timeout \<Rightarrow> (unit, 'k) prog"
  k_timer_stop :: "'m \<Rightarrow> (unit, 'k) prog"
  k_timer_remaining_ticks :: "'m \<Rightarrow> (64 word, 'k) prog"

record ('m, 'f, 'p) pos_timer_zephyr =
  ztm_timer :: 'm
  ztm_cb :: "'f option"
  ztm_arg :: "'p option"

definition zephyr_timer_wrapper ::
    "('f \<Rightarrow> 'p option \<Rightarrow> (unit, ('m, 'f, 'p) pos_timer_zephyr \<times> 'k) prog) \<Rightarrow>
     (unit, ('m, 'f, 'p) pos_timer_zephyr \<times> 'k) prog" where
  "zephyr_timer_wrapper run_cb =
     c_bind (get_obj (\<lambda>t. (ztm_cb t, ztm_arg t))) (\<lambda>(cb, arg).
       case cb of None \<Rightarrow> c_return () | Some f \<Rightarrow> run_cb f arg)"

definition chip_os_timer_init_zephyr ::
    "('m, 'k) zephyr_timer_api \<Rightarrow> 'f option \<Rightarrow> 'p option \<Rightarrow> (pos_error, ('m, 'f, 'p) pos_timer_zephyr \<times> 'k) prog" where
  "chip_os_timer_init_zephyr api cb arg =
     c_bind (get_obj ztm_timer) (\<lambda>m.
     c_then (kcall (k_timer_init api m))
     (c_then (upd_obj (\<lambda>t. t\<lparr>ztm_cb := cb, ztm_arg := arg\<rparr>)) (c_return POS_OK)))"

definition chip_os_timer_start_ms_zephyr ::
    "('m, 'k) zephyr_timer_api \<Rightarrow> pos_time \<Rightarrow> (pos_error, ('m, 'f, 'p) pos_timer_zephyr \<times> 'k) prog" where
  "chip_os_timer_start_ms_zephyr api duration =
     c_bind (get_obj ztm_timer) (\<lambda>m.
     c_then (kcall (k_timer_start api m (K_MSEC duration) K_NO_WAIT)) (c_return POS_OK))"

definition chip_os_timer_start_zephyr ::
    "('m, 'k) zephyr_timer_api \<Rightarrow> pos_time \<Rightarrow> (pos_error, ('m, 'f, 'p) pos_timer_zephyr \<times> 'k) prog" where
  "chip_os_timer_start_zephyr api ticks =
     c_bind (get_obj ztm_timer) (\<lambda>m.
     c_then (kcall (k_timer_start api m (K_TICKS ticks) K_NO_WAIT)) (c_return POS_OK))"

definition chip_os_timer_stop_zephyr ::
    "('m, 'k) zephyr_timer_api \<Rightarrow> (pos_error, ('m, 'f, 'p) pos_timer_zephyr \<times> 'k) prog" where
  "chip_os_timer_stop_zephyr api =
     c_bind (get_obj ztm_timer) (\<lambda>m. c_then (kcall (k_timer_stop api m)) (c_return POS_OK))"

definition chip_os_timer_inited_zephyr :: "('m, 'f, 'p) pos_timer_zephyr \<Rightarrow> pos_error" where
  "chip_os_timer_inited_zephyr t = POS_OK"

definition chip_os_timer_is_active_zephyr ::
    "('m, 'k) zephyr_timer_api \<Rightarrow> (bool, ('m, 'f, 'p) pos_timer_zephyr \<times> 'k) prog" where
  "chip_os_timer_is_active_zephyr api =
     c_bind (get_obj ztm_timer) (\<lambda>m.
     c_bind (kcall (k_timer_remaining_ticks api m)) (\<lambda>n. c_return (0 < sint n)))"

definition chip_os_timer_get_ticks_zephyr :: "('m, 'f, 'p) pos_timer_zephyr \<Rightarrow> pos_time" where
  "chip_os_timer_get_ticks_zephyr t = 0"

definition chip_os_timer_remaining_ticks_zephyr ::
    "('m, 'k) zephyr_timer_api \<Rightarrow> pos_time \<Rightarrow> (pos_time, ('m, 'f, 'p) pos_timer_zephyr \<times> 'k) prog" where
  "chip_os_timer_remaining_ticks_zephyr api time =
     c_bind (get_obj ztm_timer) (\<lambda>m.
     c_bind (kcall (k_timer_remaining_ticks api m)) (\<lambda>n. c_return (ucast n)))"

definition chip_os_timer_arg_set_zephyr ::
    "'p option \<Rightarrow> (unit, ('m, 'f, 'p) pos_timer_zephyr \<times> 'k) prog" where
  "chip_os_timer_arg_set_zephyr arg = upd_obj (\<lambda>t. t\<lparr>ztm_arg := arg\<rparr>)"

definition chip_os_timer_arg_get_zephyr :: "('m, 'f, 'p) pos_timer_zephyr \<Rightarrow> 'p option" where
  "chip_os_timer_arg_get_zephyr t = ztm_arg t"

subsection \<open>Panic\<close>

definition pos_panic_zephyr :: "string option \<Rightarrow> (unit, string) prog" where
  "pos_panic_zephyr msg =
     c_then
       (case msg of
          None \<Rightarrow> c_return ()
        | Some m \<Rightarrow> c_modify (\<lambda>out. out @ ''POSKI PANIC: '' @ m @ [CHR 0x0A]))
       (c_then (c_assert False) (c_stop Halted))"

subsection \<open>A program that uses tasks\<close>

text \<open>
  The reachable states of a program that creates and removes tasks, with the set of live
  task objects: \<open>Init_ok\<close> and \<open>Init_fail\<close> create a task in an object that is not live,
  \<open>Remove\<close> removes a live one.
\<close>

inductive zt_reach ::
    "('h, 'f, 'p, 'k) zephyr_task_api \<Rightarrow> nat set \<Rightarrow> (nat \<Rightarrow> 'h pos_task_zephyr) \<times> bool list \<times> 'k \<Rightarrow> bool"
  for api :: "('h, 'f, 'p, 'k) zephyr_task_api" where
  Start: "zt_reach api {} (ts, replicate MAX_TASKS False, k)"
| Init_ok: "zt_reach api live w \<Longrightarrow> i \<notin> live \<Longrightarrow>
    on_obj i (pos_task_init_zephyr api name func arg prio stack_size) w = Returns POS_OK w' \<Longrightarrow>
    zt_reach api (insert i live) w'"
| Init_fail: "zt_reach api live w \<Longrightarrow> i \<notin> live \<Longrightarrow>
    on_obj i (pos_task_init_zephyr api name func arg prio stack_size) w = Returns e w' \<Longrightarrow> e \<noteq> POS_OK \<Longrightarrow>
    zt_reach api live w'"
| Remove: "zt_reach api live w \<Longrightarrow> i \<in> live \<Longrightarrow>
    on_obj i (pos_task_remove_zephyr api) w = Returns e w' \<Longrightarrow>
    zt_reach api (live - {i}) w'"

text \<open>
  The invariant: the live tasks have pairwise different stacks, and the stacks in use are
  exactly theirs.
\<close>

definition stack_of :: "(nat \<Rightarrow> 'h pos_task_zephyr) \<Rightarrow> nat \<Rightarrow> nat" where
  "stack_of ts i = (case zt_stack (ts i) of None \<Rightarrow> MAX_TASKS | Some s \<Rightarrow> s)"

definition used_set :: "bool list \<Rightarrow> nat set" where
  "used_set used = {s. s < length used \<and> used ! s}"

definition zt_inv :: "nat set \<Rightarrow> (nat \<Rightarrow> 'h pos_task_zephyr) \<times> bool list \<times> 'k \<Rightarrow> bool" where
  "zt_inv live w \<longleftrightarrow>
     length (fst (snd w)) = MAX_TASKS \<and> bij_betw (stack_of (fst w)) live (used_set (fst (snd w)))"

text \<open>A kernel that always creates the thread, with a counter for its identity.\<close>

definition ref_zephyr_task :: "(nat, nat, nat, nat) zephyr_task_api" where
  "ref_zephyr_task =
     \<lparr>k_thread_create = (\<lambda>s sz f a p k. Returns (Some k) (Suc k)),
      k_thread_name_set = (\<lambda>h nm k. Returns 0 k),
      k_thread_abort = (\<lambda>h k. Returns () k),
      k_yield = c_return (),
      k_sleep = (\<lambda>t. c_return 0),
      k_current_get = (\<lambda>k. 0)\<rparr>"

section \<open>Stack slots\<close>

lemma find_unused_None: "find_unused us i = None \<longleftrightarrow> (\<forall>u \<in> set us. u)"
  by (induction us i rule: find_unused.induct) auto

lemma find_unused_Some:
  "find_unused us i = Some j \<Longrightarrow>
   i \<le> j \<and> j - i < length us \<and> \<not> us ! (j - i) \<and> (\<forall>m < j - i. us ! m)"
proof (induction us i rule: find_unused.induct)
  case (2 u us i)
  show ?case
  proof (cases u)
    case True
    with 2 have ih: "Suc i \<le> j" "j - Suc i < length us" "\<not> us ! (j - Suc i)" "\<forall>m < j - Suc i. us ! m"
      by auto
    then have "j - i = Suc (j - Suc i)" by simp
    with ih True show ?thesis by (auto simp: nth_Cons less_Suc_eq_0_disj split: nat.split)
  qed (use 2 in auto)
qed simp

lemma used_set_update:
  assumes "s < length used"
  shows "used_set (used[s := True]) = insert s (used_set used)"
    and "used_set (used[s := False]) = used_set used - {s}"
  using assms by (auto simp: used_set_def nth_list_update split: if_splits)

lemma pos_task_init_zephyr_returns:
  assumes "pos_task_init_zephyr api name func arg prio stack_size (t, used, k) = Returns e (t', used', k')"
  shows "if e = POS_OK
         then \<exists>s. find_unused used 0 = Some s \<and> zt_stack t' = Some s \<and> used' = used[s := True]
         else used' = used \<or> (\<exists>s. find_unused used 0 = Some s \<and> used' = used[s := True, s := False])"
  using assms
  by (auto simp: pos_task_init_zephyr_def set_used_def prog_defs split: if_splits option.splits outcome.splits)

lemma pos_task_remove_zephyr_returns:
  assumes "pos_task_remove_zephyr api (t, used, k) = Returns e (t', used', k')" and "length used = MAX_TASKS"
  shows "t' = t \<and> e = POS_OK \<and>
         used' = (case zt_stack t of None \<Rightarrow> used | Some s \<Rightarrow> used[s := False])"
  using assms
  by (auto simp: pos_task_remove_zephyr_def set_used_def prog_defs list_update_beyond
      split: if_splits option.splits outcome.splits)

lemma update_unused_back:
  assumes "find_unused used 0 = Some s"
  shows "used[s := True, s := False] = used"
  using find_unused_Some [OF assms] by (auto simp: list_eq_iff_nth_eq nth_list_update)

lemma stack_of_upd_other: "i \<notin> live \<Longrightarrow> bij_betw (stack_of (ts(i := t))) live S = bij_betw (stack_of ts) live S"
  by (rule bij_betw_cong) (auto simp: stack_of_def)

lemma zt_inv_init:
  assumes inv: "zt_inv live w" and "i \<notin> live"
    and r: "on_obj i (pos_task_init_zephyr api name func arg prio stack_size) w = Returns e w'"
  shows "zt_inv (if e = POS_OK then insert i live else live) w'"
proof -
  obtain ts used k where w: "w = (ts, used, k)" by (cases w) auto
  obtain t' used' k' where m: "pos_task_init_zephyr api name func arg prio stack_size (ts i, used, k) =
      Returns e (t', used', k')" and w': "w' = (ts(i := t'), used', k')"
    using on_obj_returns [OF r] w by (metis fst_conv prod.exhaust_sel snd_conv)
  have len: "length used = MAX_TASKS" and bij: "bij_betw (stack_of ts) live (used_set used)"
    using inv by (auto simp: zt_inv_def w)
  show ?thesis
  proof (cases "e = POS_OK")
    case True
    then obtain s where s: "find_unused used 0 = Some s" "zt_stack t' = Some s" "used' = used[s := True]"
      using pos_task_init_zephyr_returns [OF m] by auto
    then have "s < length used" "s \<notin> used_set used"
      using find_unused_Some [OF s(1)] by (auto simp: used_set_def)
    moreover have "stack_of (ts(i := t')) i = s" using s(2) by (simp add: stack_of_def)
    moreover have "bij_betw (stack_of (ts(i := t'))) live (used_set used)"
      using bij stack_of_upd_other [OF assms(2)] by blast
    ultimately have "bij_betw (stack_of (ts(i := t'))) (insert i live) (insert s (used_set used))"
      using notIn_Un_bij_betw [OF assms(2), of "stack_of (ts(i := t'))" "used_set used"] by simp
    then show ?thesis
      using True s(3) len \<open>s < length used\<close> by (simp add: zt_inv_def w' used_set_update)
  next
    case False
    then have "used' = used"
      using pos_task_init_zephyr_returns [OF m] update_unused_back by auto
    moreover have "bij_betw (stack_of (ts(i := t'))) live (used_set used)"
      using bij stack_of_upd_other [OF assms(2)] by blast
    ultimately show ?thesis using False len by (simp add: zt_inv_def w')
  qed
qed

lemma zt_inv_remove:
  assumes inv: "zt_inv live w" and "i \<in> live"
    and r: "on_obj i (pos_task_remove_zephyr api) w = Returns e w'"
  shows "zt_inv (live - {i}) w'"
proof -
  obtain ts used k where w: "w = (ts, used, k)" by (cases w) auto
  obtain t' used' k' where m: "pos_task_remove_zephyr api (ts i, used, k) = Returns e (t', used', k')"
      and w': "w' = (ts(i := t'), used', k')"
    using on_obj_returns [OF r] w by (metis fst_conv prod.exhaust_sel snd_conv)
  have len: "length used = MAX_TASKS" and bij: "bij_betw (stack_of ts) live (used_set used)"
    using inv by (auto simp: zt_inv_def w)
  have "stack_of ts i \<in> used_set used" using bij assms(2) by (auto simp: bij_betw_def)
  then obtain s where s: "zt_stack (ts i) = Some s" "s < length used" "stack_of ts i = s"
    using len by (auto simp: stack_of_def used_set_def split: option.splits)
  then have "t' = ts i" "used' = used[s := False]"
    using pos_task_remove_zephyr_returns [OF m len] by auto
  moreover have "bij_betw (stack_of ts) (live - {i}) (used_set used - {s})"
    using bij assms(2) s(3) by (auto simp: bij_betw_def inj_on_def)
  ultimately show ?thesis using len s(2) by (simp add: zt_inv_def w' used_set_update)
qed

lemma zt_reach_inv: "zt_reach api live w \<Longrightarrow> zt_inv live w"
proof (induction rule: zt_reach.induct)
  case (Start ts k)
  then show ?case by (auto simp: zt_inv_def used_set_def bij_betw_def)
next
  case (Init_ok live w i name func arg prio stack_size w')
  then show ?case using zt_inv_init by fastforce
next
  case (Init_fail live w i name func arg prio stack_size e w')
  then show ?case using zt_inv_init by fastforce
next
  case (Remove live w i e w')
  then show ?case using zt_inv_remove by blast
qed

lemma used_set_full: "length used = MAX_TASKS \<Longrightarrow> find_unused used 0 = None \<longleftrightarrow> card (used_set used) = MAX_TASKS"
proof -
  assume len: "length used = MAX_TASKS"
  have sub: "used_set used \<subseteq> {..<MAX_TASKS}" using len by (auto simp: used_set_def)
  then have "card (used_set used) = MAX_TASKS \<longleftrightarrow> used_set used = {..<MAX_TASKS}"
    using card_subset_eq [OF finite_lessThan sub] card_lessThan by metis
  also have "\<dots> \<longleftrightarrow> (\<forall>u \<in> set used. u)"
    unfolding all_set_conv_all_nth using len by (auto simp: used_set_def)
  finally show ?thesis by (simp add: find_unused_None)
qed

lemma zt_inv_card:
  assumes "zt_inv live w"
  shows "finite live \<and> card live = card (used_set (fst (snd w))) \<and> card live \<le> MAX_TASKS"
proof -
  let ?U = "used_set (fst (snd w))"
  have len: "length (fst (snd w)) = MAX_TASKS" and bij: "bij_betw (stack_of (fst w)) live ?U"
    using assms by (auto simp: zt_inv_def)
  have "?U \<subseteq> {..<MAX_TASKS}" using len by (auto simp: used_set_def)
  then have "finite ?U" "card ?U \<le> MAX_TASKS"
    using finite_subset [OF _ finite_lessThan] card_mono [OF finite_lessThan, of ?U MAX_TASKS] by auto
  with bij show ?thesis using bij_betw_same_card [OF bij] bij_betw_finite [OF bij] by simp
qed

lemma ten_unused:
  "replicate MAX_TASKS False = [False, False, False, False, False, False, False, False, False, False]"
  by (simp add: MAX_TASKS_def eval_nat_numeral)

text \<open>The operations on the reference kernel.\<close>

lemma ref_init_step:
  "on_obj i (pos_task_init_zephyr ref_zephyr_task name func arg prio 512) (ts, used, k) =
     (case find_unused used 0 of
        None \<Rightarrow> Returns POS_ENOMEM (ts, used, k)
      | Some s \<Rightarrow> Returns POS_OK (ts(i := (ts i)\<lparr>zt_stack := Some s, zt_tid := Some k\<rparr>), used[s := True], Suc k))"
  by (simp add: on_obj_def pos_task_init_zephyr_def set_used_def prog_defs ref_zephyr_task_def
      STACK_SIZE_def split: option.split)

lemma ref_remove_step:
  "on_obj i (pos_task_remove_zephyr ref_zephyr_task) (ts, used, k) =
     Returns POS_OK (ts, case zt_stack (ts i) of
       None \<Rightarrow> used | Some s \<Rightarrow> if s < MAX_TASKS then used[s := False] else used, k)"
  by (simp add: on_obj_def pos_task_remove_zephyr_def set_used_def prog_defs ref_zephyr_task_def
      split: option.split)

section \<open>Properties\<close>

text \<open>C4. Zephyr task stacks are never shared: in every state a program can reach by creating tasks in
  free task objects and removing live ones, the live tasks run on pairwise different stacks of
  the pool, at most ten tasks are live, and exactly their stacks are marked as used.\<close>

theorem zephyr_task_stacks:
  assumes "zt_reach api live (ts, used, k)"
  shows "inj_on (stack_of ts) live \<and> stack_of ts ` live = {s. s < MAX_TASKS \<and> used ! s} \<and>
         card live \<le> MAX_TASKS"
proof -
  have i: "zt_inv live (ts, used, k)" by (rule zt_reach_inv [OF assms])
  then show ?thesis using zt_inv_card [OF i] by (auto simp: zt_inv_def bij_betw_def used_set_def)
qed

lemma zt_example:
  assumes "on_obj (3 :: nat) (pos_task_init_zephyr ref_zephyr_task None (Some 1) None 1 512)
      (\<lambda>_. \<lparr>zt_tid = None, zt_stack = None\<rparr>, replicate MAX_TASKS False, 0) = Returns POS_OK w"
  shows "zt_reach ref_zephyr_task {3} w"
  using zt_reach.Init_ok [OF zt_reach.Start _ assms] by simp

theorem zephyr_task_stacks_witness:
  "\<exists>ts used k. on_obj (3 :: nat) (pos_task_init_zephyr ref_zephyr_task None (Some 1) None 1 512)
      (\<lambda>_. \<lparr>zt_tid = None, zt_stack = None\<rparr>, replicate MAX_TASKS False, 0) = Returns POS_OK (ts, used, k) \<and>
     stack_of ts ` {3} = {s. s < MAX_TASKS \<and> used ! s}"
proof -
  obtain ts used k where w: "on_obj (3 :: nat) (pos_task_init_zephyr ref_zephyr_task None (Some 1) None 1 512)
      (\<lambda>_. \<lparr>zt_tid = None, zt_stack = None\<rparr>, replicate MAX_TASKS False, 0) = Returns POS_OK (ts, used, k)"
    by (simp add: ref_init_step ten_unused)
  from zephyr_task_stacks [OF zt_example [OF w]] w show ?thesis by auto
qed

text \<open>In such a program a task creation with an admissible stack size is refused for lack of
  memory exactly when ten tasks are live, and then nothing changes.\<close>

theorem zephyr_task_enomem:
  assumes "zt_reach api live w" and "i \<notin> live" and "unat stack_size \<le> STACK_SIZE"
  shows "(card live = MAX_TASKS \<longrightarrow>
            on_obj i (pos_task_init_zephyr api name func arg prio stack_size) w = Returns POS_ENOMEM w) \<and>
         (card live \<noteq> MAX_TASKS \<longrightarrow>
            returned (on_obj i (pos_task_init_zephyr api name func arg prio stack_size) w) \<noteq> Some POS_ENOMEM)"
proof -
  obtain ts used k where w: "w = (ts, used, k)" by (cases w) auto
  have inv: "zt_inv live w" by (rule zt_reach_inv [OF assms(1)])
  then have len: "length used = MAX_TASKS" by (simp add: zt_inv_def w)
  have c: "find_unused used 0 = None \<longleftrightarrow> card live = MAX_TASKS"
    using zt_inv_card [OF inv] used_set_full [OF len] by (simp add: w)
  show ?thesis
  proof (cases "find_unused used 0")
    case None
    then show ?thesis
      using assms(3) c by (simp add: w on_obj_def pos_task_init_zephyr_def prog_defs)
  next
    case (Some s)
    then show ?thesis
      using assms(3) c
      by (auto simp: w on_obj_def pos_task_init_zephyr_def set_used_def prog_defs returned_def
          split: outcome.splits option.splits)
  qed
qed

theorem zephyr_task_enomem_witness:
  "returned (on_obj (0 :: nat) (pos_task_init_zephyr ref_zephyr_task None (Some 1) None 1 2048)
     (\<lambda>_. \<lparr>zt_tid = None, zt_stack = None\<rparr>, replicate MAX_TASKS False, 0)) \<noteq> Some POS_ENOMEM"
  using zephyr_task_enomem [OF zt_reach.Start [of ref_zephyr_task "\<lambda>_. \<lparr>zt_tid = None, zt_stack = None\<rparr>" 0],
      of 0 2048 None "Some 1" None 1]
  by (simp add: MAX_TASKS_def STACK_SIZE_def)

text \<open>Removing a Zephyr task twice breaks the separation of stacks: after the second removal the
  stack of a live task is given to another one, so two live tasks run on the same stack.\<close>

theorem zephyr_task_double_remove:
  "\<exists>ts used k.
     c_then (on_obj (0 :: nat) (pos_task_init_zephyr ref_zephyr_task None (Some 1) None 1 512))
     (c_then (on_obj (0 :: nat) (pos_task_remove_zephyr ref_zephyr_task))
     (c_then (on_obj (1 :: nat) (pos_task_init_zephyr ref_zephyr_task None (Some 1) None 1 512))
     (c_then (on_obj (0 :: nat) (pos_task_remove_zephyr ref_zephyr_task))
       (on_obj (2 :: nat) (pos_task_init_zephyr ref_zephyr_task None (Some 1) None 1 512)))))
       (\<lambda>_. \<lparr>zt_tid = None, zt_stack = None\<rparr>, replicate MAX_TASKS False, 0) = Returns POS_OK (ts, used, k) \<and>
     zt_stack (ts 1) = Some 0 \<and> zt_stack (ts 2) = Some 0"
proof -
  have "0 < MAX_TASKS" by (simp add: MAX_TASKS_def)
  then show ?thesis by (simp add: c_then_def c_bind_def ref_init_step ref_remove_step ten_unused)
qed

end
