(* ===== verification/Port_Config.thy ===== *)
theory Port_Config
  imports Freertos_Timer Rtt_Port Zephyr_Task
begin

text \<open>
  Configuration: the constants of \<^verbatim>\<open>targets/freertos/config/posix/FreeRTOSConfig.h\<close>, and the
  tick rates and priority ranges the port headers derive from their kernels' configurations.  The
  theorems say what the FreeRTOS port does under the configuration it is shipped with, and which of the
  advertised priorities the kernels accept.
\<close>

section \<open>Definitions\<close>

record FreeRTOSConfig =
  configUSE_PREEMPTION :: int
  configUSE_PORT_OPTIMISED_TASK_SELECTION :: int
  configUSE_TICKLESS_IDLE :: int
  configCPU_CLOCK_HZ :: int
  configTICK_RATE_HZ :: nat
  configMAX_PRIORITIES :: int
  configMINIMAL_STACK_SIZE :: u16
  configMAX_TASK_NAME_LEN :: int
  configUSE_16_BIT_TICKS :: int
  configIDLE_SHOULD_YIELD :: int
  configUSE_TASK_NOTIFICATIONS :: int
  configUSE_MUTEXES :: int
  configUSE_RECURSIVE_MUTEXES :: int
  configUSE_COUNTING_SEMAPHORES :: int
  configQUEUE_REGISTRY_SIZE :: int
  configUSE_QUEUE_SETS :: int
  configUSE_TIME_SLICING :: int
  configUSE_NEWLIB_REENTRANT :: int
  configENABLE_BACKWARD_COMPATIBILITY :: int
  configNUM_THREAD_LOCAL_STORAGE_POINTERS :: int
  configUSE_IDLE_HOOK :: int
  configUSE_TICK_HOOK :: int
  configUSE_CO_ROUTINES :: int
  configMAX_CO_ROUTINE_PRIORITIES :: int
  configUSE_TIMERS :: int
  configTIMER_TASK_PRIORITY :: int
  configTIMER_QUEUE_LENGTH :: int
  configTIMER_TASK_STACK_DEPTH :: int
  INCLUDE_vTaskPrioritySet :: int
  INCLUDE_uxTaskPriorityGet :: int
  INCLUDE_vTaskDelete :: int
  INCLUDE_vTaskCleanUpResources :: int
  INCLUDE_vTaskSuspend :: int
  INCLUDE_vTaskDelayUntil :: int
  INCLUDE_vTaskDelay :: int
  INCLUDE_uxTaskGetStackHighWaterMark :: int
  INCLUDE_xTaskGetSchedulerState :: int
  INCLUDE_xTimerPendingFunctionCall :: int
  INCLUDE_xQueueGetMutexHolder :: int

definition FreeRTOSConfig_posix :: FreeRTOSConfig where
  "FreeRTOSConfig_posix =
     \<lparr>configUSE_PREEMPTION = 1,
      configUSE_PORT_OPTIMISED_TASK_SELECTION = 0,
      configUSE_TICKLESS_IDLE = 0,
      configCPU_CLOCK_HZ = 20000000,
      configTICK_RATE_HZ = 1000,
      configMAX_PRIORITIES = 5,
      configMINIMAL_STACK_SIZE = 128,
      configMAX_TASK_NAME_LEN = 16,
      configUSE_16_BIT_TICKS = 0,
      configIDLE_SHOULD_YIELD = 1,
      configUSE_TASK_NOTIFICATIONS = 1,
      configUSE_MUTEXES = 1,
      configUSE_RECURSIVE_MUTEXES = 1,
      configUSE_COUNTING_SEMAPHORES = 1,
      configQUEUE_REGISTRY_SIZE = 10,
      configUSE_QUEUE_SETS = 0,
      configUSE_TIME_SLICING = 1,
      configUSE_NEWLIB_REENTRANT = 0,
      configENABLE_BACKWARD_COMPATIBILITY = 0,
      configNUM_THREAD_LOCAL_STORAGE_POINTERS = 5,
      configUSE_IDLE_HOOK = 0,
      configUSE_TICK_HOOK = 0,
      configUSE_CO_ROUTINES = 0,
      configMAX_CO_ROUTINE_PRIORITIES = 2,
      configUSE_TIMERS = 1,
      configTIMER_TASK_PRIORITY = 5 - 1,
      configTIMER_QUEUE_LENGTH = 10,
      configTIMER_TASK_STACK_DEPTH = 128 * 2,
      INCLUDE_vTaskPrioritySet = 1,
      INCLUDE_uxTaskPriorityGet = 1,
      INCLUDE_vTaskDelete = 1,
      INCLUDE_vTaskCleanUpResources = 0,
      INCLUDE_vTaskSuspend = 1,
      INCLUDE_vTaskDelayUntil = 1,
      INCLUDE_vTaskDelay = 1,
      INCLUDE_uxTaskGetStackHighWaterMark = 1,
      INCLUDE_xTaskGetSchedulerState = 1,
      INCLUDE_xTimerPendingFunctionCall = 1,
      INCLUDE_xQueueGetMutexHolder = 1\<rparr>"

text \<open>
  The options that FreeRTOS documents as required for the calls the port makes: recursive mutexes,
  counting semaphores, timers, \<open>vTaskDelay\<close>, the scheduler state, ticks of more than 16 bits, and
  \<open>INCLUDE_vTaskSuspend\<close>, without which \<open>portMAX_DELAY\<close> is a finite wait.
\<close>

definition freertos_features :: "FreeRTOSConfig \<Rightarrow> bool" where
  "freertos_features cfg \<longleftrightarrow>
     configUSE_MUTEXES cfg = 1 \<and> configUSE_RECURSIVE_MUTEXES cfg = 1 \<and>
     configUSE_COUNTING_SEMAPHORES cfg = 1 \<and> configUSE_TIMERS cfg = 1 \<and>
     0 < configTIMER_QUEUE_LENGTH cfg \<and> INCLUDE_vTaskDelay cfg = 1 \<and>
     INCLUDE_xTaskGetSchedulerState cfg = 1 \<and> INCLUDE_vTaskSuspend cfg = 1 \<and>
     configUSE_16_BIT_TICKS cfg = 0"

subsection \<open>The constants of the port headers\<close>

definition POS_TIME_NO_WAIT_freertos :: pos_time where
  "POS_TIME_NO_WAIT_freertos = 0"

text \<open>The configuration casts the rate to \<open>TickType_t\<close>.\<close>

definition POS_TICKS_PER_SEC_freertos :: "FreeRTOSConfig \<Rightarrow> 'w::len word" where
  "POS_TICKS_PER_SEC_freertos cfg = word_of_nat (configTICK_RATE_HZ cfg)"

definition POS_PRIORITY_MIN_freertos :: int where
  "POS_PRIORITY_MIN_freertos = 1"

definition POS_PRIORITY_MAX_freertos :: "FreeRTOSConfig \<Rightarrow> int" where
  "POS_PRIORITY_MAX_freertos cfg = configMAX_PRIORITIES cfg"

definition POS_PRIORITY_APP_freertos :: int where
  "POS_PRIORITY_APP_freertos = POS_PRIORITY_MIN_freertos + 1"

text \<open>\<open>n\<close> is \<open>CONFIG_NUM_PREEMPT_PRIORITIES\<close> of Zephyr and \<open>RT_THREAD_PRIORITY_MAX\<close> of RT-Thread.\<close>

definition POS_PRIORITY_MIN_zephyr :: "int \<Rightarrow> int" where
  "POS_PRIORITY_MIN_zephyr n = n - 1"

definition POS_PRIORITY_MAX_zephyr :: int where
  "POS_PRIORITY_MAX_zephyr = 0"

definition POS_PRIORITY_APP_zephyr :: "int \<Rightarrow> int" where
  "POS_PRIORITY_APP_zephyr n = POS_PRIORITY_MIN_zephyr n - 1"

definition POS_PRIORITY_MIN_rtt :: int where
  "POS_PRIORITY_MIN_rtt = 1"

definition POS_PRIORITY_MAX_rtt :: "int \<Rightarrow> int" where
  "POS_PRIORITY_MAX_rtt n = n"

definition POS_PRIORITY_APP_rtt :: "int \<Rightarrow> int" where
  "POS_PRIORITY_APP_rtt n = n - 10"

text \<open>\<open>lo\<close> and \<open>hi\<close> are the results of \<open>sched_get_priority_min\<close> and \<open>sched_get_priority_max\<close>.\<close>

definition POS_PRIORITY_MIN_posix :: "int \<Rightarrow> int" where
  "POS_PRIORITY_MIN_posix lo = lo"

definition POS_PRIORITY_MAX_posix :: "int \<Rightarrow> int" where
  "POS_PRIORITY_MAX_posix hi = hi"

definition POS_PRIORITY_APP_posix :: "int \<Rightarrow> int" where
  "POS_PRIORITY_APP_posix lo = POS_PRIORITY_MIN_posix lo + 1"

text \<open>
  A priority is passed as \<open>uint8_t\<close>.  A kernel with \<open>n\<close> priorities accepts the numbers below \<open>n\<close>;
  on FreeRTOS a larger number is more urgent, on Zephyr and RT-Thread a smaller one.
\<close>

definition accepted :: "int \<Rightarrow> int \<Rightarrow> bool" where
  "accepted n p \<longleftrightarrow> p mod 256 < n"

section \<open>Conversions at the configured rate\<close>

lemma shipped_rate: "POS_TICKS_PER_SEC_freertos FreeRTOSConfig_posix = (1000 :: 'w::len word)"
  by (simp add: POS_TICKS_PER_SEC_freertos_def FreeRTOSConfig_posix_def)

lemma ms_to_ticks_shipped:
  fixes ms :: "'w::len word"
  assumes "32 \<le> LENGTH('w)"
  shows "unat (pos_time_ms_to_ticks_freertos (POS_TICKS_PER_SEC_freertos FreeRTOSConfig_posix) ms) =
     unat ms * 1000 mod 2 ^ LENGTH('w) div 1000"
  unfolding shipped_rate pos_time_ms_to_ticks_freertos_def unat_mul_div unat_1000 [OF assms] by (rule refl)

lemma ms_to_ticks_shipped_id:
  fixes ms :: "'w::len word"
  assumes "32 \<le> LENGTH('w)" and "unat ms * 1000 < 2 ^ LENGTH('w)"
  shows "pos_time_ms_to_ticks_freertos (POS_TICKS_PER_SEC_freertos FreeRTOSConfig_posix) ms = ms"
proof -
  have "unat ms * 1000 mod 2 ^ LENGTH('w) div 1000 = unat ms" using assms(2) by simp
  then show ?thesis using ms_to_ticks_shipped [OF assms(1), of ms] by (simp add: word_unat_eq_iff)
qed

lemma ms_to_ticks_shipped_wrap:
  fixes ms :: "'w::len word"
  assumes "32 \<le> LENGTH('w)" and "2 ^ LENGTH('w) \<le> unat ms * 1000" and "unat ms * 1000 < 2 ^ LENGTH('w) + 1000"
  shows "pos_time_ms_to_ticks_freertos (POS_TICKS_PER_SEC_freertos FreeRTOSConfig_posix) ms = 0"
proof -
  have "(2 :: nat) ^ 32 \<le> 2 ^ LENGTH('w)" using assms(1) by (intro power_increasing) simp_all
  then have "unat ms * 1000 mod 2 ^ LENGTH('w) = unat ms * 1000 - 2 ^ LENGTH('w)"
    using assms(2,3) by (subst le_mod_geq) simp_all
  then show ?thesis using ms_to_ticks_shipped [OF assms(1), of ms] assms(2,3) by (simp add: word_unat_eq_iff)
qed

context freertos_timer_kernel
begin

lemma start_ms_shipped:
  assumes "ft_handle t = Some h" and "usable k h"
  shows "\<exists>k'. pos_timer_start_ms_freertos hw api (POS_TICKS_PER_SEC_freertos FreeRTOSConfig_posix) junk ms (t, k) =
                Returns POS_OK (t, k') \<and>
              expiry k' h = Some (tick k + max 1 (pos_time_ms_to_ticks_freertos
                (POS_TICKS_PER_SEC_freertos FreeRTOSConfig_posix) ms))"
  using start_runs [OF assms, of junk "pos_time_ms_to_ticks_freertos (POS_TICKS_PER_SEC_freertos FreeRTOSConfig_posix) ms"]
  by (auto simp: pos_timer_start_ms_freertos_def)

end

section \<open>Properties\<close>

text \<open>C40. The FreeRTOS port under the configuration it is shipped with, \<^verbatim>\<open>config/posix\<close>, for a \<open>TickType_t\<close> of at least 32 bits: every
  kernel option the port needs is on, and a timer started for some milliseconds runs for exactly as many ticks of one millisecond (one for
  zero) as long as 1000 times the milliseconds fit \<open>TickType_t\<close>.  With 64-bit ticks, the width of \<open>unsigned long\<close> that
  FreeRTOS's GCC/Posix port uses on a 64-bit host, these are all durations below \<open>2^32\<close> ms; with 32-bit ticks, those up to
  4294967 ms.  The least duration above that limit expires after a single tick, because the product wraps.\<close>

theorem freertos_shipped_timers:
  fixes ms :: "'w::len word"
  assumes "freertos_timer_kernel hw api expiry period tick usable"
    and "ft_handle t = Some h" and "usable k h" and "32 \<le> LENGTH('w)"
  shows "freertos_features FreeRTOSConfig_posix \<and>
         (\<exists>k'. pos_timer_start_ms_freertos hw api (POS_TICKS_PER_SEC_freertos FreeRTOSConfig_posix) junk ms (t, k) =
                 Returns POS_OK (t, k') \<and>
               (unat ms * 1000 < 2 ^ LENGTH('w) \<longrightarrow> expiry k' h = Some (tick k + max 1 ms)) \<and>
               (LENGTH('w) = 64 \<and> unat ms < 2 ^ 32 \<longrightarrow> expiry k' h = Some (tick k + max 1 ms)) \<and>
               (LENGTH('w) = 32 \<and> unat ms \<le> 4294967 \<longrightarrow> expiry k' h = Some (tick k + max 1 ms)) \<and>
               (2 ^ LENGTH('w) \<le> unat ms * 1000 \<and> unat ms * 1000 < 2 ^ LENGTH('w) + 1000 \<longrightarrow>
                  expiry k' h = Some (tick k + 1)))"
proof -
  let ?ticks = "pos_time_ms_to_ticks_freertos (POS_TICKS_PER_SEC_freertos FreeRTOSConfig_posix) ms"
  have f: "freertos_features FreeRTOSConfig_posix" by (simp add: freertos_features_def FreeRTOSConfig_posix_def)
  obtain k' where k': "pos_timer_start_ms_freertos hw api (POS_TICKS_PER_SEC_freertos FreeRTOSConfig_posix) junk ms (t, k) =
                 Returns POS_OK (t, k')" "expiry k' h = Some (tick k + max 1 ?ticks)"
    using freertos_timer_kernel.start_ms_shipped [OF assms(1-3)] by blast
  have "expiry k' h = Some (tick k + max 1 ms)" if "unat ms * 1000 < 2 ^ LENGTH('w)"
    using k'(2) ms_to_ticks_shipped_id [OF assms(4) that] by simp
  moreover have "expiry k' h = Some (tick k + 1)"
    if "2 ^ LENGTH('w) \<le> unat ms * 1000" and "unat ms * 1000 < 2 ^ LENGTH('w) + 1000"
    using k'(2) ms_to_ticks_shipped_wrap [OF assms(4) that] by simp
  ultimately show ?thesis using f k'(1) by (intro conjI exI [of _ k']) auto
qed

theorem freertos_shipped_timers_witness:
  "\<exists>k' k2. pos_timer_start_ms_freertos rft_hw ref_freertos_timer 1000 (0, 0, 0) 250
      (\<lparr>ft_handle = Some 2, ft_func = Some (0::nat), ft_arg = None :: nat option\<rparr>,
       \<lparr>rft_period = \<lambda>_. 1, rft_expiry = \<lambda>_. 0, rft_active = \<lambda>_. False, rft_now = 40\<rparr>) =
      Returns POS_OK (\<lparr>ft_handle = Some 2, ft_func = Some 0, ft_arg = None\<rparr>, k') \<and> rft_expiry k' 2 = 290 \<and>
     pos_timer_start_ms_freertos rft_hw ref_freertos_timer 1000 (0, 0, 0) 4294968
      (\<lparr>ft_handle = Some 2, ft_func = Some (0::nat), ft_arg = None :: nat option\<rparr>,
       \<lparr>rft_period = \<lambda>_. 1, rft_expiry = \<lambda>_. 0, rft_active = \<lambda>_. False, rft_now = 40\<rparr>) =
      Returns POS_OK (\<lparr>ft_handle = Some 2, ft_func = Some 0, ft_arg = None\<rparr>, k2) \<and> rft_expiry k2 2 = 41"
proof -
  let ?t = "\<lparr>ft_handle = Some 2, ft_func = Some (0::nat), ft_arg = None :: nat option\<rparr>"
  let ?k = "\<lparr>rft_period = \<lambda>_. 1, rft_expiry = \<lambda>_. 0, rft_active = \<lambda>_. False, rft_now = 40\<rparr>"
  note shipped = freertos_shipped_timers [OF ref_freertos_timer.freertos_timer_kernel_axioms,
      where t = ?t and h = 2 and k = ?k and junk = "(0, 0, 0)", unfolded shipped_rate]
  obtain k' where "pos_timer_start_ms_freertos rft_hw ref_freertos_timer 1000 (0, 0, 0) 250 (?t, ?k) = Returns POS_OK (?t, k')"
      "rft_expiry k' 2 = 290"
    using shipped [of 250] by (auto simp: max_def split: if_splits)
  moreover obtain k2 where "pos_timer_start_ms_freertos rft_hw ref_freertos_timer 1000 (0, 0, 0) 4294968 (?t, ?k) = Returns POS_OK (?t, k2)"
      "rft_expiry k2 2 = 41"
    using shipped [of 4294968] by (auto split: if_splits)
  ultimately show ?thesis by blast
qed

text \<open>The advertised priorities: \<open>POS_PRIORITY_APP\<close> is accepted by every kernel (by RT-Thread from ten
  priorities on), and so are both ends of the range on Zephyr and, with the 32 priorities POSIX guarantees, on POSIX; but \<open>POS_PRIORITY_MAX\<close> is one too large
  on FreeRTOS and on RT-Thread, or becomes zero where RT-Thread has 256 priorities; and since RT-Thread's
  smaller numbers are more urgent, its \<open>POS_PRIORITY_MIN\<close> is more urgent than \<open>POS_PRIORITY_APP\<close>.\<close>

theorem port_priorities:
  "accepted (configMAX_PRIORITIES FreeRTOSConfig_posix) POS_PRIORITY_MIN_freertos \<and>
   accepted (configMAX_PRIORITIES FreeRTOSConfig_posix) POS_PRIORITY_APP_freertos \<and>
   \<not> accepted (configMAX_PRIORITIES FreeRTOSConfig_posix) (POS_PRIORITY_MAX_freertos FreeRTOSConfig_posix) \<and>
   (2 \<le> n \<and> n \<le> 256 \<longrightarrow>
     accepted n (POS_PRIORITY_MIN_zephyr n) \<and> accepted n (POS_PRIORITY_APP_zephyr n) \<and> accepted n POS_PRIORITY_MAX_zephyr) \<and>
   (10 \<le> n \<and> n \<le> 256 \<longrightarrow>
     accepted n POS_PRIORITY_MIN_rtt \<and> accepted n (POS_PRIORITY_APP_rtt n) \<and>
     (accepted n (POS_PRIORITY_MAX_rtt n) \<longleftrightarrow> n = 256) \<and>
     (11 < n \<longrightarrow> POS_PRIORITY_MIN_rtt < POS_PRIORITY_APP_rtt n)) \<and>
   (lo + 31 \<le> hi \<longrightarrow>
     POS_PRIORITY_MIN_posix lo < POS_PRIORITY_APP_posix lo \<and> POS_PRIORITY_APP_posix lo < POS_PRIORITY_MAX_posix hi)"
proof -
  have "n mod 256 < n \<longleftrightarrow> n = 256" if "10 \<le> n" "n \<le> 256" using that by (cases "n = 256") simp_all
  then show ?thesis
    by (auto simp: accepted_def FreeRTOSConfig_posix_def POS_PRIORITY_MIN_freertos_def POS_PRIORITY_APP_freertos_def
        POS_PRIORITY_MAX_freertos_def POS_PRIORITY_MIN_zephyr_def POS_PRIORITY_APP_zephyr_def POS_PRIORITY_MAX_zephyr_def
        POS_PRIORITY_MIN_rtt_def POS_PRIORITY_APP_rtt_def POS_PRIORITY_MAX_rtt_def
        POS_PRIORITY_MIN_posix_def POS_PRIORITY_APP_posix_def POS_PRIORITY_MAX_posix_def)
qed

theorem port_priorities_witness:
  "accepted 32 (POS_PRIORITY_APP_rtt 32) \<and> \<not> accepted 32 (POS_PRIORITY_MAX_rtt 32) \<and>
   POS_PRIORITY_MIN_rtt < POS_PRIORITY_APP_rtt 32 \<and> accepted 15 (POS_PRIORITY_MIN_zephyr 15) \<and>
   POS_PRIORITY_APP_posix 1 < POS_PRIORITY_MAX_posix 99"
  using port_priorities [of 32 1 99] port_priorities [of 15] by simp

end
