(* ===== verification/Conform_Sync.thy ===== *)
theory Conform_Sync
  imports Osal_Api Posix_Mutex Posix_Sem Freertos_Sync Zephyr_Sync Rtt_Sync Port_Config
begin

text \<open>
  The mutexes and semaphores of the four ports against the documentation of
  \<^verbatim>\<open>os_mutex.h\<close> and \<^verbatim>\<open>os_sem.h\<close>.  Each port meets the specification of \<open>Osal_Api\<close> for every
  sequence of calls by any tasks; the tables below say what it does when a call cannot
  succeed, which is where the ports differ from each other and from the headers.
\<close>

section \<open>Definitions\<close>

text \<open>
  POSIX: a timed wait ends with \<open>POS_TIMEOUT\<close>, with \<open>POS_EINVAL\<close> when the nanoseconds of the
  deadline overflow, and a wait on a semaphore may be interrupted.
\<close>

definition posix_mutex_refusals :: refusals where
  "posix_mutex_refusals tmo =
     (if tmo = POS_TIME_FOREVER_posix then [Inl Blocked] else [Inr POS_TIMEOUT, Inr POS_EINVAL])"

definition posix_sem_refusals :: refusals where
  "posix_sem_refusals tmo =
     (if tmo = POS_TIME_FOREVER_posix then [Inl Blocked, Inr POS_ERROR]
      else [Inr POS_TIMEOUT, Inr POS_EINVAL, Inr POS_ERROR])"

text \<open>FreeRTOS: every finite timeout, zero too, ends with \<open>POS_TIMEOUT\<close>.\<close>

definition freertos_refusals :: refusals where
  "freertos_refusals tmo = (if tmo = POS_TIME_FOREVER_freertos then [Inl Blocked] else [Inr POS_TIMEOUT])"

text \<open>Zephyr: a call that must not wait ends with \<open>POS_ERROR\<close>.\<close>

definition zephyr_refusals :: refusals where
  "zephyr_refusals tmo =
     (if tmo = POS_TIME_FOREVER_zephyr then [Inl Blocked]
      else if tmo = POS_TIME_NO_WAIT_zephyr then [Inr POS_ERROR] else [Inr POS_TIMEOUT])"

text \<open>
  RT-Thread: a mutex reports \<open>POS_BAD_MUTEX\<close> and a semaphore \<open>POS_TIMEOUT\<close>; a timeout above
  \<open>2 ^ 31\<close> is a negative tick count and may wait for ever.
\<close>

definition rtt_refusals :: "pos_error \<Rightarrow> refusals" where
  "rtt_refusals e tmo =
     (if tmo = POS_TIME_FOREVER_rtt then [Inl Blocked]
      else if 0 \<le> sint tmo then [Inr e] else [Inl Blocked, Inr e])"

text \<open>The timeouts for which a table is the one of the headers.\<close>

definition as_documented :: "pos_time \<Rightarrow> pos_time \<Rightarrow> refusals \<Rightarrow> pos_time \<Rightarrow> bool" where
  "as_documented forever no_wait refusals timeout \<longleftrightarrow> refusals timeout = documented_refusals forever no_wait timeout"

lemmas table_defs = as_documented_def documented_refusals_def posix_mutex_refusals_def posix_sem_refusals_def
  freertos_refusals_def zephyr_refusals_def rtt_refusals_def POS_TIME_FOREVER_posix_def POS_TIME_NO_WAIT_posix_def
  POS_TIME_FOREVER_freertos_def portMAX_DELAY_32 POS_TIME_NO_WAIT_freertos_def POS_TIME_FOREVER_zephyr_def
  POS_TIME_NO_WAIT_zephyr_def POS_TIME_FOREVER_rtt_def POS_TIME_NO_WAIT_rtt_def

lemma mutex_tables:
  "(as_documented POS_TIME_FOREVER_posix POS_TIME_NO_WAIT_posix posix_mutex_refusals tmo \<longleftrightarrow> tmo = POS_TIME_FOREVER_posix) \<and>
   (as_documented POS_TIME_FOREVER_freertos POS_TIME_NO_WAIT_freertos freertos_refusals tmo \<longleftrightarrow> tmo \<noteq> POS_TIME_NO_WAIT_freertos) \<and>
   (as_documented POS_TIME_FOREVER_zephyr POS_TIME_NO_WAIT_zephyr zephyr_refusals tmo \<longleftrightarrow> tmo \<noteq> POS_TIME_NO_WAIT_zephyr) \<and>
   (as_documented POS_TIME_FOREVER_rtt POS_TIME_NO_WAIT_rtt (rtt_refusals POS_BAD_MUTEX) tmo \<longleftrightarrow> tmo = POS_TIME_FOREVER_rtt)"
  by (auto simp: table_defs)

lemma sem_tables:
  "\<not> as_documented POS_TIME_FOREVER_posix POS_TIME_NO_WAIT_posix posix_sem_refusals tmo \<and>
   (as_documented POS_TIME_FOREVER_freertos POS_TIME_NO_WAIT_freertos freertos_refusals tmo \<longleftrightarrow> tmo \<noteq> POS_TIME_NO_WAIT_freertos) \<and>
   (as_documented POS_TIME_FOREVER_zephyr POS_TIME_NO_WAIT_zephyr zephyr_refusals tmo \<longleftrightarrow> tmo \<noteq> POS_TIME_NO_WAIT_zephyr) \<and>
   (as_documented POS_TIME_FOREVER_rtt POS_TIME_NO_WAIT_rtt (rtt_refusals POS_TIMEOUT) tmo \<longleftrightarrow>
      tmo = POS_TIME_FOREVER_rtt \<or> 0 \<le> sint tmo \<and> tmo \<noteq> POS_TIME_NO_WAIT_rtt)"
  by (auto simp: table_defs)

section \<open>The ports meet the specification\<close>

sublocale pthread_mutex_kernel \<subseteq> posix_mutex: osal_mutex_codes "pos_mutex_lock_posix api"
  "pos_mutex_unlock_posix api" "\<lambda>(mu, k). own k (pm_lock mu)" "\<lambda>(mu, k). recursive k (pm_lock mu)"
  rec_limit posix_mutex_refusals "[POS_ERR_PRIV]"
proof (unfold_locales, goal_cases)
  case (1 w u n t tmo)
  obtain mu k where w: "w = (mu, k)" by (cases w)
  obtain now where "mutex_clock_realtime api k = Returns (0, now) k" "valid_timespec now"
    using clock_reads by blast
  then show ?case
    using lock_contended [of k mu u n t now tmo] lock_contended_forever [of k mu u n t] 1 w
    by (cases "tmo = POS_TIME_FOREVER_posix") (auto simp: posix_mutex_refusals_def split: if_splits)
next
  case (2 w t e w')
  then show ?case
    using mutex_unlock_other [of "snd w" "pm_lock (fst w)" t]
    by (cases w) (auto simp: pos_mutex_unlock_posix_def SuccessOrExit_def prog_defs map_posix_to_osal_error_def)
qed

sublocale posix_sem_kernel \<subseteq> posix_sem: osal_sem_codes "pos_sem_give_posix api" "pos_sem_take_posix api"
  "\<lambda>(s, k). count k (ps_lock s)" max_value "\<lambda>(s, k). s = s0 \<and> live k (ps_lock s)"
  posix_sem_refusals "[Inr POS_ERROR]" for s0
proof (unfold_locales, goal_cases)
  case (1 w tmo)
  obtain s k where w: "w = (s, k)" by (cases w)
  obtain now where "sem_clock_realtime api k = Returns (0, now) k" "valid_timespec now"
    using clock_reads by blast
  then show ?case
    using 1 w take_forever_none [of k s tmo] take_timed_none [of k s tmo now]
    by (cases "tmo = POS_TIME_FOREVER_posix") (auto simp: posix_sem_refusals_def split: if_splits)
next
  case (2 w)
  then show ?case using give_cases [of "snd w" "fst w"] by (cases w) auto
qed

sublocale freertos_mutex_kernel \<subseteq> freertos_mutex: osal_mutex_codes
  "pos_mutex_lock_freertos hw api False" "pos_mutex_unlock_freertos hw api False"
  "\<lambda>(mu, k). own k h" "\<lambda>(mu, k). fm_handle mu = Some h \<and> task_mutex k h" limit
  freertos_refusals "[POS_BAD_MUTEX]" for h limit
proof (unfold_locales, goal_cases)
  case (1 w u n t tmo)
  then show ?case
    using take_other [of "snd w" h u n t tmo]
    by (cases w) (auto simp: lock_task_level freertos_refusals_def POS_TIME_FOREVER_freertos_def)
next
  case (2 w t e w')
  then show ?case using give_other [of "snd w" h t] by (cases w) (auto simp: unlock_task_level)
qed

sublocale freertos_sem_kernel \<subseteq> freertos_sem: osal_sem_codes
  "pos_sem_give_freertos hw api junk False" "pos_sem_take_freertos hw api junk False"
  "\<lambda>(sem, k). count k h" 128 "\<lambda>(sem, k). fs_handle sem = Some h \<and> task_sem k h"
  freertos_refusals "[Inl Assert_Failure]" for junk h
proof (unfold_locales, goal_cases)
  case (1 w tmo)
  then show ?case
    using take_absent [of "snd w" h tmo]
    by (cases w) (auto simp: take_task_level freertos_refusals_def POS_TIME_FOREVER_freertos_def)
next
  case (2 w)
  then show ?case using give_cases [of "fst w" h "snd w" junk] by (cases w) auto
qed

sublocale zephyr_mutex_kernel \<subseteq> zephyr_mutex: osal_mutex_codes "pos_mutex_lock_zephyr api"
  "pos_mutex_unlock_zephyr api" "\<lambda>(mu, k). own k (zm_mutex mu)"
  "\<lambda>(mu, k). mu = mu0 \<and> live k (zm_mutex mu)" limit zephyr_refusals "[POS_ERROR]" for mu0 limit
proof (unfold_locales, goal_cases)
  case (1 w u n t tmo)
  then show ?case
    using lock_contended [of "snd w" "fst w" u n t tmo]
    by (cases w) (auto simp: zephyr_refusals_def split: if_splits)
next
  case (2 w t e w')
  then show ?case
    using unlock_stranger [of "snd w" "zm_mutex (fst w)" t]
    by (cases w) (auto simp: pos_mutex_unlock_zephyr_def prog_defs)
qed

sublocale zephyr_sem_kernel \<subseteq> zephyr_sem: osal_sem_codes "pos_sem_give_zephyr api"
  "pos_sem_take_zephyr api" "\<lambda>(s, k). count k (zs_sem s)" "unat K_SEM_MAX_LIMIT"
  "\<lambda>(s, k). s = s0 \<and> live k (zs_sem s)" zephyr_refusals "[Inr POS_OK]" for s0
proof (unfold_locales, goal_cases)
  case (1 w tmo)
  then show ?case
    using take_none_status [of "snd w" "fst w" tmo]
    by (cases w) (auto simp: zephyr_refusals_def split: if_splits)
next
  case (2 w)
  then show ?case
    using sem_give [of "snd w" "zs_sem (fst w)"]
    by (cases w) (auto simp: pos_sem_give_zephyr_def prog_defs)
qed

sublocale rtt_mutex_kernel \<subseteq> rtt_mutex: osal_mutex_codes "pos_mutex_lock_rtt api False"
  "pos_mutex_unlock_rtt api False" "\<lambda>(mu, k). own k h"
  "\<lambda>(mu, k). rm_handle mu = Some h \<and> usable k h" hold_max "rtt_refusals POS_BAD_MUTEX" "[POS_BAD_MUTEX]" for h
proof (unfold_locales, goal_cases)
  case (1 w u n t tmo)
  then show ?case
    using take_other [of "snd w" h u n t "sint tmo"]
    by (cases w) (auto simp: lock_status rtt_refusals_def POS_TIME_FOREVER_rtt_def sint_minus_one_iff)
next
  case (2 w t e w')
  then show ?case using release_other [of "snd w" h t] by (cases w) (auto simp: unlock_status)
qed

sublocale rtt_sem_kernel \<subseteq> rtt_sem: osal_sem_codes "pos_sem_give_rtt api False" "pos_sem_take_rtt api False"
  "\<lambda>(sem, k). count k h" value_max "\<lambda>(sem, k). rsm_handle sem = Some h \<and> usable k h"
  "rtt_refusals POS_TIMEOUT" "[Inr POS_ERROR]" for h
proof (unfold_locales, goal_cases)
  case (1 w tmo)
  then show ?case
    using take_absent [of "snd w" h "sint tmo"]
    by (cases w) (auto simp: take_status rtt_refusals_def POS_TIME_FOREVER_rtt_def sint_minus_one_iff)
next
  case (2 w)
  then show ?case using release_full [of "snd w" h] by (cases w) (auto simp: give_status)
qed

section \<open>From initialisation on\<close>

context pthread_mutex_kernel
begin

lemma mutex_documented:
  assumes "pos_mutex_init_posix api w0 = Returns POS_OK w"
  shows "pos_mutex_init_doc st0 (Inr POS_OK) (own (snd w) (pm_lock (fst w))) \<and>
         meets (mutex_step (pos_mutex_lock_posix api) (pos_mutex_unlock_posix api))
           (mutex_doc rec_limit posix_mutex_refusals [POS_ERR_PRIV]) (\<lambda>(mu, k). own k (pm_lock mu)) cs w"
  using init_ok [of "fst w0" "snd w0" "fst w" "snd w"] assms posix_mutex.mutex_api.run_meets [of w cs]
  by (cases w) (auto simp: pos_mutex_init_doc_def)

end

context posix_sem_kernel
begin

lemma sem_documented:
  assumes "pos_sem_init_posix api n w0 = Returns POS_OK w"
  shows "pos_sem_init_doc n n0 (Inr POS_OK) (count (snd w) (ps_lock (fst w))) \<and>
         meets (sem_step (pos_sem_give_posix api) (pos_sem_take_posix api))
           (sem_doc max_value [Inr POS_ERROR] posix_sem_refusals) (\<lambda>(s, k). count k (ps_lock s)) cs w"
  using init_tokens [of n "fst w0" "snd w0" "fst w" "snd w"] assms posix_sem.sem_api.run_meets [of "fst w" w cs]
  by (cases w) (auto simp: pos_sem_init_doc_def)

end

context freertos_mutex_kernel
begin

lemma mutex_documented:
  assumes "\<not> pos_hw_in_isr_freertos hw (snd w0)" and "pos_mutex_init_freertos api False w0 = Returns POS_OK w"
  shows "\<exists>h. fm_handle (fst w) = Some h \<and> pos_mutex_init_doc st0 (Inr POS_OK) (own (snd w) h) \<and>
         meets (mutex_step (pos_mutex_lock_freertos hw api False) (pos_mutex_unlock_freertos hw api False))
           (mutex_doc limit freertos_refusals [POS_BAD_MUTEX]) (\<lambda>(mu, k). own k h) cs w"
  using init_handle [OF assms(1), of "fst w0" POS_OK "fst w" "snd w"] assms(2)
    freertos_mutex.mutex_api.run_meets [of _ w cs limit]
  by (cases w) (auto simp: pos_mutex_init_doc_def)

end

context freertos_sem_kernel
begin

lemma sem_documented:
  assumes "\<not> pos_hw_in_isr_freertos hw (snd w0)" and "pos_sem_init_freertos api False n w0 = Returns POS_OK w"
  shows "\<exists>h. fs_handle (fst w) = Some h \<and> pos_sem_init_doc n n0 (Inr POS_OK) (count (snd w) h) \<and>
         meets (sem_step (pos_sem_give_freertos hw api junk False) (pos_sem_take_freertos hw api junk False))
           (sem_doc 128 [Inl Assert_Failure] freertos_refusals) (\<lambda>(sem, k). count k h) cs w"
  using init_cases [OF assms(1), of n "fst w0"] assms(2) freertos_sem.sem_api.run_meets [of _ w cs junk]
  by (cases w) (auto simp: pos_sem_init_doc_def)

end

context zephyr_mutex_kernel
begin

lemma mutex_documented:
  assumes "pos_mutex_init_zephyr api w0 = Returns POS_OK w"
  shows "pos_mutex_init_doc st0 (Inr POS_OK) (own (snd w) (zm_mutex (fst w))) \<and>
         meets (mutex_step (pos_mutex_lock_zephyr api) (pos_mutex_unlock_zephyr api))
           (mutex_doc limit zephyr_refusals [POS_ERROR]) (\<lambda>(mu, k). own k (zm_mutex mu)) cs w"
  using init_free [of "fst w0" "snd w0"] assms zephyr_mutex.mutex_api.run_meets [of "fst w" w cs limit]
  by (cases w) (auto simp: pos_mutex_init_doc_def)

end

context zephyr_sem_kernel
begin

lemma sem_documented:
  assumes "pos_sem_init_zephyr api n w0 = Returns POS_OK w"
  shows "pos_sem_init_doc n n0 (Inr POS_OK) (count (snd w) (zs_sem (fst w))) \<and>
         meets (sem_step (pos_sem_give_zephyr api) (pos_sem_take_zephyr api))
           (sem_doc (unat K_SEM_MAX_LIMIT) [Inr POS_OK] zephyr_refusals) (\<lambda>(s, k). count k (zs_sem s)) cs w"
  using init_tokens [of n "fst w0" "snd w0"] assms zephyr_sem.sem_api.run_meets [of "fst w" w cs]
  by (cases w) (auto simp: pos_sem_init_doc_def)

end

context rtt_mutex_kernel
begin

lemma mutex_documented:
  assumes "pos_mutex_init_rtt api False w0 = Returns POS_OK w"
  shows "\<exists>h. rm_handle (fst w) = Some h \<and> pos_mutex_init_doc st0 (Inr POS_OK) (own (snd w) h) \<and>
         meets (mutex_step (pos_mutex_lock_rtt api False) (pos_mutex_unlock_rtt api False))
           (mutex_doc hold_max (rtt_refusals POS_BAD_MUTEX) [POS_BAD_MUTEX]) (\<lambda>(mu, k). own k h) cs w"
  using init_handle [of "fst w0" "snd w0" POS_OK "fst w" "snd w"] assms rtt_mutex.mutex_api.run_meets [of _ w cs]
  by (cases w) (auto simp: pos_mutex_init_doc_def)

end

context rtt_sem_kernel
begin

lemma sem_documented:
  assumes "pos_sem_init_rtt api False n w0 = Returns POS_OK w"
  shows "\<exists>h. rsm_handle (fst w) = Some h \<and> pos_sem_init_doc n n0 (Inr POS_OK) (count (snd w) h) \<and>
         meets (sem_step (pos_sem_give_rtt api False) (pos_sem_take_rtt api False))
           (sem_doc value_max [Inr POS_ERROR] (rtt_refusals POS_TIMEOUT)) (\<lambda>(sem, k). count k h) cs w"
  using init_handle [of n "fst w0" "snd w0" POS_OK "fst w" "snd w"] assms rtt_sem.sem_api.run_meets [of _ w cs]
  by (cases w) (auto simp: pos_sem_init_doc_def)

end

section \<open>Properties\<close>

text \<open>C12. The mutexes of the four ports are recursive mutexes: after a successful initialisation the mutex has no owner, and over
  every sequence of locks and unlocks by any tasks a lock of a free mutex or by its holder is granted, up to the kernel's
  limit on nesting, an unlock by the holder takes back one lock, and nothing else changes who holds it.
  A lock that cannot be granted ends as in the table of its port.  The table agrees with \<^verbatim>\<open>os_mutex.h\<close> on FreeRTOS and Zephyr
  for every timeout but \<open>POS_TIME_NO_WAIT\<close>, and on POSIX and RT-Thread for \<open>POS_TIME_FOREVER\<close> only: POSIX may answer \<open>POS_EINVAL\<close> at
  once, and RT-Thread answers \<open>POS_BAD_MUTEX\<close> or, from \<open>2^31\<close> on, may wait for ever.  How long a wait lasts is not part of the
  statement.  No call asserts or has undefined behaviour.\<close>

theorem osal_mutex_ports:
  assumes "pthread_mutex_kernel papi pown recursive attr_recursive plimit"
    and "pos_mutex_init_posix papi pw0 = Returns POS_OK pw"
    and "freertos_mutex_kernel hw fapi fown task_mutex" and "\<not> pos_hw_in_isr_freertos hw (snd fw0)"
    and "pos_mutex_init_freertos fapi False fw0 = Returns POS_OK fw"
    and "zephyr_mutex_kernel zapi zown live" and "pos_mutex_init_zephyr zapi zw0 = Returns POS_OK zw"
    and "rtt_mutex_kernel rapi rown usable hold_max" and "pos_mutex_init_rtt rapi False rw0 = Returns POS_OK rw"
  shows "(pos_mutex_init_doc st0 (Inr POS_OK) (pown (snd pw) (pm_lock (fst pw))) \<and>
          meets (mutex_step (pos_mutex_lock_posix papi) (pos_mutex_unlock_posix papi))
            (mutex_doc plimit posix_mutex_refusals [POS_ERR_PRIV]) (\<lambda>(mu, k). pown k (pm_lock mu)) cs pw) \<and>
         (\<exists>h. fm_handle (fst fw) = Some h \<and> pos_mutex_init_doc st0 (Inr POS_OK) (fown (snd fw) h) \<and>
          meets (mutex_step (pos_mutex_lock_freertos hw fapi False) (pos_mutex_unlock_freertos hw fapi False))
            (mutex_doc limit freertos_refusals [POS_BAD_MUTEX]) (\<lambda>(mu, k). fown k h) cs fw) \<and>
         (pos_mutex_init_doc st0 (Inr POS_OK) (zown (snd zw) (zm_mutex (fst zw))) \<and>
          meets (mutex_step (pos_mutex_lock_zephyr zapi) (pos_mutex_unlock_zephyr zapi))
            (mutex_doc limit zephyr_refusals [POS_ERROR]) (\<lambda>(mu, k). zown k (zm_mutex mu)) cs zw) \<and>
         (\<exists>h. rm_handle (fst rw) = Some h \<and> pos_mutex_init_doc st0 (Inr POS_OK) (rown (snd rw) h) \<and>
          meets (mutex_step (pos_mutex_lock_rtt rapi False) (pos_mutex_unlock_rtt rapi False))
            (mutex_doc hold_max (rtt_refusals POS_BAD_MUTEX) [POS_BAD_MUTEX]) (\<lambda>(mu, k). rown k h) cs rw) \<and>
         (as_documented POS_TIME_FOREVER_posix POS_TIME_NO_WAIT_posix posix_mutex_refusals tmo \<longleftrightarrow> tmo = POS_TIME_FOREVER_posix) \<and>
         (as_documented POS_TIME_FOREVER_freertos POS_TIME_NO_WAIT_freertos freertos_refusals tmo \<longleftrightarrow>
            tmo \<noteq> POS_TIME_NO_WAIT_freertos) \<and>
         (as_documented POS_TIME_FOREVER_zephyr POS_TIME_NO_WAIT_zephyr zephyr_refusals tmo \<longleftrightarrow> tmo \<noteq> POS_TIME_NO_WAIT_zephyr) \<and>
         (as_documented POS_TIME_FOREVER_rtt POS_TIME_NO_WAIT_rtt (rtt_refusals POS_BAD_MUTEX) tmo \<longleftrightarrow> tmo = POS_TIME_FOREVER_rtt)"
  using pthread_mutex_kernel.mutex_documented [OF assms(1,2), of st0 cs]
    freertos_mutex_kernel.mutex_documented [OF assms(3-5), of st0 limit cs]
    zephyr_mutex_kernel.mutex_documented [OF assms(6,7), of st0 limit cs]
    rtt_mutex_kernel.mutex_documented [OF assms(8,9), of st0 cs] mutex_tables [of tmo]
  by blast

lemma ref_mutex_inits:
  "\<not> pos_hw_in_isr_freertos ref_hw ref_freertos0"
  "pos_mutex_init_freertos ref_freertos_mutex False (\<lparr>fm_handle = None\<rparr>, ref_freertos0) =
     Returns POS_OK (\<lparr>fm_handle = Some 0\<rparr>, ref_freertos0\<lparr>rf_next := 1\<rparr>)"
  "pos_mutex_init_zephyr ref_zephyr_mutex (\<lparr>zm_mutex = 0\<rparr>, \<lparr>rz_own = \<lambda>_. None, rz_count = \<lambda>_. 0\<rparr>) =
     Returns POS_OK (\<lparr>zm_mutex = 0\<rparr>, \<lparr>rz_own = \<lambda>_. None, rz_count = \<lambda>_. 0\<rparr>)"
  "pos_mutex_init_rtt ref_rtt_mutex False (\<lparr>rm_handle = None\<rparr>, ref_rtt0) =
     Returns POS_OK (\<lparr>rm_handle = Some 0\<rparr>, ref_rtt0\<lparr>rr_next := 1\<rparr>)"
  by (simp_all add: ref_hw_def ref_freertos0_def pos_hw_in_isr_freertos_def pos_mutex_init_freertos_def prog_defs
      ref_freertos_mutex_def pos_mutex_init_zephyr_def ref_zephyr_mutex_def pos_mutex_init_rtt_def
      ref_rtt_mutex_def ref_rtt0_def fun_eq_iff)

theorem osal_mutex_ports_witness:
  "meets (mutex_step (pos_mutex_lock_posix ref_mutex_api) (pos_mutex_unlock_posix ref_mutex_api))
     (mutex_doc rm_limit posix_mutex_refusals [POS_ERR_PRIV]) (\<lambda>(mu, k). rm_own k (pm_lock mu))
     [MLock 1 0, MLock 1 5, MLock 2 7, MUnlock 2, MUnlock 1] (mutex0, ref_mutexes1) \<and>
   (\<exists>h. fm_handle \<lparr>fm_handle = Some 0\<rparr> = Some h \<and>
     meets (mutex_step (pos_mutex_lock_freertos ref_hw ref_freertos_mutex False)
       (pos_mutex_unlock_freertos ref_hw ref_freertos_mutex False))
     (mutex_doc 9 freertos_refusals [POS_BAD_MUTEX]) (\<lambda>(mu, k). rf_own k h)
     [MLock 1 0, MLock 1 5, MLock 2 7, MUnlock 2, MUnlock 1]
     (\<lparr>fm_handle = Some 0\<rparr>, ref_freertos0\<lparr>rf_next := 1\<rparr>)) \<and>
   meets (mutex_step (pos_mutex_lock_zephyr ref_zephyr_mutex) (pos_mutex_unlock_zephyr ref_zephyr_mutex))
     (mutex_doc 9 zephyr_refusals [POS_ERROR]) (\<lambda>(mu, k). rz_own k (zm_mutex mu))
     [MLock 1 0, MLock 1 5, MLock 2 7, MUnlock 2, MUnlock 1]
     (\<lparr>zm_mutex = 0\<rparr>, \<lparr>rz_own = \<lambda>_. None, rz_count = \<lambda>_. 0\<rparr>) \<and>
   (\<exists>h. rm_handle \<lparr>rm_handle = Some 0\<rparr> = Some h \<and>
     meets (mutex_step (pos_mutex_lock_rtt ref_rtt_mutex False) (pos_mutex_unlock_rtt ref_rtt_mutex False))
     (mutex_doc RT_MUTEX_HOLD_MAX (rtt_refusals POS_BAD_MUTEX) [POS_BAD_MUTEX]) (\<lambda>(mu, k). rr_own k h)
     [MLock 1 0, MLock 1 5, MLock 2 7, MUnlock 2, MUnlock 1]
     (\<lparr>rm_handle = Some 0\<rparr>, ref_rtt0\<lparr>rr_next := 1\<rparr>))"
  using osal_mutex_ports [OF ref_posix_mutex.pthread_mutex_kernel_axioms ref_mutex_init
      ref_freertos_mutex.freertos_mutex_kernel_axioms _ ref_mutex_inits(2)
      ref_zephyr_mutex.zephyr_mutex_kernel_axioms ref_mutex_inits(3)
      ref_rtt_mutex.rtt_mutex_kernel_axioms ref_mutex_inits(4), of None
      "[MLock 1 0, MLock 1 5, MLock 2 7, MUnlock 2, MUnlock 1]" 9]
    ref_mutex_inits(1)
  by auto

text \<open>C15. The semaphores of the four ports count tokens: after a successful initialisation the count is the given one, and over every
  sequence of gives and takes a give below the maximum adds a token, a take with a token present removes one, both with
  \<open>POS_OK\<close>, and every other call leaves the count.  A take without a token ends as in the table of its port, which
  agrees with \<^verbatim>\<open>os_sem.h\<close> on FreeRTOS and Zephyr for every timeout but \<open>POS_TIME_NO_WAIT\<close>, on RT-Thread for
  \<open>POS_TIME_FOREVER\<close> and the positive numbers of ticks, and on POSIX never, where it may also answer \<open>POS_EINVAL\<close> or \<open>POS_ERROR\<close> without
  waiting.  A give at the maximum has no effect on Zephyr, reports \<open>POS_ERROR\<close> on POSIX and RT-Thread, and fails
  an assertion on FreeRTOS.\<close>

theorem osal_sem_ports:
  assumes "posix_sem_kernel papi pcount live max_value" and "pos_sem_init_posix papi n pw0 = Returns POS_OK pw"
    and "freertos_sem_kernel hw fapi fcount task_sem" and "\<not> pos_hw_in_isr_freertos hw (snd fw0)"
    and "pos_sem_init_freertos fapi False n fw0 = Returns POS_OK fw"
    and "zephyr_sem_kernel zapi zcount zlive" and "pos_sem_init_zephyr zapi n zw0 = Returns POS_OK zw"
    and "rtt_sem_kernel rapi rcount usable value_max" and "pos_sem_init_rtt rapi False n rw0 = Returns POS_OK rw"
  shows "(pos_sem_init_doc n n0 (Inr POS_OK) (pcount (snd pw) (ps_lock (fst pw))) \<and>
          meets (sem_step (pos_sem_give_posix papi) (pos_sem_take_posix papi))
            (sem_doc max_value [Inr POS_ERROR] posix_sem_refusals) (\<lambda>(s, k). pcount k (ps_lock s)) cs pw) \<and>
         (\<exists>h. fs_handle (fst fw) = Some h \<and> pos_sem_init_doc n n0 (Inr POS_OK) (fcount (snd fw) h) \<and>
          meets (sem_step (pos_sem_give_freertos hw fapi junk False) (pos_sem_take_freertos hw fapi junk False))
            (sem_doc 128 [Inl Assert_Failure] freertos_refusals) (\<lambda>(s, k). fcount k h) cs fw) \<and>
         (pos_sem_init_doc n n0 (Inr POS_OK) (zcount (snd zw) (zs_sem (fst zw))) \<and>
          meets (sem_step (pos_sem_give_zephyr zapi) (pos_sem_take_zephyr zapi))
            (sem_doc (unat K_SEM_MAX_LIMIT) [Inr POS_OK] zephyr_refusals) (\<lambda>(s, k). zcount k (zs_sem s)) cs zw) \<and>
         (\<exists>h. rsm_handle (fst rw) = Some h \<and> pos_sem_init_doc n n0 (Inr POS_OK) (rcount (snd rw) h) \<and>
          meets (sem_step (pos_sem_give_rtt rapi False) (pos_sem_take_rtt rapi False))
            (sem_doc value_max [Inr POS_ERROR] (rtt_refusals POS_TIMEOUT)) (\<lambda>(s, k). rcount k h) cs rw) \<and>
         \<not> as_documented POS_TIME_FOREVER_posix POS_TIME_NO_WAIT_posix posix_sem_refusals tmo \<and>
         (as_documented POS_TIME_FOREVER_freertos POS_TIME_NO_WAIT_freertos freertos_refusals tmo \<longleftrightarrow>
            tmo \<noteq> POS_TIME_NO_WAIT_freertos) \<and>
         (as_documented POS_TIME_FOREVER_zephyr POS_TIME_NO_WAIT_zephyr zephyr_refusals tmo \<longleftrightarrow> tmo \<noteq> POS_TIME_NO_WAIT_zephyr) \<and>
         (as_documented POS_TIME_FOREVER_rtt POS_TIME_NO_WAIT_rtt (rtt_refusals POS_TIMEOUT) tmo \<longleftrightarrow>
            tmo = POS_TIME_FOREVER_rtt \<or> 0 \<le> sint tmo \<and> tmo \<noteq> POS_TIME_NO_WAIT_rtt)"
  using posix_sem_kernel.sem_documented [OF assms(1,2), of n0 cs]
    freertos_sem_kernel.sem_documented [OF assms(3-5), of n0 junk cs]
    zephyr_sem_kernel.sem_documented [OF assms(6,7), of n0 cs]
    rtt_sem_kernel.sem_documented [OF assms(8,9), of n0 cs] sem_tables [of tmo]
  by blast

definition ref_sems0 :: ref_sems where
  "ref_sems0 = \<lparr>rs_count = \<lambda>_. 0, rs_live = \<lambda>_. False, rs_errno = 0, rs_now = 0\<rparr>"

lemma ref_sem_inits:
  "\<exists>w. pos_sem_init_posix ref_sem_api 2 (\<lparr>ps_lock = 0\<rparr>, ref_sems0) = Returns POS_OK w"
  "pos_sem_init_freertos ref_freertos_sem False 2 (\<lparr>fs_handle = None\<rparr>, ref_freertos0) =
     Returns POS_OK (\<lparr>fs_handle = Some 0\<rparr>, ref_freertos0\<lparr>rf_next := 1, rf_count := (\<lambda>_. 0)(0 := 2)\<rparr>)"
  "\<exists>w. pos_sem_init_zephyr ref_zephyr_sem 2 (\<lparr>zs_sem = 0\<rparr>, \<lparr>rz_own = \<lambda>_. None, rz_count = \<lambda>_. 0\<rparr>) = Returns POS_OK w"
  "\<exists>w. pos_sem_init_rtt ref_rtt_sem False 2 (\<lparr>rsm_handle = None\<rparr>, ref_rtt0) = Returns POS_OK w"
  by (simp_all add: pos_sem_init_posix_def ref_sem_simps pos_sem_init_freertos_def ref_freertos_sem_def
      ref_freertos0_def pos_sem_init_zephyr_def ref_zephyr_sem_def pos_sem_init_rtt_def ref_rtt_sem_def ref_rtt0_def
      RT_SEM_VALUE_MAX_def ref_sems0_def)

theorem osal_sem_ports_witness:
  "\<exists>pw zw rw. pos_sem_init_posix ref_sem_api 2 (\<lparr>ps_lock = 0\<rparr>, ref_sems0) = Returns POS_OK pw \<and>
     meets (sem_step (pos_sem_give_posix ref_sem_api) (pos_sem_take_posix ref_sem_api))
       (sem_doc SEM_VALUE_MAX [Inr POS_ERROR] posix_sem_refusals) (\<lambda>(s, k). rs_count k (ps_lock s))
       [STake 1, STake 0, STake 3, SGive] pw \<and>
     meets (sem_step (pos_sem_give_freertos ref_hw ref_freertos_sem 0 False)
         (pos_sem_take_freertos ref_hw ref_freertos_sem 0 False))
       (sem_doc 128 [Inl Assert_Failure] freertos_refusals) (\<lambda>(s, k). rf_count k 0)
       [STake 1, STake 0, STake 3, SGive]
       (\<lparr>fs_handle = Some 0\<rparr>, ref_freertos0\<lparr>rf_next := 1, rf_count := (\<lambda>_. 0)(0 := 2)\<rparr>) \<and>
     meets (sem_step (pos_sem_give_zephyr ref_zephyr_sem) (pos_sem_take_zephyr ref_zephyr_sem))
       (sem_doc (unat K_SEM_MAX_LIMIT) [Inr POS_OK] zephyr_refusals) (\<lambda>(s, k). rz_count k (zs_sem s))
       [STake 1, STake 0, STake 3, SGive] zw \<and>
     (\<exists>h. meets (sem_step (pos_sem_give_rtt ref_rtt_sem False) (pos_sem_take_rtt ref_rtt_sem False))
       (sem_doc RT_SEM_VALUE_MAX [Inr POS_ERROR] (rtt_refusals POS_TIMEOUT)) (\<lambda>(s, k). rr_count k h)
       [STake 1, STake 0, STake 3, SGive] rw)"
proof -
  obtain pw zw rw where i: "pos_sem_init_posix ref_sem_api 2 (\<lparr>ps_lock = 0\<rparr>, ref_sems0) = Returns POS_OK pw"
      "pos_sem_init_zephyr ref_zephyr_sem 2 (\<lparr>zs_sem = 0\<rparr>, \<lparr>rz_own = \<lambda>_. None, rz_count = \<lambda>_. 0\<rparr>) = Returns POS_OK zw"
      "pos_sem_init_rtt ref_rtt_sem False 2 (\<lparr>rsm_handle = None\<rparr>, ref_rtt0) = Returns POS_OK rw"
    using ref_sem_inits by blast
  from osal_sem_ports [OF ref_posix_sem.posix_sem_kernel_axioms i(1)
      ref_freertos_sem.freertos_sem_kernel_axioms _ ref_sem_inits(2)
      ref_zephyr_sem.zephyr_sem_kernel_axioms i(2) ref_rtt_sem.rtt_sem_kernel_axioms i(3),
      of 0 "[STake 1, STake 0, STake 3, SGive]" 0] ref_mutex_inits(1) i(1)
  show ?thesis by (intro exI [of _ pw] exI [of _ zw] exI [of _ rw]) auto
qed

end
