(* ===== verification/Os_Ring.thy ===== *)
theory Os_Ring
  imports Osal_Interfaces
begin

text \<open>
  The ring buffer class of \<^verbatim>\<open>include/poski/OsRing.h\<close>: fixed-size items copied byte by byte
  into one heap array, with two free-running 16-bit indices that wrap around and are
  masked only when the array is addressed.  The class is modelled at machine level
  (16-bit fields, 32-bit offset arithmetic, a flat byte array) and related to a plain
  list of byte blocks, the first-in first-out queue it stands for.
\<close>

section \<open>Definitions\<close>

record OsRing =
  ring_buffer :: bytes
  itemSize :: u16
  itemCount :: u16
  readIndex :: u16
  writeIndex :: u16

text \<open>The constructor's assertion; the 16-bit operands are promoted to \<open>int\<close>.\<close>

definition ring_count_ok :: "u16 \<Rightarrow> bool" where
  "ring_count_ok c \<longleftrightarrow> 0 < uint c \<and> (uint c - 1) AND uint c = 0"

text \<open>A product of two \<open>int\<close> values; \<open>None\<close> on signed overflow.\<close>

definition c_int_mul :: "int \<Rightarrow> int \<Rightarrow> int option" where
  "c_int_mul a b = (if - (2 ^ 31) \<le> a * b \<and> a * b < 2 ^ 31 then Some (a * b) else None)"

text \<open>
  \<open>heap_ok n\<close> tells whether \<open>new uint8_t[n]\<close> succeeds (otherwise it throws), and \<open>junk\<close> is
  the indeterminate content of the fresh array.
\<close>

definition OsRing_new :: "(nat \<Rightarrow> bool) \<Rightarrow> (nat \<Rightarrow> u8) \<Rightarrow> u16 \<Rightarrow> u16 \<Rightarrow> stop + OsRing" where
  "OsRing_new heap_ok junk sz cnt =
     (if \<not> ring_count_ok cnt then Inl Assert_Failure
      else case c_int_mul (uint sz) (uint cnt) of
        None \<Rightarrow> Inl Undefined_Behaviour
      | Some n \<Rightarrow>
          if \<not> heap_ok (nat n) then Inl Uncaught_Exception
          else Inr \<lparr>ring_buffer = map junk [0..<nat n], itemSize = sz, itemCount = cnt,
                    readIndex = 0, writeIndex = 0\<rparr>)"

definition OsRing_item_size :: "OsRing \<Rightarrow> u16" where
  "OsRing_item_size r = itemSize r"

definition OsRing_max_size :: "OsRing \<Rightarrow> u16" where
  "OsRing_max_size r = itemCount r"

definition OsRing_size :: "OsRing \<Rightarrow> u16" where
  "OsRing_size r = writeIndex r - readIndex r"

definition OsRing_empty :: "OsRing \<Rightarrow> bool" where
  "OsRing_empty r \<longleftrightarrow> readIndex r = writeIndex r"

definition OsRing_full :: "OsRing \<Rightarrow> bool" where
  "OsRing_full r \<longleftrightarrow> OsRing_size r = itemCount r"

definition OsRing_mask :: "OsRing \<Rightarrow> u32 \<Rightarrow> u32" where
  "OsRing_mask r index = index AND word_of_int (uint (itemCount r) - 1)"

definition OsRing_inc :: "u32 \<Rightarrow> u32" where
  "OsRing_inc index = index + 1"

text \<open>The byte offset \<open>mask(index) * _itemSize\<close>, in 32-bit unsigned arithmetic.\<close>

definition OsRing_offset :: "OsRing \<Rightarrow> u16 \<Rightarrow> u32" where
  "OsRing_offset r ix = OsRing_mask r (ucast ix) * ucast (itemSize r)"

definition OsRing_push_back :: "bytes \<Rightarrow> (unit, OsRing) prog" where
  "OsRing_push_back item r =
     (if OsRing_full r then Stops Assert_Failure
      else case memcpy_at (ring_buffer r) (unat (OsRing_offset r (writeIndex r))) item
                  (unat (itemSize r)) of
        None \<Rightarrow> Stops Undefined_Behaviour
      | Some b \<Rightarrow>
          Returns () (r\<lparr>ring_buffer := b,
                        writeIndex := ucast (OsRing_inc (ucast (writeIndex r)))\<rparr>))"

definition OsRing_pop_front :: "(unit, OsRing) prog" where
  "OsRing_pop_front r =
     (if OsRing_empty r then Stops Assert_Failure
      else Returns () (r\<lparr>readIndex := ucast (OsRing_inc (ucast (readIndex r)))\<rparr>))"

text \<open>\<open>front()\<close> returns an address inside the array (here its offset) or the null pointer.\<close>

definition OsRing_front :: "OsRing \<Rightarrow> nat option" where
  "OsRing_front r =
     (let item = unat (OsRing_offset r (readIndex r))
      in if OsRing_empty r then None else Some item)"

text \<open>
  The bytes a client reads through \<open>front()\<close>: \<open>item_size()\<close> bytes from that address;
  \<open>None\<close> where the read leaves the array.
\<close>

definition ring_read :: "OsRing \<Rightarrow> nat \<Rightarrow> bytes option" where
  "ring_read r off =
     (if off + unat (itemSize r) \<le> length (ring_buffer r)
      then Some (take (unat (itemSize r)) (drop off (ring_buffer r))) else None)"

definition ring_peek :: "OsRing \<Rightarrow> bytes option" where
  "ring_peek r = Option.bind (OsRing_front r) (ring_read r)"

text \<open>
  The representation invariant, and the list of items the ring holds, oldest first: item
  \<open>i\<close> is the block at index \<open>readIndex + i\<close> modulo the capacity.
\<close>

definition ring_ok :: "OsRing \<Rightarrow> bool" where
  "ring_ok r \<longleftrightarrow>
     ring_count_ok (itemCount r) \<and>
     length (ring_buffer r) = unat (itemSize r) * unat (itemCount r) \<and>
     OsRing_size r \<le> itemCount r"

definition ring_slot :: "OsRing \<Rightarrow> nat \<Rightarrow> nat" where
  "ring_slot r i = (unat (readIndex r) + i) mod unat (itemCount r)"

definition ring_items :: "OsRing \<Rightarrow> bytes list" where
  "ring_items r =
     map (\<lambda>i. block (unat (itemSize r)) (ring_slot r i) (ring_buffer r))
       [0..<unat (OsRing_size r)]"

text \<open>A ring of four one-byte items whose indices have wrapped around 65536, for the examples.\<close>

definition wrapped_ring :: OsRing where
  "wrapped_ring = \<lparr>ring_buffer = [1, 2, 3, 4], itemSize = 1, itemCount = 4,
                   readIndex = 65535, writeIndex = 1\<rparr>"

section \<open>The capacity is a power of two\<close>

lemma ring_count_ok_iff: "ring_count_ok c \<longleftrightarrow> (\<exists>k. unat c = 2 ^ k)"
proof -
  have "ring_count_ok c \<longleftrightarrow> 0 < unat c \<and> (int (unat c) - 1) AND int (unat c) = 0"
    by (simp add: ring_count_ok_def uint_pos_iff)
  then show ?thesis by (simp only: pow2_test_iff)
qed

lemma ring_count_okE:
  assumes "ring_count_ok c"
  obtains k where "unat c = 2 ^ k" and "k < 16"
proof -
  from assms obtain k where k: "unat c = 2 ^ k" by (auto simp: ring_count_ok_iff)
  have "unat c < 2 ^ 16" using unat_u16_less [of c] by simp
  with k have "(2::nat) ^ k < 2 ^ 16" by simp
  then have "k < 16" using power_less_imp_less_exp [of "2::nat" k 16] by simp
  with k that show thesis by blast
qed

lemma ring_count_ok_pos: "ring_count_ok c \<Longrightarrow> 0 < unat c"
  by (auto elim!: ring_count_okE)

lemma ring_count_ok_le: "ring_count_ok c \<Longrightarrow> unat c \<le> 32768"
proof (erule ring_count_okE)
  fix k :: nat assume k: "unat c = 2 ^ k" "k < 16"
  then have "(2::nat) ^ k \<le> 2 ^ 15" by (intro power_increasing) auto
  with k show ?thesis by simp
qed

lemma ring_count_ok_dvd: "ring_count_ok c \<Longrightarrow> unat c dvd 65536"
proof (erule ring_count_okE)
  fix k :: nat assume k: "unat c = 2 ^ k" "k < 16"
  then have "(2::nat) ^ k dvd 2 ^ 16" by (intro le_imp_power_dvd) simp
  with k show ?thesis by simp
qed

section \<open>Index arithmetic\<close>

lemma OsRing_mask_mod:
  assumes "ring_count_ok (itemCount r)"
  shows "unat (OsRing_mask r (ucast (ix :: u16))) = unat ix mod unat (itemCount r)"
proof -
  obtain k where k: "unat (itemCount r) = 2 ^ k" "k < 16"
    using assms by (rule ring_count_okE)
  have c: "uint (itemCount r) = 2 ^ k"
    using k(1) by (metis of_nat_numeral of_nat_power uint_nat)
  have "OsRing_mask r (ucast ix) = take_bit k (ucast ix :: u32)"
    by (simp add: OsRing_mask_def c take_bit_eq_mask mask_eq_exp_minus_1)
  then have "unat (OsRing_mask r (ucast ix)) = take_bit k (unat ix)"
    by (simp only: unsigned_take_bit_eq unat_ucast_16_32)
  then show ?thesis by (simp add: take_bit_eq_mod k)
qed

lemma OsRing_inc_16: "ucast (OsRing_inc (ucast (ix :: u16))) = ix + 1"
  by (simp add: OsRing_inc_def ucast_succ_16)

lemma OsRing_offset_mod:
  assumes "ring_count_ok (itemCount r)"
  shows "unat (OsRing_offset r ix) = unat ix mod unat (itemCount r) * unat (itemSize r)"
proof -
  let ?m = "unat ix mod unat (itemCount r)"
  have "?m < unat (itemCount r)"
    using ring_count_ok_pos [OF assms] by simp
  then have "?m \<le> 32768" using ring_count_ok_le [OF assms] by simp
  moreover have "unat (itemSize r) \<le> 65535" using unat_u16_less [of "itemSize r"] by simp
  ultimately have "?m * unat (itemSize r) \<le> 32768 * 65535" by (rule mult_le_mono)
  then show ?thesis
    by (simp add: OsRing_offset_def unat_word_ariths OsRing_mask_mod [OF assms])
qed

lemma writeIndex_mod:
  assumes "ring_count_ok (itemCount r)"
  shows "unat (writeIndex r) mod unat (itemCount r) = ring_slot r (unat (OsRing_size r))"
proof -
  have "writeIndex r = readIndex r + OsRing_size r" by (simp add: OsRing_size_def)
  then have "unat (writeIndex r) = (unat (readIndex r) + unat (OsRing_size r)) mod 65536"
    by (simp add: unat_word_ariths)
  then show ?thesis
    using ring_count_ok_dvd [OF assms] by (simp add: ring_slot_def mod_mod_cancel)
qed

lemma ring_okD:
  assumes "ring_ok r"
  shows "ring_count_ok (itemCount r)"
    and "length (ring_buffer r) = unat (itemCount r) * unat (itemSize r)"
    and "unat (OsRing_size r) \<le> unat (itemCount r)"
  using assms by (simp_all add: ring_ok_def mult.commute word_le_nat_alt)

lemma ring_not_full:
  "ring_ok r \<Longrightarrow> \<not> OsRing_full r \<Longrightarrow> unat (OsRing_size r) < unat (itemCount r)"
  by (auto simp: ring_ok_def OsRing_full_def word_le_nat_alt order_less_le word_unat_eq_iff)

lemma OsRing_empty_iff: "OsRing_empty r \<longleftrightarrow> unat (OsRing_size r) = 0"
  by (auto simp: OsRing_empty_def OsRing_size_def unat_eq_0)

lemma length_ring_items: "length (ring_items r) = unat (OsRing_size r)"
  by (simp add: ring_items_def)

lemma OsRing_empty_items: "OsRing_empty r \<longleftrightarrow> ring_items r = []"
  by (simp add: OsRing_empty_iff length_ring_items flip: length_0_conv)

lemma OsRing_full_items:
  "OsRing_full r \<longleftrightarrow> length (ring_items r) = unat (itemCount r)"
  by (simp add: OsRing_full_def word_unat_eq_iff length_ring_items)

lemma ring_slot_less: "ring_ok r \<Longrightarrow> ring_slot r i < unat (itemCount r)"
  by (simp add: ring_slot_def ring_count_ok_pos ring_okD(1))

lemma ring_slot_inj:
  "ring_slot r i = ring_slot r j \<Longrightarrow> i < unat (itemCount r) \<Longrightarrow> j < unat (itemCount r) \<Longrightarrow> i = j"
  unfolding ring_slot_def by (rule mod_shift_inj)

lemma ring_items_width: "ring_ok r \<Longrightarrow> x \<in> set (ring_items r) \<Longrightarrow> length x = unat (itemSize r)"
  by (auto simp: ring_items_def ring_okD(2) intro!: length_block block_bound ring_slot_less)

section \<open>The operations on the list of items\<close>

lemma OsRing_new_ok:
  assumes "OsRing_new heap_ok junk sz cnt = Inr r"
  shows "ring_ok r" and "ring_items r = []" and "itemSize r = sz" and "itemCount r = cnt"
proof -
  have r: "r = \<lparr>ring_buffer = map junk [0..<nat (uint sz * uint cnt)], itemSize = sz,
                itemCount = cnt, readIndex = 0, writeIndex = 0\<rparr>"
    and cnt: "ring_count_ok cnt"
    using assms by (auto simp: OsRing_new_def c_int_mul_def split: if_splits)
  have "uint sz * uint cnt = int (unat sz * unat cnt)" by simp
  then have "nat (uint sz * uint cnt) = unat sz * unat cnt" by (simp only: nat_int)
  then show "ring_ok r" using cnt by (simp add: r ring_ok_def OsRing_size_def)
  show "ring_items r = []" by (simp add: r ring_items_def OsRing_size_def)
  show "itemSize r = sz" and "itemCount r = cnt" by (simp_all add: r)
qed

text \<open>The array size never overflows \<open>int\<close>: the largest capacity is 32768.\<close>

lemma OsRing_new_product:
  assumes "ring_count_ok cnt"
  shows "c_int_mul (uint (sz :: u16)) (uint cnt) = Some (uint sz * uint cnt)"
proof -
  have "unat sz * unat cnt \<le> 65535 * 32768"
    using unat_u16_less [of sz] ring_count_ok_le [OF assms] by (intro mult_le_mono) auto
  then have "int (unat sz * unat cnt) \<le> int (65535 * 32768)" by (simp only: of_nat_le_iff)
  then have "uint sz * uint cnt \<le> 65535 * 32768" by simp
  moreover have "- (2 ^ 31) \<le> uint sz * uint cnt" by (rule order_trans [of _ 0]) simp_all
  ultimately show ?thesis by (simp add: c_int_mul_def)
qed

lemma ring_write_slot_memcpy:
  assumes "ring_ok r" and "unat (itemSize r) \<le> length item"
  shows "\<exists>b. memcpy_at (ring_buffer r) (ring_slot r i * unat (itemSize r)) item
                (unat (itemSize r)) = Some b"
  using assms block_bound [OF ring_slot_less [OF assms(1), of i], of "unat (itemSize r)"]
  by (simp add: memcpy_at_def ring_okD(2))

lemma OsRing_size_push:
  assumes "ring_ok r" and "\<not> OsRing_full r"
  shows "unat (OsRing_size r + 1) = Suc (unat (OsRing_size r))"
proof -
  have "unat (OsRing_size r) < 32768"
    using ring_not_full [OF assms] ring_count_ok_le [OF ring_okD(1) [OF assms(1)]] by simp
  then show ?thesis by (simp add: unat_word_ariths)
qed

lemma OsRing_push_back_items:
  assumes ok: "ring_ok r" and nf: "\<not> OsRing_full r" and len: "unat (itemSize r) \<le> length item"
  shows "\<exists>r'. OsRing_push_back item r = Returns () r' \<and> ring_ok r' \<and>
              ring_items r' = ring_items r @ [take (unat (itemSize r)) item] \<and>
              itemSize r' = itemSize r \<and> itemCount r' = itemCount r"
proof -
  let ?n = "unat (OsRing_size r)" and ?sz = "unat (itemSize r)"
  obtain b where b: "memcpy_at (ring_buffer r) (ring_slot r ?n * ?sz) item ?sz = Some b"
    using ring_write_slot_memcpy [OF ok len] by blast
  define r' where "r' = r\<lparr>ring_buffer := b, writeIndex := writeIndex r + 1\<rparr>"
  have push: "OsRing_push_back item r = Returns () r'"
    using nf b ok
    by (simp add: OsRing_push_back_def OsRing_offset_mod writeIndex_mod ring_okD(1) OsRing_inc_16
        r'_def)
  have size': "OsRing_size r' = OsRing_size r + 1"
    by (simp add: r'_def OsRing_size_def)
  have slot': "ring_slot r' = ring_slot r"
    by (rule ext) (simp add: r'_def ring_slot_def)
  have "block ?sz (ring_slot r i) b = block ?sz (ring_slot r i) (ring_buffer r)" if "i < ?n" for i
    using b that ring_slot_inj [of r ?n i] ring_not_full [OF ok nf]
    by (intro memcpy_at_block_other [OF b]) auto
  then have "ring_items r' = ring_items r @ [take ?sz item]"
    using memcpy_at_block_same [OF b]
    by (simp add: ring_items_def size' slot' OsRing_size_push [OF ok nf]) (simp add: r'_def)
  moreover have "ring_ok r'"
    using ok ring_not_full [OF ok nf] memcpy_at_length [OF b] OsRing_size_push [OF ok nf]
    by (simp add: ring_ok_def size' word_le_nat_alt) (simp add: r'_def)
  ultimately show ?thesis using push by (auto simp: r'_def)
qed

lemma OsRing_pop_front_items:
  assumes ok: "ring_ok r" and ne: "\<not> OsRing_empty r"
  shows "\<exists>r'. OsRing_pop_front r = Returns () r' \<and> ring_ok r' \<and>
              ring_items r' = tl (ring_items r) \<and>
              itemSize r' = itemSize r \<and> itemCount r' = itemCount r"
proof -
  define r' where "r' = r\<lparr>readIndex := readIndex r + 1\<rparr>"
  obtain n where n: "unat (OsRing_size r) = Suc n"
    using ne by (auto simp: OsRing_empty_iff gr0_conv_Suc)
  have "OsRing_size r' = OsRing_size r - 1"
    by (simp add: r'_def OsRing_size_def)
  then have size': "unat (OsRing_size r') = n"
    using n by (simp add: unat_sub word_le_nat_alt)
  have slot': "ring_slot r' i = ring_slot r (Suc i)" for i
    using mod_dvd_add [OF ring_count_ok_dvd [OF ring_okD(1) [OF ok]], of "unat (readIndex r) + 1" i]
    by (simp add: r'_def ring_slot_def unat_succ_u16)
  have "ring_items r' = tl (ring_items r)"
    by (simp add: ring_items_def size' n slot' map_upt_Suc del: upt_Suc) (simp add: r'_def)
  moreover have "ring_ok r'"
    using ok n size' by (simp add: ring_ok_def word_le_nat_alt) (simp add: r'_def)
  ultimately show ?thesis
    using ne by (auto simp: OsRing_pop_front_def OsRing_inc_16 r'_def)
qed

lemma ring_peek_items:
  assumes ok: "ring_ok r"
  shows "ring_peek r = (case ring_items r of [] \<Rightarrow> None | y # _ \<Rightarrow> Some y)"
proof (cases "unat (OsRing_size r)")
  case 0
  then have "ring_items r = []" by (simp add: length_ring_items flip: length_0_conv)
  then show ?thesis using 0 by (simp add: ring_peek_def OsRing_front_def OsRing_empty_iff)
next
  case (Suc n)
  let ?i = "unat (readIndex r) mod unat (itemCount r)" and ?sz = "unat (itemSize r)"
  have "?i * ?sz + ?sz \<le> length (ring_buffer r)"
    using block_bound [OF ring_slot_less [OF ok, of 0], of ?sz]
    by (simp add: ring_slot_def ring_okD(2) [OF ok])
  then have "ring_peek r = Some (block ?sz ?i (ring_buffer r))"
    using Suc by (simp add: ring_peek_def OsRing_front_def OsRing_empty_iff ring_read_def block_def
        OsRing_offset_mod [OF ring_okD(1) [OF ok]])
  moreover have "hd (ring_items r) = block ?sz ?i (ring_buffer r)" and "ring_items r \<noteq> []"
    using Suc by (simp_all add: ring_items_def ring_slot_def hd_map upt_conv_Cons del: upt_Suc)
  ultimately show ?thesis by (cases "ring_items r") simp_all
qed

section \<open>The ring meets the buffer contract\<close>

interpretation ring: fifo_buffer OsRing_push_back OsRing_pop_front ring_peek ring_items
  "\<lambda>r. unat (itemCount r)" "\<lambda>r. unat (itemSize r)" ring_ok
proof (unfold_locales, goal_cases)
  case (1 q x)
  then show ?case
    using OsRing_push_back_items [of q x] by (auto simp: OsRing_full_items)
next
  case (2 q x)
  then show ?case by (simp add: OsRing_push_back_def OsRing_full_items)
next
  case (3 q y ys)
  then show ?case
    using OsRing_pop_front_items [of q] by (auto simp: OsRing_empty_items)
next
  case (4 q)
  then show ?case by (simp add: OsRing_pop_front_def OsRing_empty_items)
next
  case (5 q)
  then show ?case by (rule ring_peek_items)
next
  case (6 q)
  then show ?case using ring_okD(3) by (simp add: length_ring_items)
next
  case (7 q y)
  then show ?case by (rule ring_items_width)
qed

lemma wrapped_ring_ok: "ring_ok wrapped_ring"
  by (simp add: wrapped_ring_def ring_ok_def ring_count_ok_def OsRing_size_def)

lemma wrapped_ring_items: "ring_items wrapped_ring = [[4], [1]]"
  by (simp add: wrapped_ring_def ring_items_def OsRing_size_def ring_slot_def block_def upt_rec)

section \<open>Properties\<close>

text \<open>The constructor succeeds exactly for capacities that are powers of two: it stops with
  the assertion for every other capacity, computes the array size without signed overflow for
  every item size, and otherwise yields an empty, well-formed ring unless the allocation throws.\<close>

theorem OsRing_new_outcome:
  "OsRing_new heap_ok junk sz cnt =
     (if \<not> (\<exists>k. unat cnt = 2 ^ k) then Inl Assert_Failure
      else if \<not> heap_ok (unat sz * unat cnt) then Inl Uncaught_Exception
      else Inr \<lparr>ring_buffer = map junk [0..<unat sz * unat cnt], itemSize = sz, itemCount = cnt,
                readIndex = 0, writeIndex = 0\<rparr>)"
proof (cases "ring_count_ok cnt")
  case True
  have "uint sz * uint cnt = int (unat sz * unat cnt)" by simp
  then have "nat (uint sz * uint cnt) = unat sz * unat cnt" by (simp only: nat_int)
  with True show ?thesis
    by (simp add: OsRing_new_def OsRing_new_product ring_count_ok_iff [symmetric])
next
  case False
  then show ?thesis by (simp add: OsRing_new_def ring_count_ok_iff [symmetric])
qed

text \<open>C2. Pushing into a well-formed ring, whatever the wrapped indices are: a full ring trips the
  assertion; otherwise exactly the first \<open>itemSize\<close> bytes of the item are appended behind
  the items already there, no other item changes, and the ring stays well-formed.\<close>

theorem OsRing_push_back_appends:
  assumes "ring_ok r" and "unat (itemSize r) \<le> length item"
  shows "if length (ring_items r) = unat (itemCount r)
         then OsRing_push_back item r = Stops Assert_Failure
         else \<exists>r'. OsRing_push_back item r = Returns () r' \<and> ring_ok r' \<and>
                   ring_items r' = ring_items r @ [take (unat (itemSize r)) item] \<and>
                   itemSize r' = itemSize r \<and> itemCount r' = itemCount r"
  using OsRing_push_back_items [OF assms(1) _ assms(2)]
  by (auto simp: OsRing_push_back_def OsRing_full_items)

theorem OsRing_push_back_appends_witness:
  "ring_items wrapped_ring = [[4], [1]] \<and>
   (\<exists>r'. OsRing_push_back [9] wrapped_ring = Returns () r' \<and> ring_items r' = [[4], [1], [9]])"
proof -
  have len: "unat (itemSize wrapped_ring) \<le> length [9 :: u8]" by (simp add: wrapped_ring_def)
  have "itemCount wrapped_ring = 4" "itemSize wrapped_ring = 1" by (simp_all add: wrapped_ring_def)
  then show ?thesis
    using OsRing_push_back_appends [OF wrapped_ring_ok len] wrapped_ring_items by auto
qed

text \<open>C28. Reading and removing the oldest item of a well-formed ring: on an empty ring \<open>front\<close>
  returns the null pointer and \<open>pop_front\<close> trips the assertion; otherwise \<open>front\<close> points
  inside the array at the bytes of the oldest item and \<open>pop_front\<close> removes exactly that item.\<close>

theorem OsRing_front_pop_front:
  assumes "ring_ok r"
  shows "case ring_items r of
           [] \<Rightarrow> OsRing_front r = None \<and> OsRing_pop_front r = Stops Assert_Failure
         | y # ys \<Rightarrow>
             (\<exists>off. OsRing_front r = Some off \<and> off + unat (itemSize r) \<le> length (ring_buffer r) \<and>
                    take (unat (itemSize r)) (drop off (ring_buffer r)) = y) \<and>
             (\<exists>r'. OsRing_pop_front r = Returns () r' \<and> ring_ok r' \<and> ring_items r' = ys)"
proof (cases "ring_items r")
  case Nil
  then show ?thesis
    using OsRing_empty_items [of r] by (simp add: OsRing_front_def OsRing_pop_front_def)
next
  case (Cons y ys)
  then have "ring_peek r = Some y" using ring_peek_items [OF assms] by simp
  then have "\<exists>off. OsRing_front r = Some off \<and> off + unat (itemSize r) \<le> length (ring_buffer r) \<and>
                   take (unat (itemSize r)) (drop off (ring_buffer r)) = y"
    by (auto simp: ring_peek_def ring_read_def bind_eq_Some_conv split: if_splits)
  then show ?thesis using ring.pop_item [OF assms Cons] Cons by auto
qed

theorem OsRing_front_pop_front_witness:
  "\<exists>r'. OsRing_pop_front wrapped_ring = Returns () r' \<and> ring_items r' = [[1]]"
  using OsRing_front_pop_front [OF wrapped_ring_ok] by (auto simp: wrapped_ring_items)

text \<open>C24. First in, first out: any batch of items of the item size that fits, pushed into a fresh ring and then
  read and removed one by one, comes back unchanged and in order, and leaves the ring empty.\<close>

theorem OsRing_fifo_roundtrip:
  assumes "OsRing_new heap_ok junk sz cnt = Inr r" and "length xs \<le> unat cnt"
    and "\<forall>x \<in> set xs. length x = unat sz"
  shows "\<exists>r'. c_then (push_all OsRing_push_back xs) (drain ring_peek OsRing_pop_front (length xs)) r =
                Returns xs r' \<and> ring_ok r' \<and> ring_items r' = []"
  using OsRing_new_ok [OF assms(1)] assms(2,3) by (intro ring.push_drain_roundtrip) auto

theorem OsRing_fifo_roundtrip_witness:
  "\<exists>r r'. OsRing_new (\<lambda>_. True) (\<lambda>_. 0) 2 4 = Inr r \<and>
     c_then (push_all OsRing_push_back [[1, 2], [3, 4], [5, 6]]) (drain ring_peek OsRing_pop_front 3) r =
       Returns [[1, 2], [3, 4], [5, 6]] r'"
proof -
  obtain r where r: "OsRing_new (\<lambda>_. True) (\<lambda>_. 0) 2 4 = Inr r"
    by (simp add: OsRing_new_def ring_count_ok_def c_int_mul_def)
  show ?thesis using r OsRing_fifo_roundtrip [OF r, of "[[1, 2], [3, 4], [5, 6]]"]
    by (auto simp: numeral_3_eq_3)
qed

end
