(* ===== verification/Ring_Pthread.thy ===== *)
theory Ring_Pthread
  imports Os_Ring
begin

text \<open>
  The thread-safe ring of \<^verbatim>\<open>targets/posix/RingPthread.h\<close>: a ring guarded by a mutex, with a
  condition variable for consumers.  It is modelled twice.  The \<open>RingPthread_\<close> functions
  give each method's effect at the instant its critical section runs.  The step relation
  \<open>rp_step\<close> gives the interleaved execution of any number of threads, one step per line
  of the methods: lock, test, wait, signal, unlock.  The steps that stand for the
  pthread calls follow the POSIX descriptions: a lock is granted when the mutex is free,
  \<open>pthread_cond_wait\<close> releases the mutex and waits in one step and reacquires it after
  being woken, wake-ups may be spurious, and a signal wakes one waiter if there is any.
\<close>

section \<open>Definitions\<close>

subsection \<open>The methods, each at its critical section\<close>

text \<open>The constructor ignores the results of the pthread initialisers.\<close>

definition RingPthread_new :: "(nat \<Rightarrow> bool) \<Rightarrow> (nat \<Rightarrow> u8) \<Rightarrow> u16 \<Rightarrow> u16 \<Rightarrow> stop + OsRing" where
  "RingPthread_new heap_ok junk sz cnt = OsRing_new heap_ok junk sz cnt"

definition RingPthread_put :: "bytes \<Rightarrow> (unit, OsRing) prog" where
  "RingPthread_put itemIn = OsRing_push_back itemIn"

text \<open>
  \<open>get\<close> writes to the caller's area \<open>itemOut\<close>; its result is the flag and the new content
  of that area.  With a timeout other than zero an empty ring makes the call wait.
\<close>

definition RingPthread_get :: "bytes \<Rightarrow> u32 \<Rightarrow> (bool \<times> bytes, OsRing) prog" where
  "RingPthread_get itemOut tmo r =
     (if tmo \<noteq> 0 \<and> OsRing_size r = 0 then Stops Blocked
      else if OsRing_size r \<noteq> 0 then
        (case OsRing_front r of
           None \<Rightarrow> Returns (False, itemOut) r
         | Some off \<Rightarrow>
             (case Option.bind (ring_read r off)
                     (\<lambda>item. memcpy_at itemOut 0 item (unat (OsRing_item_size r))) of
                None \<Rightarrow> Stops Undefined_Behaviour
              | Some out \<Rightarrow>
                  (case OsRing_pop_front r of
                     Stops s \<Rightarrow> Stops s
                   | Returns _ r' \<Rightarrow> Returns (True, out) r')))
      else Returns (False, itemOut) r)"

definition RingPthread_size :: "OsRing \<Rightarrow> u16" where
  "RingPthread_size r = OsRing_size r"

subsection \<open>Interleaved execution\<close>

text \<open>
  Where a thread stands.  \<open>GetTake w\<close> and \<open>GetUnlock w res\<close> remember whether the call was
  made with a timeout other than zero.
\<close>

datatype rp_pc =
    Idle
  | PutLock bytes
  | PutPush bytes
  | PutSignal
  | PutUnlock
  | GetLock u32
  | GetTest
  | GetWaiting
  | GetRelock
  | GetTake bool
  | GetUnlock bool "bytes option"
  | SizeLock
  | SizeRead
  | SizeUnlock u16

text \<open>
  The shared state, with two histories: \<open>rp_put\<close>, the blocks pushed so far, and \<open>rp_got\<close>,
  the blocks handed to consumers, each in the order of the critical sections.
  \<open>rp_aborted\<close>: an assertion stopped the process (or it ran into undefined behaviour).
\<close>

record rp_sys =
  rp_ring :: OsRing
  rp_owner :: "nat option"
  rp_pcs :: "nat \<Rightarrow> rp_pc"
  rp_put :: "bytes list"
  rp_got :: "bytes list"
  rp_aborted :: bool

definition rp_init :: "OsRing \<Rightarrow> rp_sys" where
  "rp_init r = \<lparr>rp_ring = r, rp_owner = None, rp_pcs = (\<lambda>_. Idle), rp_put = [], rp_got = [],
               rp_aborted = False\<rparr>"

definition rp_goto :: "nat \<Rightarrow> rp_pc \<Rightarrow> rp_sys \<Rightarrow> rp_sys" where
  "rp_goto t c s = s\<lparr>rp_pcs := (rp_pcs s)(t := c)\<rparr>"

definition rp_lock :: "nat \<Rightarrow> rp_sys \<Rightarrow> rp_sys" where
  "rp_lock t s = s\<lparr>rp_owner := Some t\<rparr>"

definition rp_unlock :: "rp_sys \<Rightarrow> rp_sys" where
  "rp_unlock s = s\<lparr>rp_owner := None\<rparr>"

inductive rp_step :: "nat \<Rightarrow> rp_sys \<Rightarrow> rp_sys \<Rightarrow> bool" for t :: nat where
  put_call: "\<not> rp_aborted s \<Longrightarrow> rp_pcs s t = Idle \<Longrightarrow>
     unat (itemSize (rp_ring s)) \<le> length x \<Longrightarrow> rp_step t s (rp_goto t (PutLock x) s)"
| put_lock: "\<not> rp_aborted s \<Longrightarrow> rp_pcs s t = PutLock x \<Longrightarrow> rp_owner s = None \<Longrightarrow>
     rp_step t s (rp_goto t (PutPush x) (rp_lock t s))"
| put_push: "\<not> rp_aborted s \<Longrightarrow> rp_pcs s t = PutPush x \<Longrightarrow>
     OsRing_push_back x (rp_ring s) = Returns () r \<Longrightarrow>
     rp_step t s (rp_goto t PutSignal
       (s\<lparr>rp_ring := r, rp_put := rp_put s @ [take (unat (itemSize (rp_ring s))) x]\<rparr>))"
| put_abort: "\<not> rp_aborted s \<Longrightarrow> rp_pcs s t = PutPush x \<Longrightarrow>
     OsRing_push_back x (rp_ring s) = Stops why \<Longrightarrow> rp_step t s (s\<lparr>rp_aborted := True\<rparr>)"
| put_signal: "\<not> rp_aborted s \<Longrightarrow> rp_pcs s t = PutSignal \<Longrightarrow> rp_pcs s u = GetWaiting \<Longrightarrow>
     rp_step t s (rp_goto t PutUnlock (rp_goto u GetRelock s))"
| put_signal_none: "\<not> rp_aborted s \<Longrightarrow> rp_pcs s t = PutSignal \<Longrightarrow>
     \<forall>u. rp_pcs s u \<noteq> GetWaiting \<Longrightarrow> rp_step t s (rp_goto t PutUnlock s)"
| put_unlock: "\<not> rp_aborted s \<Longrightarrow> rp_pcs s t = PutUnlock \<Longrightarrow>
     rp_step t s (rp_goto t Idle (rp_unlock s))"
| get_call: "\<not> rp_aborted s \<Longrightarrow> rp_pcs s t = Idle \<Longrightarrow> rp_step t s (rp_goto t (GetLock tmo) s)"
| get_lock: "\<not> rp_aborted s \<Longrightarrow> rp_pcs s t = GetLock tmo \<Longrightarrow> rp_owner s = None \<Longrightarrow>
     rp_step t s (rp_goto t (if tmo \<noteq> 0 then GetTest else GetTake False) (rp_lock t s))"
| get_wait: "\<not> rp_aborted s \<Longrightarrow> rp_pcs s t = GetTest \<Longrightarrow> OsRing_size (rp_ring s) = 0 \<Longrightarrow>
     rp_step t s (rp_goto t GetWaiting (rp_unlock s))"
| get_go: "\<not> rp_aborted s \<Longrightarrow> rp_pcs s t = GetTest \<Longrightarrow> OsRing_size (rp_ring s) \<noteq> 0 \<Longrightarrow>
     rp_step t s (rp_goto t (GetTake True) s)"
| get_spurious: "\<not> rp_aborted s \<Longrightarrow> rp_pcs s t = GetWaiting \<Longrightarrow> rp_step t s (rp_goto t GetRelock s)"
| get_relock: "\<not> rp_aborted s \<Longrightarrow> rp_pcs s t = GetRelock \<Longrightarrow> rp_owner s = None \<Longrightarrow>
     rp_step t s (rp_goto t GetTest (rp_lock t s))"
| get_take: "\<not> rp_aborted s \<Longrightarrow> rp_pcs s t = GetTake w \<Longrightarrow> OsRing_size (rp_ring s) \<noteq> 0 \<Longrightarrow>
     ring_peek (rp_ring s) = Some b \<Longrightarrow> OsRing_pop_front (rp_ring s) = Returns () r \<Longrightarrow>
     rp_step t s (rp_goto t (GetUnlock w (Some b)) (s\<lparr>rp_ring := r, rp_got := rp_got s @ [b]\<rparr>))"
| get_take_fault: "\<not> rp_aborted s \<Longrightarrow> rp_pcs s t = GetTake w \<Longrightarrow> OsRing_size (rp_ring s) \<noteq> 0 \<Longrightarrow>
     ring_peek (rp_ring s) = None \<or> OsRing_pop_front (rp_ring s) = Stops why \<Longrightarrow>
     rp_step t s (s\<lparr>rp_aborted := True\<rparr>)"
| get_none: "\<not> rp_aborted s \<Longrightarrow> rp_pcs s t = GetTake w \<Longrightarrow> OsRing_size (rp_ring s) = 0 \<Longrightarrow>
     rp_step t s (rp_goto t (GetUnlock w None) s)"
| get_unlock: "\<not> rp_aborted s \<Longrightarrow> rp_pcs s t = GetUnlock w res \<Longrightarrow>
     rp_step t s (rp_goto t Idle (rp_unlock s))"
| size_call: "\<not> rp_aborted s \<Longrightarrow> rp_pcs s t = Idle \<Longrightarrow> rp_step t s (rp_goto t SizeLock s)"
| size_lock: "\<not> rp_aborted s \<Longrightarrow> rp_pcs s t = SizeLock \<Longrightarrow> rp_owner s = None \<Longrightarrow>
     rp_step t s (rp_goto t SizeRead (rp_lock t s))"
| size_read: "\<not> rp_aborted s \<Longrightarrow> rp_pcs s t = SizeRead \<Longrightarrow>
     rp_step t s (rp_goto t (SizeUnlock (OsRing_size (rp_ring s))) s)"
| size_unlock: "\<not> rp_aborted s \<Longrightarrow> rp_pcs s t = SizeUnlock n \<Longrightarrow>
     rp_step t s (rp_goto t Idle (rp_unlock s))"

inductive rp_reach :: "OsRing \<Rightarrow> rp_sys \<Rightarrow> bool" for r :: OsRing where
  rp_start: "rp_reach r (rp_init r)"
| rp_next: "rp_reach r s \<Longrightarrow> rp_step t s s' \<Longrightarrow> rp_reach r s'"

text \<open>Program points inside the critical section, and those of threads on their way to it.\<close>

fun rp_critical :: "rp_pc \<Rightarrow> bool" where
  "rp_critical (PutPush _) = True"
| "rp_critical PutSignal = True"
| "rp_critical PutUnlock = True"
| "rp_critical GetTest = True"
| "rp_critical (GetTake _) = True"
| "rp_critical (GetUnlock _ _) = True"
| "rp_critical SizeRead = True"
| "rp_critical (SizeUnlock _) = True"
| "rp_critical _ = False"

text \<open>A thread that will take an item or wake a waiter before it sleeps or leaves.\<close>

fun rp_pending :: "rp_pc \<Rightarrow> bool" where
  "rp_pending PutSignal = True"
| "rp_pending GetTest = True"
| "rp_pending GetRelock = True"
| "rp_pending (GetTake _) = True"
| "rp_pending _ = False"

fun rp_item_ok :: "nat \<Rightarrow> rp_pc \<Rightarrow> bool" where
  "rp_item_ok n (PutLock x) \<longleftrightarrow> n \<le> length x"
| "rp_item_ok n (PutPush x) \<longleftrightarrow> n \<le> length x"
| "rp_item_ok n _ \<longleftrightarrow> True"

definition rp_pending_set :: "rp_sys \<Rightarrow> nat set" where
  "rp_pending_set s = {t. rp_pending (rp_pcs s t)}"

definition rp_inv_lock :: "rp_sys \<Rightarrow> bool" where
  "rp_inv_lock s \<longleftrightarrow> (\<forall>t. rp_critical (rp_pcs s t) \<longleftrightarrow> rp_owner s = Some t)"

definition rp_inv_data :: "OsRing \<Rightarrow> rp_sys \<Rightarrow> bool" where
  "rp_inv_data r0 s \<longleftrightarrow>
     ring_ok (rp_ring s) \<and> rp_put s = rp_got s @ ring_items (rp_ring s) \<and>
     itemSize (rp_ring s) = itemSize r0 \<and> itemCount (rp_ring s) = itemCount r0 \<and>
     (\<forall>t. rp_item_ok (unat (itemSize r0)) (rp_pcs s t))"

definition rp_inv_abort :: "rp_sys \<Rightarrow> bool" where
  "rp_inv_abort s \<longleftrightarrow>
     (rp_aborted s \<longrightarrow> OsRing_full (rp_ring s) \<and> (\<exists>t x. rp_pcs s t = PutPush x))"

definition rp_inv_get :: "rp_sys \<Rightarrow> bool" where
  "rp_inv_get s \<longleftrightarrow>
     (\<forall>t. rp_pcs s t = GetTake True \<longrightarrow> OsRing_size (rp_ring s) \<noteq> 0) \<and>
     (\<forall>t. rp_pcs s t \<noteq> GetUnlock True None)"

definition rp_inv_wake :: "rp_sys \<Rightarrow> bool" where
  "rp_inv_wake s \<longleftrightarrow>
     finite (rp_pending_set s) \<and>
     ((\<exists>t. rp_pcs s t = GetWaiting) \<longrightarrow>
        length (ring_items (rp_ring s)) \<le> card (rp_pending_set s))"

definition rp_inv :: "OsRing \<Rightarrow> rp_sys \<Rightarrow> bool" where
  "rp_inv r0 s \<longleftrightarrow>
     rp_inv_lock s \<and> rp_inv_data r0 s \<and> rp_inv_abort s \<and> rp_inv_get s \<and> rp_inv_wake s"

text \<open>Fresh rings of one-byte items, for the examples.\<close>

definition ring_new_1_2 :: OsRing where
  "ring_new_1_2 = \<lparr>ring_buffer = [0, 0], itemSize = 1, itemCount = 2, readIndex = 0, writeIndex = 0\<rparr>"

definition ring_new_1_1 :: OsRing where
  "ring_new_1_1 = \<lparr>ring_buffer = [0], itemSize = 1, itemCount = 1, readIndex = 0, writeIndex = 0\<rparr>"

section \<open>The methods on the list of items\<close>

lemma OsRing_size_items: "OsRing_size r = 0 \<longleftrightarrow> ring_items r = []"
  by (simp add: OsRing_empty_iff unat_eq_0 flip: OsRing_empty_items)

lemma RingPthread_get_nonempty:
  assumes ok: "ring_ok r" and it: "ring_items r = y # ys"
    and out: "unat (itemSize r) \<le> length out"
  shows "\<exists>r'. RingPthread_get out tmo r = Returns (True, y @ drop (length y) out) r' \<and>
              ring_ok r' \<and> ring_items r' = ys \<and> itemSize r' = itemSize r \<and> itemCount r' = itemCount r"
proof -
  have "ring_peek r = Some y" using ring.peek_item [OF ok] it by simp
  then obtain off where off: "OsRing_front r = Some off" "ring_read r off = Some y"
    by (auto simp: ring_peek_def bind_eq_Some_conv)
  have len: "length y = unat (itemSize r)" using ring.items_width [OF ok] it by simp
  obtain r' where r': "OsRing_pop_front r = Returns () r'" "ring_ok r'" "ring_items r' = ys"
      "unat (itemCount r') = unat (itemCount r)" "unat (itemSize r') = unat (itemSize r)"
    using ring.pop_item [OF ok it] by blast
  have "OsRing_size r \<noteq> 0" using it by (simp add: OsRing_size_items)
  with off r' len out show ?thesis
    by (simp add: RingPthread_get_def memcpy_at_def OsRing_item_size_def word_unat_eq_iff)
qed

lemma RingPthread_get_empty:
  "ring_items r = [] \<Longrightarrow>
   RingPthread_get out tmo r = (if tmo = 0 then Returns (False, out) r else Stops Blocked)"
  by (simp add: RingPthread_get_def OsRing_size_items)

lemma RingPthread_get_peek:
  assumes "ring_peek r = Some b" and "OsRing_pop_front r = Returns () r'"
    and "length b = unat (itemSize r)" and "unat (itemSize r) \<le> length out"
  shows "RingPthread_get out tmo r = Returns (True, b @ drop (length b) out) r'"
proof -
  obtain off where "OsRing_front r = Some off" "ring_read r off = Some b"
    using assms(1) by (auto simp: ring_peek_def bind_eq_Some_conv)
  moreover have "OsRing_size r \<noteq> 0"
    using assms(2) by (auto simp: OsRing_pop_front_def OsRing_empty_def OsRing_size_def split: if_splits)
  ultimately show ?thesis
    using assms(2-4) by (simp add: RingPthread_get_def memcpy_at_def OsRing_item_size_def)
qed

section \<open>Invariants of the interleaved execution\<close>

lemmas rp_upd_defs = rp_goto_def rp_lock_def rp_unlock_def

text \<open>What a step does to the ring: nothing, one push or one pop.\<close>

lemma rp_step_effect:
  assumes "rp_step t s s'"
  shows "rp_ring s' = rp_ring s \<and> rp_put s' = rp_put s \<and> rp_got s' = rp_got s \<or>
    (\<exists>x. rp_pcs s t = PutPush x \<and> OsRing_push_back x (rp_ring s) = Returns () (rp_ring s') \<and>
         rp_put s' = rp_put s @ [take (unat (itemSize (rp_ring s))) x] \<and> rp_got s' = rp_got s) \<or>
    (\<exists>w b. rp_pcs s t = GetTake w \<and> ring_peek (rp_ring s) = Some b \<and>
         OsRing_pop_front (rp_ring s) = Returns () (rp_ring s') \<and>
         rp_put s' = rp_put s \<and> rp_got s' = rp_got s @ [b])"
  using assms by (cases rule: rp_step.cases) (auto simp: rp_upd_defs)

lemma rp_inv_lock_step: "rp_step t s s' \<Longrightarrow> rp_inv_lock s \<Longrightarrow> rp_inv_lock s'"
  by (induction rule: rp_step.induct) (force simp: rp_inv_lock_def rp_upd_defs)+

lemma rp_critical_unique:
  "rp_inv_lock s \<Longrightarrow> rp_critical (rp_pcs s t) \<Longrightarrow> rp_critical (rp_pcs s u) \<Longrightarrow> t = u"
  by (auto simp: rp_inv_lock_def)

lemma rp_inv_data_item:
  assumes "rp_inv_data r0 s" and "rp_pcs s t = PutLock x \<or> rp_pcs s t = PutPush x"
  shows "unat (itemSize r0) \<le> length x"
proof -
  have "rp_item_ok (unat (itemSize r0)) (rp_pcs s t)" using assms(1) by (simp add: rp_inv_data_def)
  with assms(2) show ?thesis by auto
qed

lemma rp_inv_data_push:
  assumes "rp_inv_data r0 s" and "rp_pcs s t = PutPush x"
    and "OsRing_push_back x (rp_ring s) = Returns () r"
  shows "ring_ok r" and "ring_items r = ring_items (rp_ring s) @ [take (unat (itemSize r0)) x]"
    and "itemSize r = itemSize r0" and "itemCount r = itemCount r0"
proof -
  have ok: "ring_ok (rp_ring s)" and sz: "itemSize (rp_ring s) = itemSize r0"
    and cnt: "itemCount (rp_ring s) = itemCount r0"
    using assms(1) by (simp_all add: rp_inv_data_def)
  have "unat (itemSize (rp_ring s)) \<le> length x"
    using rp_inv_data_item [OF assms(1), of t x] assms(2) by (simp add: sz)
  moreover have "\<not> OsRing_full (rp_ring s)"
    using assms(3) by (auto simp: OsRing_push_back_def)
  ultimately show "ring_ok r" "ring_items r = ring_items (rp_ring s) @ [take (unat (itemSize r0)) x]"
    "itemSize r = itemSize r0" "itemCount r = itemCount r0"
    using OsRing_push_back_items [OF ok, of x] assms(3) by (auto simp: sz cnt)
qed

lemma rp_inv_data_pop:
  assumes "rp_inv_data r0 s" and "ring_peek (rp_ring s) = Some b"
    and "OsRing_pop_front (rp_ring s) = Returns () r"
  shows "ring_ok r" and "ring_items (rp_ring s) = b # ring_items r"
    and "itemSize r = itemSize r0" and "itemCount r = itemCount r0"
proof -
  have ok: "ring_ok (rp_ring s)" using assms(1) by (simp add: rp_inv_data_def)
  obtain ys where ys: "ring_items (rp_ring s) = b # ys"
    using ring.peek_item [OF ok] assms(2) by (auto split: list.splits)
  then show "ring_ok r" "ring_items (rp_ring s) = b # ring_items r"
    "itemSize r = itemSize r0" "itemCount r = itemCount r0"
    using ring.pop_item [OF ok ys] assms by (auto simp: rp_inv_data_def word_unat_eq_iff)
qed

lemma rp_inv_data_step: "rp_step t s s' \<Longrightarrow> rp_inv_data r0 s \<Longrightarrow> rp_inv_data r0 s'"
proof (induction rule: rp_step.induct)
  case (put_push s x r)
  note new = rp_inv_data_push [OF put_push.prems put_push.hyps(2,3)]
  from put_push.prems show ?case by (simp add: rp_inv_data_def rp_upd_defs new)
next
  case (get_take s w b r)
  note new = rp_inv_data_pop [OF get_take.prems get_take.hyps(4,5)]
  from get_take.prems show ?case by (simp add: rp_inv_data_def rp_upd_defs new)
next
  case (put_lock s x)
  note item = rp_inv_data_item [OF put_lock.prems, of t x]
  from put_lock item show ?case by (simp add: rp_inv_data_def rp_upd_defs)
qed (auto simp: rp_inv_data_def rp_upd_defs)

lemma rp_no_take_fault:
  assumes "ring_ok r" and "OsRing_size r \<noteq> 0"
  shows "\<exists>b r'. ring_peek r = Some b \<and> OsRing_pop_front r = Returns () r'"
proof -
  obtain y ys where "ring_items r = y # ys"
    using assms(2) by (auto simp: OsRing_size_items neq_Nil_conv)
  then show ?thesis using ring.peek_item [OF assms(1)] ring.pop_item [OF assms(1)] by auto
qed

lemma rp_push_stops_full:
  assumes "ring_ok r" and "unat (itemSize r) \<le> length x" and "OsRing_push_back x r = Stops why"
  shows "OsRing_full r"
  using OsRing_push_back_items [OF assms(1) _ assms(2)] assms(3) by auto

lemma rp_inv_abort_step:
  "rp_step t s s' \<Longrightarrow> rp_inv_data r0 s \<Longrightarrow> rp_inv_abort s \<Longrightarrow> rp_inv_abort s'"
proof (induction rule: rp_step.induct)
  case (put_abort s x why)
  then have "ring_ok (rp_ring s)" "itemSize (rp_ring s) = itemSize r0"
    by (simp_all add: rp_inv_data_def)
  then have "OsRing_full (rp_ring s)"
    using rp_push_stops_full [of "rp_ring s" x why] rp_inv_data_item [OF put_abort.prems(1), of t x]
      put_abort.hyps by simp
  with put_abort.hyps show ?case by (auto simp: rp_inv_abort_def)
next
  case (get_take_fault s w why)
  then show ?case using rp_no_take_fault [of "rp_ring s"] by (auto simp: rp_inv_data_def)
qed (auto simp: rp_inv_abort_def rp_upd_defs)

lemma rp_inv_get_step:
  "rp_step t s s' \<Longrightarrow> rp_inv_lock s \<Longrightarrow> rp_inv_data r0 s \<Longrightarrow> rp_inv_get s \<Longrightarrow> rp_inv_get s'"
proof (induction rule: rp_step.induct)
  case (put_push s x r)
  have "OsRing_size r \<noteq> 0"
    using rp_inv_data_push [OF put_push.prems(2) put_push.hyps(2,3)] by (simp add: OsRing_size_items)
  with put_push.prems(3) show ?case by (simp add: rp_inv_get_def rp_upd_defs)
next
  case (get_take s w b r)
  then have "rp_pcs s u \<noteq> GetTake v" if "u \<noteq> t" for u v
    using rp_critical_unique [of s t u] that by auto
  with get_take.prems(3) show ?case by (simp add: rp_inv_get_def rp_upd_defs)
qed (auto simp: rp_inv_get_def rp_upd_defs)

lemma rp_pending_goto:
  "rp_pending_set (rp_goto t c s) =
     (if rp_pending c then insert t (rp_pending_set s) else rp_pending_set s - {t})"
  by (auto simp: rp_pending_set_def rp_goto_def)

lemma rp_pending_other [simp]:
  "rp_pending_set (rp_lock t s) = rp_pending_set s"
  "rp_pending_set (rp_unlock s) = rp_pending_set s"
  "rp_pending_set (s\<lparr>rp_ring := r\<rparr>) = rp_pending_set s"
  "rp_pending_set (s\<lparr>rp_put := xs\<rparr>) = rp_pending_set s"
  "rp_pending_set (s\<lparr>rp_got := xs\<rparr>) = rp_pending_set s"
  "rp_pending_set (s\<lparr>rp_aborted := ab\<rparr>) = rp_pending_set s"
  by (simp_all add: rp_pending_set_def rp_upd_defs)

lemma rp_goto_sel [simp]:
  "rp_pcs (rp_goto t c s) = (rp_pcs s)(t := c)"
  "rp_ring (rp_goto t c s) = rp_ring s"
  "rp_pcs (rp_lock t s) = rp_pcs s"
  "rp_ring (rp_lock t s) = rp_ring s"
  "rp_pcs (rp_unlock s) = rp_pcs s"
  "rp_ring (rp_unlock s) = rp_ring s"
  by (simp_all add: rp_upd_defs)

lemma rp_pending_member: "t \<in> rp_pending_set s \<longleftrightarrow> rp_pending (rp_pcs s t)"
  by (simp add: rp_pending_set_def)

lemmas rp_wake_simps =
  rp_inv_wake_def rp_pending_goto rp_pending_member card_insert_if card_Diff_singleton_if
  OsRing_size_items

lemma rp_inv_wake_step:
  "rp_step t s s' \<Longrightarrow> rp_inv_data r0 s \<Longrightarrow> rp_inv_wake s \<Longrightarrow> rp_inv_wake s'"
proof (induction rule: rp_step.induct)
  case (put_push s x r)
  note new = rp_inv_data_push [OF put_push.prems(1) put_push.hyps(2,3)]
  from put_push show ?case by (auto simp: rp_wake_simps new(2))
next
  case (get_take s w b r)
  note new = rp_inv_data_pop [OF get_take.prems(1) get_take.hyps(4,5)]
  from get_take show ?case by (auto simp: rp_wake_simps new(2))
qed (auto simp: rp_wake_simps split: if_splits)

lemma rp_inv_init: "ring_ok r \<Longrightarrow> ring_items r = [] \<Longrightarrow> rp_inv r (rp_init r)"
  by (simp add: rp_inv_def rp_inv_lock_def rp_inv_data_def rp_inv_abort_def rp_inv_get_def
      rp_inv_wake_def rp_init_def rp_pending_set_def)

lemma rp_reach_inv:
  assumes "rp_reach r s" and "ring_ok r" and "ring_items r = []"
  shows "rp_inv r s"
  using assms(1)
proof (induction rule: rp_reach.induct)
  case rp_start
  show ?case using assms(2,3) by (rule rp_inv_init)
next
  case (rp_next s t s')
  then show ?case
    unfolding rp_inv_def
    by (blast intro: rp_inv_lock_step rp_inv_data_step rp_inv_abort_step rp_inv_get_step
        rp_inv_wake_step)
qed

lemma rp_reach_new_inv:
  assumes "RingPthread_new heap_ok junk sz cnt = Inr r" and "rp_reach r s"
  shows "rp_inv r s"
proof -
  have "OsRing_new heap_ok junk sz cnt = Inr r" using assms(1) by (simp add: RingPthread_new_def)
  then show ?thesis using assms(2) OsRing_new_ok by (blast intro: rp_reach_inv)
qed

text \<open>Progress: whoever holds the mutex can move, and a free mutex lets any caller move.\<close>

lemma rp_critical_steps:
  assumes "rp_critical (rp_pcs s t)" and "\<not> rp_aborted s"
  shows "\<exists>s'. rp_step t s s'"
proof (cases "rp_pcs s t")
  case (PutPush x)
  with assms(2) show ?thesis
    by (cases "OsRing_push_back x (rp_ring s)") (auto intro: rp_step.intros)
next
  case PutSignal
  with assms(2) show ?thesis
    by (cases "\<exists>u. rp_pcs s u = GetWaiting") (auto intro: put_signal put_signal_none)
next
  case GetTest
  with assms(2) show ?thesis
    by (cases "OsRing_size (rp_ring s) = 0") (auto intro: get_wait get_go)
next
  case (GetTake w)
  with assms(2) show ?thesis
    by (cases "OsRing_size (rp_ring s) = 0"; cases "ring_peek (rp_ring s)";
        cases "OsRing_pop_front (rp_ring s)")
      (auto intro: get_none get_take get_take_fault)
qed (use assms in \<open>auto intro: put_unlock get_unlock size_read size_unlock\<close>)

lemma rp_entry_steps:
  assumes "rp_owner s = None" and "\<not> rp_aborted s" and "rp_pcs s t \<noteq> Idle"
    and "rp_pcs s t \<noteq> GetWaiting" and "\<not> rp_critical (rp_pcs s t)"
  shows "\<exists>s'. rp_step t s s'"
  using assms by (cases "rp_pcs s t") (auto intro: put_lock get_lock get_relock size_lock)

section \<open>A run, for the examples\<close>

text \<open>
  Thread 1 calls \<open>get\<close> on an empty ring and waits; thread 0 pushes a block and is about to
  signal.
\<close>

lemma rp_new_example: "RingPthread_new (\<lambda>_. True) (\<lambda>_. 0) 1 2 = Inr (ring_new_1_2)"
  by (simp add: RingPthread_new_def OsRing_new_def ring_count_ok_def c_int_mul_def ring_new_1_2_def
      upt_rec)

lemma ring_new_1_2_size: "OsRing_size ring_new_1_2 = 0"
  by (simp add: ring_new_1_2_def OsRing_size_def)

lemma ring_new_1_2_ok: "ring_ok ring_new_1_2" "ring_items ring_new_1_2 = []"
  using OsRing_new_ok(1,2) rp_new_example by (auto simp: RingPthread_new_def)

text \<open>A \<open>put\<close> by an idle thread, run from call to return or to the assertion.\<close>

lemma rp_put_reaches_push:
  assumes "rp_reach r s" and "rp_pcs s t = Idle" and "rp_owner s = None" and "\<not> rp_aborted s"
    and "unat (itemSize (rp_ring s)) \<le> length x"
  shows "rp_reach r (rp_goto t (PutPush x) (rp_lock t (rp_goto t (PutLock x) s)))"
proof -
  let ?s1 = "rp_goto t (PutLock x) s"
  have "rp_step t s ?s1" using assms by (intro put_call)
  then have 1: "rp_reach r ?s1" by (rule rp_next [OF assms(1)])
  have "rp_step t ?s1 (rp_goto t (PutPush x) (rp_lock t ?s1))"
    using assms by (intro put_lock) (simp_all add: rp_upd_defs)
  then show ?thesis by (rule rp_next [OF 1])
qed

lemma rp_put_pushes:
  assumes "rp_reach r s" and "rp_pcs s t = Idle" and "rp_owner s = None" and "\<not> rp_aborted s"
    and "unat (itemSize (rp_ring s)) \<le> length x"
    and "OsRing_push_back x (rp_ring s) = Returns () r'"
  shows "\<exists>s'. rp_reach r s' \<and> rp_pcs s' = (rp_pcs s)(t := PutSignal) \<and> rp_ring s' = r' \<and>
              \<not> rp_aborted s'"
proof -
  let ?s2 = "rp_goto t (PutPush x) (rp_lock t (rp_goto t (PutLock x) s))"
  let ?s3 = "rp_goto t PutSignal
    (?s2\<lparr>rp_ring := r', rp_put := rp_put ?s2 @ [take (unat (itemSize (rp_ring ?s2))) x]\<rparr>)"
  have "rp_step t ?s2 ?s3" using assms by (intro put_push) (simp_all add: rp_upd_defs)
  then have "rp_reach r ?s3" by (rule rp_next [OF rp_put_reaches_push [OF assms(1-5)]])
  then show ?thesis using assms(4) by (intro exI [of _ ?s3]) (simp add: rp_upd_defs)
qed

lemma rp_put_completes:
  assumes "rp_reach r s" and "rp_pcs s t = Idle" and "rp_owner s = None" and "\<not> rp_aborted s"
    and "unat (itemSize (rp_ring s)) \<le> length x"
    and "OsRing_push_back x (rp_ring s) = Returns () r'" and "\<forall>u. rp_pcs s u \<noteq> GetWaiting"
  shows "\<exists>s'. rp_reach r s' \<and> rp_pcs s' = rp_pcs s \<and> rp_owner s' = None \<and> rp_ring s' = r' \<and>
              \<not> rp_aborted s'"
proof -
  obtain s3 where s3: "rp_reach r s3" "rp_pcs s3 = (rp_pcs s)(t := PutSignal)" "rp_ring s3 = r'"
      "\<not> rp_aborted s3"
    using rp_put_pushes [OF assms(1-6)] by blast
  have "rp_step t s3 (rp_goto t PutUnlock s3)"
    using s3 assms(7) by (intro put_signal_none) simp_all
  then have 4: "rp_reach r (rp_goto t PutUnlock s3)" by (rule rp_next [OF s3(1)])
  let ?s5 = "rp_goto t Idle (rp_unlock (rp_goto t PutUnlock s3))"
  have "rp_step t (rp_goto t PutUnlock s3) ?s5"
    using s3 by (intro put_unlock) (simp_all add: rp_upd_defs)
  then have "rp_reach r ?s5" by (rule rp_next [OF 4])
  then show ?thesis
    using s3 assms(2) by (intro exI [of _ ?s5]) (simp add: rp_upd_defs fun_upd_idem)
qed

lemma rp_put_aborts:
  assumes "rp_reach r s" and "rp_pcs s t = Idle" and "rp_owner s = None" and "\<not> rp_aborted s"
    and "unat (itemSize (rp_ring s)) \<le> length x" and "OsRing_push_back x (rp_ring s) = Stops why"
  shows "\<exists>s'. rp_reach r s' \<and> rp_aborted s'"
proof -
  let ?s2 = "rp_goto t (PutPush x) (rp_lock t (rp_goto t (PutLock x) s))"
  have "rp_step t ?s2 (?s2\<lparr>rp_aborted := True\<rparr>)"
    using assms by (intro put_abort) (simp_all add: rp_upd_defs)
  then have "rp_reach r (?s2\<lparr>rp_aborted := True\<rparr>)"
    by (rule rp_next [OF rp_put_reaches_push [OF assms(1-5)]])
  then show ?thesis by (intro exI [of _ "?s2\<lparr>rp_aborted := True\<rparr>"]) simp
qed

lemma rp_reach_waiting:
  "\<exists>s. rp_reach ring_new_1_2 s \<and> rp_pcs s = (\<lambda>_. Idle)(1 := GetWaiting) \<and> rp_owner s = None \<and>
       rp_ring s = ring_new_1_2 \<and> \<not> rp_aborted s"
proof -
  let ?s0 = "rp_init ring_new_1_2"
  let ?s1 = "rp_goto 1 (GetLock 1) ?s0"
  let ?s2 = "rp_goto 1 GetTest (rp_lock 1 ?s1)"
  let ?s3 = "rp_goto 1 GetWaiting (rp_unlock ?s2)"
  have "rp_step 1 ?s0 ?s1" by (rule get_call) (simp_all add: rp_init_def)
  then have 1: "rp_reach ring_new_1_2 ?s1" by (rule rp_next [OF rp_start])
  have "rp_step 1 ?s1 ?s2"
    using get_lock [of ?s1 1 1] by (simp add: rp_init_def rp_upd_defs)
  then have 2: "rp_reach ring_new_1_2 ?s2" by (rule rp_next [OF 1])
  have "rp_step 1 ?s2 ?s3"
    by (rule get_wait) (simp_all add: rp_init_def rp_upd_defs ring_new_1_2_size)
  then have "rp_reach ring_new_1_2 ?s3" by (rule rp_next [OF 2])
  then show ?thesis by (intro exI [of _ ?s3]) (simp add: rp_init_def rp_upd_defs)
qed

lemma rp_reach_signalling:
  "\<exists>s. rp_reach ring_new_1_2 s \<and> rp_pcs s 0 = PutSignal \<and> rp_pcs s 1 = GetWaiting \<and>
       ring_items (rp_ring s) = [[7]] \<and> \<not> rp_aborted s"
proof -
  obtain s3 where s3: "rp_reach ring_new_1_2 s3" "rp_pcs s3 = (\<lambda>_. Idle)(1 := GetWaiting)"
      "rp_owner s3 = None" "rp_ring s3 = ring_new_1_2" "\<not> rp_aborted s3"
    using rp_reach_waiting by blast
  obtain r where r: "OsRing_push_back [7] ring_new_1_2 = Returns () r" "ring_items r = [[7]]"
    using ring.push_item [OF ring_new_1_2_ok(1), of "[7]"] ring_new_1_2_ok(2)
    by (auto simp: ring_new_1_2_def)
  moreover have "unat (itemSize ring_new_1_2) = 1" by (simp add: ring_new_1_2_def)
  ultimately show ?thesis using rp_put_pushes [of ring_new_1_2 s3 0 "[7]" r] s3 by auto
qed

lemma rp_reach_aborted:
  "\<exists>s. rp_reach ring_new_1_1 s \<and> rp_aborted s"
proof -
  let ?s0 = "rp_init ring_new_1_1"
  have ok: "ring_ok ring_new_1_1" "ring_items ring_new_1_1 = []"
    by (simp_all add: ring_new_1_1_def ring_ok_def ring_count_ok_def OsRing_size_def ring_items_def)
  have sz: "unat (itemSize ring_new_1_1) = 1" "unat (itemCount ring_new_1_1) = 1"
    by (simp_all add: ring_new_1_1_def)
  obtain r where r: "OsRing_push_back [7] ring_new_1_1 = Returns () r" "ring_ok r"
      "length (ring_items r) = unat (itemCount r)" "unat (itemSize r) = 1"
    using ring.push_item [OF ok(1), of "[7]"] ok(2) sz by auto
  obtain s1 where s1: "rp_reach ring_new_1_1 s1" "rp_pcs s1 = (\<lambda>_. Idle)" "rp_owner s1 = None"
      "rp_ring s1 = r" "\<not> rp_aborted s1"
    using rp_put_completes [of ring_new_1_1 ?s0 0 "[7]" r] rp_start r sz
    by (auto simp: rp_init_def)
  have "OsRing_push_back [7] r = Stops Assert_Failure" using r by (intro ring.push_full) auto
  then show ?thesis using rp_put_aborts [of ring_new_1_1 s1 0 "[7]"] s1 r by auto
qed

text \<open>While the ring holds an item, a sleeper is not alone: some thread is awake that will signal or look at the ring.\<close>

lemma rp_inv_awake:
  assumes "rp_inv r s" and "rp_pcs s t = GetWaiting" and "ring_items (rp_ring s) \<noteq> []"
  shows "\<exists>u. rp_pcs s u \<noteq> Idle \<and> rp_pcs s u \<noteq> GetWaiting"
proof -
  have "length (ring_items (rp_ring s)) \<le> card (rp_pending_set s)"
    using assms(1,2) by (auto simp: rp_inv_def rp_inv_wake_def)
  with assms(3) have "rp_pending_set s \<noteq> {}" by auto
  then obtain u where "rp_pending (rp_pcs s u)" by (auto simp: rp_pending_set_def)
  then show ?thesis by (intro exI [of _ u]) auto
qed

lemma rp_inv_progress:
  assumes "rp_inv r s" and "\<not> rp_aborted s" and "rp_pcs s t \<noteq> Idle" and "rp_pcs s t \<noteq> GetWaiting"
  shows "\<exists>u s'. rp_pcs s u \<noteq> Idle \<and> rp_pcs s u \<noteq> GetWaiting \<and> rp_step u s s'"
proof (cases "rp_owner s")
  case None
  moreover have "\<not> rp_critical (rp_pcs s t)" using assms(1) None by (simp add: rp_inv_def rp_inv_lock_def)
  ultimately show ?thesis using rp_entry_steps [of s t] assms(2-4) by blast
next
  case (Some u)
  then have crit: "rp_critical (rp_pcs s u)" using assms(1) by (simp add: rp_inv_def rp_inv_lock_def)
  then have "rp_pcs s u \<noteq> Idle" "rp_pcs s u \<noteq> GetWaiting" by auto
  then show ?thesis using rp_critical_steps [OF crit assms(2)] by blast
qed

section \<open>Properties\<close>

text \<open>C1. Mutual exclusion and first-in first-out delivery under every interleaving of any number
  of producers and consumers: two threads are never inside the critical section together, and
  the blocks pushed so far are exactly the blocks delivered so far followed by the ring's
  content, so nothing is lost, duplicated or reordered.\<close>

theorem rp_fifo_exclusive:
  assumes "RingPthread_new heap_ok junk sz cnt = Inr r" and "rp_reach r s"
  shows "rp_put s = rp_got s @ ring_items (rp_ring s) \<and>
         (\<forall>t u. rp_critical (rp_pcs s t) \<and> rp_critical (rp_pcs s u) \<longrightarrow> t = u)"
  using rp_reach_new_inv [OF assms] rp_critical_unique [of s]
  by (auto simp: rp_inv_def rp_inv_data_def)

theorem rp_fifo_exclusive_witness:
  "\<exists>s. rp_reach ring_new_1_2 s \<and> rp_put s = rp_got s @ [[7]]"
proof -
  obtain s where s: "rp_reach ring_new_1_2 s" "ring_items (rp_ring s) = [[7]]"
    using rp_reach_signalling by blast
  then show ?thesis using rp_fifo_exclusive [OF rp_new_example s(1)] by auto
qed

text \<open>C6. No wake-up is lost: whenever a consumer sleeps in \<open>pthread_cond_wait\<close> while the ring
  holds an item, some other thread is about to signal, or is awake inside \<open>get\<close> and will
  look at the ring before it sleeps or returns.\<close>

theorem rp_no_lost_wakeup:
  assumes "RingPthread_new heap_ok junk sz cnt = Inr r" and "rp_reach r s"
    and "rp_pcs s t = GetWaiting" and "ring_items (rp_ring s) \<noteq> []"
  shows "\<exists>u. u \<noteq> t \<and> rp_pending (rp_pcs s u)"
proof -
  have "length (ring_items (rp_ring s)) \<le> card (rp_pending_set s)"
    using rp_reach_new_inv [OF assms(1,2)] assms(3) by (auto simp: rp_inv_def rp_inv_wake_def)
  with assms(4) have "rp_pending_set s \<noteq> {}" by auto
  then obtain u where "rp_pending (rp_pcs s u)" by (auto simp: rp_pending_set_def)
  then show ?thesis using assms(3) by (intro exI [of _ u]) auto
qed

theorem rp_no_lost_wakeup_witness:
  "\<exists>s u. rp_reach ring_new_1_2 s \<and> rp_pcs s 1 = GetWaiting \<and> rp_pending (rp_pcs s u)"
proof -
  obtain s where s: "rp_reach ring_new_1_2 s" "rp_pcs s 1 = GetWaiting" "ring_items (rp_ring s) = [[7]]"
    using rp_reach_signalling by blast
  then show ?thesis using rp_no_lost_wakeup [OF rp_new_example s(1,2)] by auto
qed

text \<open>C7. No deadlock: while the process has not aborted, every call in progress that is not asleep on an empty ring
  means that some thread can take its next step, other than by a spurious wake-up.  In particular a consumer never sleeps
  for good on a ring that holds an item.\<close>

theorem rp_no_deadlock:
  assumes "RingPthread_new heap_ok junk sz cnt = Inr r" and "rp_reach r s"
    and "\<not> rp_aborted s" and "rp_pcs s t \<noteq> Idle" and "\<not> (rp_pcs s t = GetWaiting \<and> ring_items (rp_ring s) = [])"
  shows "\<exists>u s'. rp_pcs s u \<noteq> Idle \<and> rp_pcs s u \<noteq> GetWaiting \<and> rp_step u s s'"
proof -
  have inv: "rp_inv r s" by (rule rp_reach_new_inv [OF assms(1,2)])
  have "\<exists>u. rp_pcs s u \<noteq> Idle \<and> rp_pcs s u \<noteq> GetWaiting"
    using rp_inv_awake [OF inv, of t] assms(4,5) by (cases "rp_pcs s t = GetWaiting") auto
  then obtain u where "rp_pcs s u \<noteq> Idle" "rp_pcs s u \<noteq> GetWaiting" by blast
  then show ?thesis by (rule rp_inv_progress [OF inv assms(3)])
qed

theorem rp_no_deadlock_witness: "\<exists>s u s'. rp_reach ring_new_1_2 s \<and> rp_step u s s'"
proof -
  obtain s where s: "rp_reach ring_new_1_2 s" "rp_pcs s 0 = PutSignal" "\<not> rp_aborted s"
    using rp_reach_signalling by blast
  then show ?thesis using rp_no_deadlock [OF rp_new_example s(1,3), of 0] by auto
qed

text \<open>C23. When the process can abort: in every interleaving of \<open>put\<close> and \<open>get\<close> calls by any number of threads an assertion fails
  only when a producer is about to push into a ring that holds as many items as its capacity.\<close>

theorem rp_abort_only_full:
  assumes "RingPthread_new heap_ok junk sz cnt = Inr r" and "rp_reach r s" and "rp_aborted s"
  shows "length (ring_items (rp_ring s)) = unat cnt \<and> (\<exists>t x. rp_pcs s t = PutPush x)"
proof -
  have "itemCount r = cnt"
    using OsRing_new_ok(4) assms(1) by (simp add: RingPthread_new_def)
  then show ?thesis
    using rp_reach_new_inv [OF assms(1,2)] assms(3)
    by (auto simp: rp_inv_def rp_inv_abort_def rp_inv_data_def OsRing_full_items)
qed

theorem rp_abort_only_full_witness:
  "\<exists>s t x. rp_reach ring_new_1_1 s \<and> length (ring_items (rp_ring s)) = 1 \<and> rp_pcs s t = PutPush x"
proof -
  have new: "RingPthread_new (\<lambda>_. True) (\<lambda>_. 0) 1 1 = Inr ring_new_1_1"
    by (simp add: RingPthread_new_def OsRing_new_def ring_count_ok_def c_int_mul_def
        ring_new_1_1_def)
  obtain s where s: "rp_reach ring_new_1_1 s" "rp_aborted s" using rp_reach_aborted by blast
  then show ?thesis using rp_abort_only_full [OF new s] by auto
qed

text \<open>A \<open>get\<close> with a timeout other than zero never gives up: once it leaves the critical
  section it has a message.  A finite timeout therefore waits as long as \<open>POS_TIME_FOREVER\<close>.\<close>

theorem rp_get_timeout_ignored:
  assumes "RingPthread_new heap_ok junk sz cnt = Inr r" and "rp_reach r s"
  shows "rp_pcs s t \<noteq> GetUnlock True None"
  using rp_reach_new_inv [OF assms] by (simp add: rp_inv_def rp_inv_get_def)

theorem rp_get_timeout_ignored_witness: "\<exists>s. rp_reach ring_new_1_2 s \<and> rp_pcs s 0 \<noteq> GetUnlock True None"
  using rp_get_timeout_ignored [OF rp_new_example rp_start] rp_start by blast

end
