(* ===== verification/Posix_Queue.thy ===== *)
theory Posix_Queue
  imports Ring_Pthread
begin

text \<open>
  The POSIX message queue of \<^verbatim>\<open>targets/posix/os_queue.cc\<close>, built on the thread-safe ring.
  The world of an operation is the \<open>struct pos_queue\<close> and the rest of the program \<open>'k\<close>,
  which only the signal callback reaches.  Function pointers are values of a type
  \<open>'f\<close>, and \<open>run_cb\<close> gives what calling one does.
\<close>

section \<open>Definitions\<close>

record ('f, 'p) pos_queue_posix =
  pq_ring :: "OsRing option"
  pq_sig_cb :: "'f option"
  pq_sig_arg :: "'p option"

text \<open>
  \<open>new ring_t(msg_size, max_msgs)\<close>: the \<open>size_t\<close> arguments are converted to the
  constructor's \<open>uint16_t\<close> parameters.  \<open>new\<close> throws when it finds no memory, so it never
  yields a null pointer; \<open>obj_ok\<close> tells whether the ring object itself can be allocated.
\<close>

definition pos_queue_init_posix ::
    "bool \<Rightarrow> (nat \<Rightarrow> bool) \<Rightarrow> (nat \<Rightarrow> u8) \<Rightarrow> 64 word \<Rightarrow> 64 word \<Rightarrow>
     (pos_error, ('f, 'p) pos_queue_posix \<times> 'k) prog" where
  "pos_queue_init_posix obj_ok heap_ok junk msg_size max_msgs =
     (if \<not> obj_ok then c_stop Uncaught_Exception
      else case RingPthread_new heap_ok junk (ucast msg_size) (ucast max_msgs) of
        Inl why \<Rightarrow> c_stop why
      | Inr r \<Rightarrow>
          c_then (upd_obj (\<lambda>msgq. msgq\<lparr>pq_ring := Some r, pq_sig_cb := None, pq_sig_arg := None\<rparr>))
            (c_bind (get_obj pq_ring)
              (\<lambda>q. c_return (if q \<noteq> None then POS_OK else POS_ENOMEM))))"

definition pos_queue_set_signal_cb_posix ::
    "'f option \<Rightarrow> 'p option \<Rightarrow> (unit, ('f, 'p) pos_queue_posix \<times> 'k) prog" where
  "pos_queue_set_signal_cb_posix signal_cb data =
     upd_obj (\<lambda>msgq. msgq\<lparr>pq_sig_cb := signal_cb, pq_sig_arg := data\<rparr>)"

text \<open>A method call on the ring: through a null pointer it is undefined.\<close>

definition on_ring ::
    "('a, OsRing) prog \<Rightarrow> ('a, ('f, 'p) pos_queue_posix \<times> 'k) prog" where
  "on_ring m w =
     (case pq_ring (fst w) of
        None \<Rightarrow> Stops Undefined_Behaviour
      | Some r \<Rightarrow>
          (case m r of
             Stops s \<Rightarrow> Stops s
           | Returns a r' \<Rightarrow> Returns a ((fst w)\<lparr>pq_ring := Some r'\<rparr>, snd w)))"

definition pos_queue_is_empty_posix :: "(bool, ('f, 'p) pos_queue_posix \<times> 'k) prog" where
  "pos_queue_is_empty_posix =
     c_bind (on_ring (c_gets RingPthread_size)) (\<lambda>n. c_return (n = 0))"

definition pos_queue_inited_posix :: "('f, 'p) pos_queue_posix \<Rightarrow> int" where
  "pos_queue_inited_posix msgq = (if pq_ring msgq \<noteq> None then 1 else 0)"

definition pos_queue_put_posix ::
    "('f \<Rightarrow> 'p option \<Rightarrow> (unit, 'k) prog) \<Rightarrow> bytes \<Rightarrow>
     (pos_error, ('f, 'p) pos_queue_posix \<times> 'k) prog" where
  "pos_queue_put_posix run_cb data =
     c_then (on_ring (RingPthread_put data))
       (c_bind (get_obj (\<lambda>msgq. (pq_sig_cb msgq, pq_sig_arg msgq))) (\<lambda>(sig_cb, sig_arg).
          case sig_cb of
            Some f \<Rightarrow> c_then (kcall (run_cb f sig_arg)) (c_return POS_OK)
          | None \<Rightarrow> c_return POS_OK))"

definition pos_queue_get_posix ::
    "bytes \<Rightarrow> pos_time \<Rightarrow> (pos_error \<times> bytes, ('f, 'p) pos_queue_posix \<times> 'k) prog" where
  "pos_queue_get_posix data tmo =
     c_bind (on_ring (RingPthread_get data tmo))
       (\<lambda>(success, data'). c_return (if success then POS_OK else POS_TIMEOUT, data'))"

text \<open>\<open>pos_queue_deinit\<close> accepts a null pointer.\<close>

definition pos_queue_deinit_posix ::
    "('f, 'p) pos_queue_posix option \<Rightarrow> pos_error \<times> ('f, 'p) pos_queue_posix option" where
  "pos_queue_deinit_posix msgq =
     (case msgq of
        None \<Rightarrow> (POS_OK, None)
      | Some m \<Rightarrow> (POS_OK, Some (if pq_ring m \<noteq> None then m\<lparr>pq_ring := None\<rparr> else m)))"

text \<open>The queue as a list of messages, its capacity and its message size.\<close>

definition pq_ok :: "('f, 'p) pos_queue_posix \<times> 'k \<Rightarrow> bool" where
  "pq_ok w \<longleftrightarrow> (\<exists>r. pq_ring (fst w) = Some r \<and> ring_ok r) \<and> pq_sig_cb (fst w) = None"

definition pq_items :: "('f, 'p) pos_queue_posix \<times> 'k \<Rightarrow> bytes list" where
  "pq_items w = (case pq_ring (fst w) of None \<Rightarrow> [] | Some r \<Rightarrow> ring_items r)"

definition pq_cap :: "('f, 'p) pos_queue_posix \<times> 'k \<Rightarrow> nat" where
  "pq_cap w = (case pq_ring (fst w) of None \<Rightarrow> 0 | Some r \<Rightarrow> unat (itemCount r))"

definition pq_width :: "('f, 'p) pos_queue_posix \<times> 'k \<Rightarrow> nat" where
  "pq_width w = (case pq_ring (fst w) of None \<Rightarrow> 0 | Some r \<Rightarrow> unat (itemSize r))"

section \<open>The queue meets its contract\<close>

lemmas pq_defs = pq_ok_def pq_items_def pq_cap_def pq_width_def

lemma pos_queue_put_posix_eq:
  assumes "pq_ring q = Some r" and "OsRing_push_back x r = Returns () r'"
  shows "pos_queue_put_posix run_cb x (q, k) =
    (case pq_sig_cb q of
       None \<Rightarrow> Returns POS_OK (q\<lparr>pq_ring := Some r'\<rparr>, k)
     | Some f \<Rightarrow>
         (case run_cb f (pq_sig_arg q) k of
            Stops s \<Rightarrow> Stops s
          | Returns _ k' \<Rightarrow> Returns POS_OK (q\<lparr>pq_ring := Some r'\<rparr>, k')))"
  using assms
  by (simp add: pos_queue_put_posix_def RingPthread_put_def on_ring_def prog_defs
      split: option.split outcome.split)

lemma pos_queue_get_posix_eq:
  assumes "pq_ring q = Some r"
  shows "pos_queue_get_posix out tmo (q, k) =
    (case RingPthread_get out tmo r of
       Stops s \<Rightarrow> Stops s
     | Returns (b, out') r' \<Rightarrow>
         Returns (if b then POS_OK else POS_TIMEOUT, out') (q\<lparr>pq_ring := Some r'\<rparr>, k))"
  using assms
  by (simp add: pos_queue_get_posix_def on_ring_def prog_defs split: outcome.split prod.split)

interpretation posix_queue: osal_queue "pos_queue_put_posix run_cb" pos_queue_get_posix
  pq_items pq_cap pq_width pq_ok
proof (unfold_locales, goal_cases)
  case (1 w x)
  then obtain q k r where w: "w = (q, k)" "pq_ring q = Some r" "ring_ok r" "pq_sig_cb q = None"
    by (cases w) (auto simp: pq_ok_def)
  then obtain r' where "OsRing_push_back x r = Returns () r'" "ring_ok r'"
      "ring_items r' = ring_items r @ [take (unat (itemSize r)) x]"
      "unat (itemCount r') = unat (itemCount r)" "unat (itemSize r') = unat (itemSize r)"
    using ring.push_item [of r x] 1 by (auto simp: pq_defs)
  with w show ?case by (simp add: pos_queue_put_posix_eq pq_defs)
next
  case (2 w x)
  then obtain q k r where w: "w = (q, k)" "pq_ring q = Some r" "ring_ok r"
    by (cases w) (auto simp: pq_ok_def)
  then have "OsRing_push_back x r = Stops Assert_Failure"
    using ring.push_full [of r x] 2 by (simp add: pq_defs)
  with w show ?case
    by (simp add: pos_queue_put_posix_def RingPthread_put_def c_then_def c_bind_def on_ring_def)
next
  case (3 w y ys out tmo)
  then obtain q k r where w: "w = (q, k)" "pq_ring q = Some r" "ring_ok r" "pq_sig_cb q = None"
    by (cases w) (auto simp: pq_ok_def)
  then have it: "ring_items r = y # ys" and out: "unat (itemSize r) \<le> length out"
    using 3 by (auto simp: pq_defs)
  have len: "length y = unat (itemSize r)" using ring.items_width [OF w(3)] it by simp
  from RingPthread_get_nonempty [OF w(3) it out, of tmo] w len show ?case
    by (auto simp: pos_queue_get_posix_eq pq_defs)
next
  case (6 w out tmo)
  then obtain q k r where w: "w = (q, k)" "pq_ring q = Some r" "ring_ok r" "pq_sig_cb q = None"
    by (cases w) (auto simp: pq_ok_def)
  then have "ring_items r = []" using 6 by (simp add: pq_defs)
  from RingPthread_get_empty [OF this, of out tmo] w show ?case
    by (simp add: pos_queue_get_posix_eq pq_defs \<open>ring_items r = []\<close>)
next
  case (4 w)
  then show ?case using ring.items_cap by (auto simp: pq_defs)
next
  case (5 w y)
  then show ?case using ring.items_width by (auto simp: pq_defs)
qed

lemma pos_queue_init_posix_eq:
  "pos_queue_init_posix True heap_ok junk msg_size max_msgs (q, k) =
     (case OsRing_new heap_ok junk (ucast msg_size) (ucast max_msgs) of
        Inl why \<Rightarrow> Stops why
      | Inr r \<Rightarrow> Returns POS_OK (q\<lparr>pq_ring := Some r, pq_sig_cb := None, pq_sig_arg := None\<rparr>, k))"
  by (simp add: pos_queue_init_posix_def RingPthread_new_def prog_defs split: sum.split)

lemma unat_ucast_64_16: "unat (ucast (x :: 64 word) :: u16) = unat x mod 65536"
  by (simp add: unsigned_ucast_eq take_bit_eq_mod)

lemma pos_queue_init_posix_Returns:
  assumes "pos_queue_init_posix obj_ok heap_ok junk msg_size max_msgs w = Returns e w'"
  shows "e = POS_OK" and "pq_ok w'" and "pq_items w' = []"
    and "pq_width w' = unat msg_size mod 65536" and "pq_cap w' = unat max_msgs mod 65536"
proof -
  obtain q k where w: "w = (q, k)" by (cases w)
  have "obj_ok" using assms by (auto simp: pos_queue_init_posix_def c_stop_def split: if_splits)
  then obtain r where r: "OsRing_new heap_ok junk (ucast msg_size) (ucast max_msgs) = Inr r"
      "e = POS_OK" "w' = (q\<lparr>pq_ring := Some r, pq_sig_cb := None, pq_sig_arg := None\<rparr>, k)"
    using assms w by (auto simp: pos_queue_init_posix_eq split: sum.splits)
  note new = OsRing_new_ok [OF r(1)]
  show "e = POS_OK" "pq_ok w'" "pq_items w' = []" "pq_width w' = unat msg_size mod 65536"
    "pq_cap w' = unat max_msgs mod 65536"
    using new by (simp_all add: r pq_defs unat_ucast_64_16)
qed

section \<open>Interleaved and sequential executions\<close>

text \<open>
  The operations above treat a method of the ring as one step.  The interleaved execution
  justifies that: its histories are those of a sequence of calls.
\<close>

lemma rp_reach_sequential:
  assumes "ring_ok r" and "ring_items r = []" and "rp_reach r s"
    and "pq_ring q = Some r" and "pq_sig_cb q = None"
  shows "\<exists>cs sent got. queue_run (pos_queue_put_posix run_cb) pos_queue_get_posix cs (q, k) =
             Returns (sent, got) (q\<lparr>pq_ring := Some (rp_ring s)\<rparr>, k) \<and>
           map (take (unat (itemSize r))) sent = rp_put s \<and> got = rp_got s"
  using assms(3)
proof (induction rule: rp_reach.induct)
  case rp_start
  show ?case
    by (rule exI [of _ "[]"]) (simp add: rp_init_def c_return_def assms(4) [symmetric])
next
  case (rp_next s t s')
  let ?run = "queue_run (pos_queue_put_posix run_cb) pos_queue_get_posix"
  obtain cs sent got where IH: "?run cs (q, k) = Returns (sent, got) (q\<lparr>pq_ring := Some (rp_ring s)\<rparr>, k)"
      "map (take (unat (itemSize r))) sent = rp_put s" "got = rp_got s"
    using rp_next.IH by blast
  have inv: "rp_inv_data r s" using rp_reach_inv [OF rp_next.hyps(1) assms(1,2)] by (simp add: rp_inv_def)
  then have sz: "itemSize (rp_ring s) = itemSize r" by (simp add: rp_inv_data_def)
  note app = queue_run_append [of _ _ cs]
  from rp_step_effect [OF rp_next.hyps(2)] consider
      (same) "rp_ring s' = rp_ring s" "rp_put s' = rp_put s" "rp_got s' = rp_got s"
    | (put) x where "OsRing_push_back x (rp_ring s) = Returns () (rp_ring s')"
        "rp_put s' = rp_put s @ [take (unat (itemSize r)) x]" "rp_got s' = rp_got s"
    | (get) b where "ring_peek (rp_ring s) = Some b" "OsRing_pop_front (rp_ring s) = Returns () (rp_ring s')"
        "rp_put s' = rp_put s" "rp_got s' = rp_got s @ [b]"
    using sz by auto
  then show ?case
  proof cases
    case same
    then show ?thesis using IH by auto
  next
    case put
    then have "?run (cs @ [QPut x]) (q, k) = Returns (sent @ [x], got) (q\<lparr>pq_ring := Some (rp_ring s')\<rparr>, k)"
      using IH assms(5) by (simp add: app pos_queue_put_posix_eq c_bind_def c_return_def)
    then show ?thesis using put IH by fastforce
  next
    case get
    have "length b = unat (itemSize r)"
      using rp_inv_data_pop [OF inv get(1,2)] ring.items_width [of "rp_ring s"] inv sz
      by (simp add: rp_inv_data_def)
    then have "?run (cs @ [QGet (replicate (unat (itemSize r)) 0) 1]) (q, k) =
        Returns (sent, got @ [b]) (q\<lparr>pq_ring := Some (rp_ring s')\<rparr>, k)"
      using IH RingPthread_get_peek [OF get(1,2)] sz
      by (simp add: app pos_queue_get_posix_eq c_bind_def c_return_def)
    then show ?thesis using get IH by fastforce
  qed
qed

section \<open>Properties\<close>

text \<open>A queue of four two-byte messages, for the examples.\<close>

lemma posix_queue_example:
  "\<exists>w. pos_queue_init_posix True (\<lambda>_. True) (\<lambda>_. 0) 2 4
         (\<lparr>pq_ring = None, pq_sig_cb = None :: nat option, pq_sig_arg = None :: nat option\<rparr>, ()) =
         Returns POS_OK w"
  by (simp add: pos_queue_init_posix_eq OsRing_new_def ring_count_ok_def c_int_mul_def)

text \<open>The POSIX queue is first in, first out: over any sequence of completed puts and gets on a
  fresh queue, the accepted messages (cut to the message size) are exactly the delivered ones,
  in order, followed by those still queued.\<close>

theorem posix_queue_fifo:
  assumes "pos_queue_init_posix obj_ok heap_ok junk msg_size max_msgs w = Returns e w0"
    and "\<forall>c \<in> set cs. call_area_ok (pq_width w0) c"
    and "queue_run (pos_queue_put_posix run_cb) pos_queue_get_posix cs w0 = Returns (sent, got) w'"
  shows "map (take (pq_width w0)) sent = map (take (pq_width w0)) got @ pq_items w'"
  using posix_queue.queue_run_fifo [OF pos_queue_init_posix_Returns(2) [OF assms(1)] assms(2,3)]
    pos_queue_init_posix_Returns(3) [OF assms(1)] by simp

theorem posix_queue_fifo_witness:
  "\<exists>w0 w' sent got. queue_run (pos_queue_put_posix (\<lambda>(_ :: nat) (_ :: nat option) (k :: unit). Returns () k))
     pos_queue_get_posix [QPut [1, 2], QPut [3, 4], QGet [0, 0] 5] w0 = Returns (sent, got) w' \<and>
     map (take 2) sent = map (take 2) got @ pq_items w'"
proof -
  obtain w0 :: "(nat, nat) pos_queue_posix \<times> unit" where
      w0: "pos_queue_init_posix True (\<lambda>_. True) (\<lambda>_. 0) 2 4
         (\<lparr>pq_ring = None, pq_sig_cb = None, pq_sig_arg = None\<rparr>, ()) = Returns POS_OK w0"
    using posix_queue_example by blast
  note i = pos_queue_init_posix_Returns [OF w0]
  let ?cb = "\<lambda>(_ :: nat) (_ :: nat option) (k :: unit). Returns () k"
  let ?cs = "[QPut [1, 2], QPut [3, 4], QGet [0, 0] 5]"
  obtain w1 where w1: "pos_queue_put_posix ?cb [1, 2] w0 = Returns POS_OK w1" "pq_ok w1"
      "pq_items w1 = [[1, 2]]" "pq_cap w1 = 4" "pq_width w1 = 2"
    using posix_queue.put_room [of w0 "[1, 2]" ?cb] i by auto
  obtain w2 where w2: "pos_queue_put_posix ?cb [3, 4] w1 = Returns POS_OK w2" "pq_ok w2"
      "pq_items w2 = [[1, 2], [3, 4]]" "pq_width w2 = 2"
    using posix_queue.put_room [of w1 "[3, 4]" ?cb] w1 by auto
  obtain w3 where w3: "pos_queue_get_posix [0, 0] 5 w2 = Returns (POS_OK, [1, 2]) w3"
    using posix_queue.get_item [of w2 "[1, 2]" "[[3, 4]]" "[0, 0]" 5] w2 by auto
  have run: "queue_run (pos_queue_put_posix ?cb) pos_queue_get_posix ?cs w0 =
      Returns ([[1, 2], [3, 4]], [[1, 2]]) w3"
    using w1 w2 w3 by (simp add: c_bind_def c_return_def)
  have wd: "pq_width w0 = 2" using i by simp
  then have "\<forall>c \<in> set ?cs. call_area_ok (pq_width w0) c" by simp
  from run posix_queue_fifo [OF w0 this run, unfolded wd] show ?thesis by blast
qed

text \<open>C8. The queue is linearizable: whatever a reachable interleaving of concurrent calls on the
  thread-safe ring has done to it, a sequence of atomic \<open>pos_queue_put\<close> and \<open>pos_queue_get\<close> calls
  does the same to a queue over the same fresh ring, with the same messages accepted and the
  same messages delivered, in the same orders.\<close>

theorem posix_queue_linearizable:
  assumes "RingPthread_new heap_ok junk sz cnt = Inr r" and "rp_reach r s"
    and "pq_ring q = Some r" and "pq_sig_cb q = None"
  shows "\<exists>cs sent got. queue_run (pos_queue_put_posix run_cb) pos_queue_get_posix cs (q, k) =
             Returns (sent, got) (q\<lparr>pq_ring := Some (rp_ring s)\<rparr>, k) \<and>
           map (take (unat sz)) sent = rp_put s \<and> got = rp_got s"
  using rp_reach_sequential [OF _ _ assms(2-4), of run_cb k]
    OsRing_new_ok [OF assms(1) [unfolded RingPthread_new_def]] by simp

theorem posix_queue_linearizable_witness:
  "\<exists>s cs sent got. rp_reach ring_new_1_2 s \<and> rp_pcs s 1 = GetWaiting \<and>
     queue_run (pos_queue_put_posix (\<lambda>(f :: nat) (a :: nat option) (k :: unit). Returns () k)) pos_queue_get_posix cs
       (\<lparr>pq_ring = Some ring_new_1_2, pq_sig_cb = None, pq_sig_arg = None\<rparr>, ()) =
       Returns (sent, got) (\<lparr>pq_ring = Some (rp_ring s), pq_sig_cb = None, pq_sig_arg = None\<rparr>, ()) \<and>
     ring_items (rp_ring s) = [[7]] \<and> map (take 1) sent = rp_put s"
proof -
  obtain s where s: "rp_reach ring_new_1_2 s" "rp_pcs s 1 = GetWaiting" "ring_items (rp_ring s) = [[7]]"
    using rp_reach_signalling by blast
  with posix_queue_linearizable [OF rp_new_example s(1),
      of "\<lparr>pq_ring = Some ring_new_1_2, pq_sig_cb = None, pq_sig_arg = None\<rparr>"
         "\<lambda>(f :: nat) (a :: nat option) (k :: unit). Returns () k" "()"]
  show ?thesis by (intro exI [of _ s]) auto
qed

text \<open>Sizes are silently cut to 16 bits: a successful initialisation yields a queue whose
  message size and capacity are the requested ones modulo 65536.\<close>

theorem posix_queue_init_truncates:
  assumes "pos_queue_init_posix obj_ok heap_ok junk msg_size max_msgs w = Returns e w'"
  shows "e = POS_OK \<and> pq_items w' = [] \<and> pq_width w' = unat msg_size mod 65536 \<and>
         pq_cap w' = unat max_msgs mod 65536"
  using pos_queue_init_posix_Returns [OF assms] by simp

theorem posix_queue_init_truncates_witness:
  "\<exists>w' :: (nat, nat) pos_queue_posix \<times> unit.
     pos_queue_init_posix True (\<lambda>_. True) (\<lambda>_. 0) 65538 65540
       (\<lparr>pq_ring = None, pq_sig_cb = None, pq_sig_arg = None\<rparr>, ()) = Returns POS_OK w' \<and>
     pq_width w' = 2 \<and> pq_cap w' = 4"
proof -
  obtain w' :: "(nat, nat) pos_queue_posix \<times> unit" where
    w': "pos_queue_init_posix True (\<lambda>_. True) (\<lambda>_. 0) 65538 65540
       (\<lparr>pq_ring = None, pq_sig_cb = None, pq_sig_arg = None\<rparr>, ()) = Returns POS_OK w'"
    by (simp add: pos_queue_init_posix_eq OsRing_new_def ring_count_ok_def c_int_mul_def)
  from posix_queue_init_truncates [OF w'] w' show ?thesis by auto
qed

text \<open>A put with a signal callback appends the message first and then runs the callback exactly
  once, with the registered argument; it reports success as soon as the callback returns.\<close>

theorem posix_queue_put_signals:
  assumes "pq_ring q = Some r" and "ring_ok r" and "unat (itemSize r) \<le> length x"
    and "length (ring_items r) < unat (itemCount r)" and "pq_sig_cb q = Some f"
    and "run_cb f (pq_sig_arg q) k = Returns () k'"
  shows "\<exists>r'. pos_queue_put_posix run_cb x (q, k) = Returns POS_OK (q\<lparr>pq_ring := Some r'\<rparr>, k') \<and>
              ring_items r' = ring_items r @ [take (unat (itemSize r)) x]"
proof -
  obtain r' where "OsRing_push_back x r = Returns () r'"
      "ring_items r' = ring_items r @ [take (unat (itemSize r)) x]"
    using ring.push_item [OF assms(2,4,3)] by blast
  then show ?thesis
    using assms(1,5,6) by (intro exI [of _ r']) (simp add: pos_queue_put_posix_eq)
qed

theorem posix_queue_put_signals_witness:
  "\<exists>r'. pos_queue_put_posix (\<lambda>(f :: nat) (a :: nat option) (log :: nat list). Returns () (f # log)) [7]
     (\<lparr>pq_ring = Some ring_new_1_2, pq_sig_cb = Some 3, pq_sig_arg = Some 9\<rparr>, []) =
     Returns POS_OK (\<lparr>pq_ring = Some r', pq_sig_cb = Some 3, pq_sig_arg = Some 9\<rparr>, [3]) \<and>
     ring_items r' = [[7]]"
  using posix_queue_put_signals [of
      "\<lparr>pq_ring = Some ring_new_1_2, pq_sig_cb = Some (3::nat), pq_sig_arg = Some (9::nat)\<rparr>"
      ring_new_1_2 "[7]" 3 "\<lambda>f a log. Returns () (f # log)" "[]" "[3]"] ring_new_1_2_ok
  by (auto simp: ring_new_1_2_def)

end
