(* ===== verification/Freertos_Queue.thy ===== *)
theory Freertos_Queue
  imports Freertos_Sync
begin

text \<open>
  The FreeRTOS port's message queue, \<^verbatim>\<open>targets/freertos/os_queue.c\<close> and the inline functions
  of \<^verbatim>\<open>poski/osal/os_port.h\<close>.  A receive call takes the caller's area and returns its new
  content; calls for interrupt handlers pass the flag \<open>woken\<close> through.
\<close>

section \<open>Definitions\<close>

abbreviation "errQUEUE_EMPTY \<equiv> (0 :: int)"

record ('h, 'k) freertos_queue_api =
  xQueueCreate :: "u32 \<Rightarrow> u32 \<Rightarrow> ('h option, 'k) prog"
  xQueueReceive :: "'h \<Rightarrow> bytes \<Rightarrow> pos_time \<Rightarrow> (int \<times> bytes, 'k) prog"
  xQueueReceiveFromISR :: "'h \<Rightarrow> bytes \<Rightarrow> int \<Rightarrow> (int \<times> bytes \<times> int, 'k) prog"
  xQueueSendToBack :: "'h \<Rightarrow> bytes \<Rightarrow> pos_time \<Rightarrow> (int, 'k) prog"
  xQueueSendToBackFromISR :: "'h \<Rightarrow> bytes \<Rightarrow> int \<Rightarrow> (int \<times> int, 'k) prog"
  vQueueDelete :: "'h \<Rightarrow> (unit, 'k) prog"
  queue_portYIELD_FROM_ISR :: "int \<Rightarrow> (unit, 'k) prog"

record 'h pos_queue_freertos =
  fq_handle :: "'h option"

definition pos_queue_init_freertos ::
    "('h, 'k) freertos_queue_api \<Rightarrow> u32 \<Rightarrow> u32 \<Rightarrow> (pos_error, 'h pos_queue_freertos \<times> 'k) prog" where
  "pos_queue_init_freertos api msg_size max_msgs =
     c_bind (kcall (xQueueCreate api max_msgs msg_size)) (\<lambda>h.
     c_then (upd_obj (\<lambda>q. q\<lparr>fq_handle := h\<rparr>)) (c_return POS_OK))"

definition pos_queue_inited_freertos :: "'h pos_queue_freertos \<Rightarrow> int" where
  "pos_queue_inited_freertos q = (if fq_handle q \<noteq> None then 1 else 0)"

text \<open>The port hands the handle to the kernel unchecked; a null handle is undefined there.\<close>

definition queue_handle :: "('h, 'h pos_queue_freertos \<times> 'k) prog" where
  "queue_handle =
     c_bind (get_obj fq_handle) (\<lambda>h. case h of None \<Rightarrow> c_stop Undefined_Behaviour | Some h \<Rightarrow> c_return h)"

definition pos_queue_get_freertos ::
    "'k isr_hw \<Rightarrow> ('h, 'k) freertos_queue_api \<Rightarrow> int \<Rightarrow> bytes \<Rightarrow> pos_time \<Rightarrow>
     (pos_error \<times> bytes, 'h pos_queue_freertos \<times> 'k) prog" where
  "pos_queue_get_freertos hw api junk data tmo =
     c_bind (kcall (c_gets (pos_hw_in_isr_freertos hw))) (\<lambda>in_isr.
     c_bind
       (if in_isr then
          c_then (c_assert (tmo = 0))
            (c_bind queue_handle (\<lambda>h.
             c_bind (kcall (xQueueReceiveFromISR api h data junk)) (\<lambda>(ret, data', woken).
             c_then (kcall (queue_portYIELD_FROM_ISR api woken)) (c_return (ret, data')))))
        else c_bind queue_handle (\<lambda>h. kcall (xQueueReceive api h data tmo)))
       (\<lambda>(ret, data').
          c_then (c_assert (ret = pdPASS \<or> ret = errQUEUE_EMPTY)) (c_return (POS_OK, data'))))"

definition pos_queue_put_freertos ::
    "'k isr_hw \<Rightarrow> ('h, 'k) freertos_queue_api \<Rightarrow> int \<Rightarrow> bytes \<Rightarrow>
     (pos_error, 'h pos_queue_freertos \<times> 'k) prog" where
  "pos_queue_put_freertos hw api junk data =
     c_bind (kcall (c_gets (pos_hw_in_isr_freertos hw))) (\<lambda>in_isr.
     c_bind queue_handle (\<lambda>h.
     c_bind
       (if in_isr then
          c_bind (kcall (xQueueSendToBackFromISR api h data junk)) (\<lambda>(ret, woken).
          c_then (kcall (queue_portYIELD_FROM_ISR api woken)) (c_return ret))
        else kcall (xQueueSendToBack api h data portMAX_DELAY))
       (\<lambda>ret. c_then (c_assert (ret = pdPASS)) (c_return POS_OK))))"

definition pos_queue_deinit_freertos ::
    "('h, 'k) freertos_queue_api \<Rightarrow> bool \<Rightarrow> (pos_error, 'h pos_queue_freertos \<times> 'k) prog" where
  "pos_queue_deinit_freertos api queue_null =
     (if queue_null then c_return POS_OK
      else
        c_bind (get_obj fq_handle) (\<lambda>h.
          case h of
            None \<Rightarrow> c_return POS_OK
          | Some q \<Rightarrow>
              c_then (kcall (vQueueDelete api q))
              (c_then (upd_obj (\<lambda>o'. o'\<lparr>fq_handle := None\<rparr>)) (c_return POS_OK))))"

subsection \<open>A reference model of the kernel's queues\<close>

record ref_queues =
  rq_items :: "nat \<Rightarrow> bytes list"
  rq_cap :: "nat \<Rightarrow> nat"
  rq_width :: "nat \<Rightarrow> nat"
  rq_next :: nat

definition rq_ok :: "ref_queues \<Rightarrow> nat \<Rightarrow> bool" where
  "rq_ok k h \<longleftrightarrow>
     length (rq_items k h) \<le> rq_cap k h \<and> list_all (\<lambda>y. length y = rq_width k h) (rq_items k h)"

definition rq_receive :: "nat \<Rightarrow> bytes \<Rightarrow> (int \<times> bytes, ref_queues) outcome \<Rightarrow> (int \<times> bytes, ref_queues) prog" where
  "rq_receive h data none k =
     (case rq_items k h of
        [] \<Rightarrow> none
      | y # ys \<Rightarrow>
          Returns (pdPASS, y @ drop (length y) data) (k\<lparr>rq_items := (rq_items k)(h := ys)\<rparr>))"

definition rq_send :: "nat \<Rightarrow> bytes \<Rightarrow> (int, ref_queues) outcome \<Rightarrow> (int, ref_queues) prog" where
  "rq_send h x full k =
     (if length (rq_items k h) < rq_cap k h
      then Returns pdPASS (k\<lparr>rq_items := (rq_items k)(h := rq_items k h @ [take (rq_width k h) x])\<rparr>)
      else full)"

definition ref_queue_hw :: "ref_queues isr_hw" where
  "ref_queue_hw = \<lparr>hw_nrf5 = False, hw_icsr = (\<lambda>k. 0), hw_vectactive_msk = 511\<rparr>"

definition ref_freertos_queue :: "(nat, ref_queues) freertos_queue_api" where
  "ref_freertos_queue =
     \<lparr>xQueueCreate = (\<lambda>len size k.
        Returns (Some (rq_next k))
          (k\<lparr>rq_next := Suc (rq_next k), rq_items := (rq_items k)(rq_next k := []),
             rq_cap := (rq_cap k)(rq_next k := unat len), rq_width := (rq_width k)(rq_next k := unat size)\<rparr>)),
      xQueueReceive = (\<lambda>h data tmo k.
        rq_receive h data (if tmo = portMAX_DELAY then Stops Blocked else Returns (errQUEUE_EMPTY, data) k) k),
      xQueueReceiveFromISR = (\<lambda>h data woken k.
        c_bind (rq_receive h data (Returns (errQUEUE_EMPTY, data) k)) (\<lambda>(r, d). c_return (r, d, woken)) k),
      xQueueSendToBack = (\<lambda>h x tmo. rq_send h x (Stops Blocked)),
      xQueueSendToBackFromISR = (\<lambda>h x woken k.
        c_bind (rq_send h x (Returns pdFAIL k)) (\<lambda>r. c_return (r, woken)) k),
      vQueueDelete = (\<lambda>h k. Returns () (k\<lparr>rq_items := (rq_items k)(h := [])\<rparr>)),
      queue_portYIELD_FROM_ISR = (\<lambda>woken. c_return ())\<rparr>"

definition ref_queues0 :: ref_queues where
  "ref_queues0 = \<lparr>rq_items = \<lambda>_. [], rq_cap = \<lambda>_. 0, rq_width = \<lambda>_. 0, rq_next = 0\<rparr>"

section \<open>The documented behaviour of the kernel\<close>

locale freertos_queue_kernel =
  fixes hw :: "'k isr_hw"
    and api :: "('h, 'k) freertos_queue_api"
    and items :: "'k \<Rightarrow> 'h \<Rightarrow> bytes list"
    and cap :: "'k \<Rightarrow> 'h \<Rightarrow> nat"
    and width :: "'k \<Rightarrow> 'h \<Rightarrow> nat"
    and task_queue :: "'k \<Rightarrow> 'h \<Rightarrow> bool"
  assumes queue_task_level: "task_queue k h \<Longrightarrow> \<not> pos_hw_in_isr_freertos hw k"
    and create_empty:
      "\<not> pos_hw_in_isr_freertos hw k \<Longrightarrow> xQueueCreate api len sz k = Returns (Some h) k' \<Longrightarrow>
       task_queue k' h \<and> items k' h = [] \<and> cap k' h = unat len \<and> width k' h = unat sz"
    and send_room:
      "task_queue k h \<Longrightarrow> length (items k h) < cap k h \<Longrightarrow> width k h \<le> length x \<Longrightarrow>
       \<exists>k'. xQueueSendToBack api h x tmo k = Returns pdPASS k' \<and> task_queue k' h \<and>
            items k' h = items k h @ [take (width k h) x] \<and> cap k' h = cap k h \<and> width k' h = width k h"
    and send_full:
      "task_queue k h \<Longrightarrow> length (items k h) = cap k h \<Longrightarrow>
       xQueueSendToBack api h x portMAX_DELAY k = Stops Blocked"
    and receive_item:
      "task_queue k h \<Longrightarrow> items k h = y # ys \<Longrightarrow>
       \<exists>k'. xQueueReceive api h data tmo k = Returns (pdPASS, y @ drop (length y) data) k' \<and> task_queue k' h \<and>
            items k' h = ys \<and> cap k' h = cap k h \<and> width k' h = width k h"
    and receive_none:
      "task_queue k h \<Longrightarrow> items k h = [] \<Longrightarrow>
       (tmo = portMAX_DELAY \<and> xQueueReceive api h data tmo k = Stops Blocked) \<or>
       (tmo \<noteq> portMAX_DELAY \<and>
        (\<exists>k'. xQueueReceive api h data tmo k = Returns (errQUEUE_EMPTY, data) k' \<and> task_queue k' h \<and>
              items k' h = [] \<and> cap k' h = cap k h \<and> width k' h = width k h))"
    and queue_cap: "task_queue k h \<Longrightarrow> length (items k h) \<le> cap k h"
    and queue_width: "task_queue k h \<Longrightarrow> y \<in> set (items k h) \<Longrightarrow> length y = width k h"
begin

lemma put_task_level:
  assumes "fq_handle q = Some h" and "task_queue k h"
  shows "pos_queue_put_freertos hw api junk x (q, k) =
    (case xQueueSendToBack api h x portMAX_DELAY k of
       Stops s \<Rightarrow> Stops s
     | Returns ret k' \<Rightarrow> if ret = pdPASS then Returns POS_OK (q, k') else Stops Assert_Failure)"
  using queue_task_level [OF assms(2)] assms(1)
  by (simp add: pos_queue_put_freertos_def queue_handle_def prog_defs split: outcome.split)

lemma get_task_level:
  assumes "fq_handle q = Some h" and "task_queue k h"
  shows "pos_queue_get_freertos hw api junk data tmo (q, k) =
    (case xQueueReceive api h data tmo k of
       Stops s \<Rightarrow> Stops s
     | Returns (ret, data') k' \<Rightarrow>
         if ret = pdPASS \<or> ret = errQUEUE_EMPTY then Returns (POS_OK, data') (q, k')
         else Stops Assert_Failure)"
  using queue_task_level [OF assms(2)] assms(1)
  by (simp add: pos_queue_get_freertos_def queue_handle_def prog_defs split: outcome.split prod.split)

lemma init_handle:
  assumes "\<not> pos_hw_in_isr_freertos hw k"
    and "pos_queue_init_freertos api msg_size max_msgs (q, k) = Returns e (q', k')"
  shows "e = POS_OK \<and> (\<forall>h. fq_handle q' = Some h \<longrightarrow>
           task_queue k' h \<and> items k' h = [] \<and> cap k' h = unat max_msgs \<and> width k' h = unat msg_size)"
  using assms create_empty [OF assms(1)]
  by (auto simp: pos_queue_init_freertos_def prog_defs split: outcome.splits)

end

sublocale freertos_queue_kernel \<subseteq> freertos_queue: osal_queue_core
  "pos_queue_put_freertos hw api junk" "pos_queue_get_freertos hw api junk"
  "\<lambda>(q, k). items k h" "\<lambda>(q, k). cap k h" "\<lambda>(q, k). width k h"
  "\<lambda>(q, k). fq_handle q = Some h \<and> task_queue k h" for junk h
proof (unfold_locales, goal_cases)
  case (1 w x)
  then show ?case using send_room [of "snd w" h x portMAX_DELAY] by (cases w) (auto simp: put_task_level)
next
  case (2 w x)
  then show ?case using send_full [of "snd w" h x] by (cases w) (auto simp: put_task_level)
next
  case (3 w y ys out tmo)
  moreover from this have "length y = width (snd w) h" by (cases w) (auto intro!: queue_width)
  ultimately show ?case
    using receive_item [of "snd w" h y ys out tmo] by (cases w) (auto simp: get_task_level)
next
  case (4 w)
  then show ?case using queue_cap by (cases w) auto
next
  case (5 w y)
  then show ?case using queue_width by (cases w) auto
qed

interpretation ref_freertos_queue: freertos_queue_kernel ref_queue_hw ref_freertos_queue rq_items rq_cap
  rq_width rq_ok
  by unfold_locales
    (auto simp: ref_freertos_queue_def rq_ok_def ref_queue_hw_def pos_hw_in_isr_freertos_def rq_send_def
      rq_receive_def list_all_iff split: list.splits if_splits)

context freertos_queue_kernel
begin

lemma get_empty:
  assumes "fq_handle q = Some h" and "task_queue k h" and "items k h = []" and "tmo \<noteq> portMAX_DELAY"
  shows "\<exists>k'. pos_queue_get_freertos hw api junk data tmo (q, k) = Returns (POS_OK, data) (q, k') \<and>
              items k' h = []"
  using receive_none [OF assms(2,3), of tmo data] assms(4) by (auto simp: get_task_level [OF assms(1,2)])

lemma init_roundtrip:
  assumes "\<not> pos_hw_in_isr_freertos hw k"
    and "pos_queue_init_freertos api msg_size max_msgs (q, k) = Returns e (q', k')"
    and "fq_handle q' = Some h" and "length xs \<le> unat max_msgs"
    and "\<forall>x \<in> set xs. length x = unat msg_size" and "length out = unat msg_size"
  shows "\<exists>k2. c_then (put_all (pos_queue_put_freertos hw api junk) xs)
            (get_n (pos_queue_get_freertos hw api junk) out tmo (length xs)) (q', k') = Returns xs (q', k2) \<and>
          items k2 h = []"
proof -
  have i: "task_queue k' h" "items k' h = []" "cap k' h = unat max_msgs" "width k' h = unat msg_size"
    using init_handle [OF assms(1,2)] assms(3) by auto
  obtain w' where w': "c_then (put_all (pos_queue_put_freertos hw api junk) xs)
            (get_n (pos_queue_get_freertos hw api junk) out tmo (length xs)) (q', k') = Returns xs w'"
      "fq_handle (fst w') = Some h" "items (snd w') h = []"
    using freertos_queue.put_get_roundtrip [of h "(q', k')" xs out junk tmo] i assms(3-6) by (auto split: prod.splits)
  moreover have "fst w' = q'" using w'(2) assms(3) by (cases "fst w'"; cases q') auto
  ultimately show ?thesis by (cases w') auto
qed

end

section \<open>Properties\<close>

text \<open>What goes into a fresh FreeRTOS queue comes out, in order: up to its capacity, a batch of messages
  put into it is returned by as many gets, and the queue is then empty.\<close>

theorem freertos_queue_roundtrip:
  assumes "freertos_queue_kernel hw api items cap width task_queue" and "\<not> pos_hw_in_isr_freertos hw k"
    and "pos_queue_init_freertos api msg_size max_msgs (q, k) = Returns e (q', k')"
    and "fq_handle q' = Some h" and "length xs \<le> unat max_msgs"
    and "\<forall>x \<in> set xs. length x = unat msg_size" and "length out = unat msg_size"
  shows "\<exists>k2. c_then (put_all (pos_queue_put_freertos hw api junk) xs)
            (get_n (pos_queue_get_freertos hw api junk) out tmo (length xs)) (q', k') = Returns xs (q', k2) \<and>
          items k2 h = []"
  by (rule freertos_queue_kernel.init_roundtrip [OF assms])

theorem freertos_queue_roundtrip_witness:
  "\<exists>q' k' k2. pos_queue_init_freertos ref_freertos_queue 2 3 (\<lparr>fq_handle = None\<rparr>, ref_queues0) =
       Returns POS_OK (q', k') \<and>
     c_then (put_all (pos_queue_put_freertos ref_queue_hw ref_freertos_queue 0) [[1, 2], [3, 4]])
       (get_n (pos_queue_get_freertos ref_queue_hw ref_freertos_queue 0) [9, 9] 10 2) (q', k') =
       Returns [[1, 2], [3, 4]] (q', k2)"
proof -
  have isr: "\<not> pos_hw_in_isr_freertos ref_queue_hw ref_queues0"
    by (simp add: ref_queue_hw_def pos_hw_in_isr_freertos_def)
  obtain k' where i: "pos_queue_init_freertos ref_freertos_queue 2 3 (\<lparr>fq_handle = None\<rparr>, ref_queues0) =
       Returns POS_OK (\<lparr>fq_handle = Some 0\<rparr>, k')"
    by (simp add: pos_queue_init_freertos_def prog_defs ref_freertos_queue_def ref_queues0_def)
  from freertos_queue_roundtrip [OF ref_freertos_queue.freertos_queue_kernel_axioms isr i,
      of 0 "[[1, 2], [3, 4]]" "[9, 9]" 0 10]
  have "\<exists>k2. c_then (put_all (pos_queue_put_freertos ref_queue_hw ref_freertos_queue 0) [[1, 2], [3, 4]])
      (get_n (pos_queue_get_freertos ref_queue_hw ref_freertos_queue 0) [9, 9] 10 (length [[1 :: u8, 2], [3, 4]]))
      (\<lparr>fq_handle = Some 0\<rparr>, k') = Returns [[1, 2], [3, 4]] (\<lparr>fq_handle = Some 0\<rparr>, k2)"
    by (auto simp del: put_all.simps get_n.simps)
  moreover have "length [[1 :: u8, 2], [3, 4]] = 2" by simp
  ultimately show ?thesis using i by metis
qed

text \<open>A get from an empty FreeRTOS queue with a finite timeout reports success although it
  delivers nothing: the result is \<open>POS_OK\<close>, the caller's area is unchanged.\<close>

theorem freertos_queue_get_empty:
  assumes "freertos_queue_kernel hw api items cap width task_queue"
    and "fq_handle q = Some h" and "task_queue k h" and "items k h = []" and "tmo \<noteq> portMAX_DELAY"
  shows "\<exists>k'. pos_queue_get_freertos hw api junk data tmo (q, k) = Returns (POS_OK, data) (q, k') \<and>
              items k' h = []"
  by (rule freertos_queue_kernel.get_empty [OF assms])

theorem freertos_queue_get_empty_witness:
  "\<exists>k'. pos_queue_get_freertos ref_queue_hw ref_freertos_queue 0 [9, 9] 10 (\<lparr>fq_handle = Some 0\<rparr>, ref_queues0) =
     Returns (POS_OK, [9, 9]) (\<lparr>fq_handle = Some 0\<rparr>, k')"
  using freertos_queue_get_empty [OF ref_freertos_queue.freertos_queue_kernel_axioms,
      of "\<lparr>fq_handle = Some 0\<rparr>" 0 ref_queues0 10]
  by (auto simp: rq_ok_def ref_queues0_def portMAX_DELAY_32)

end
