(* ===== verification/Zephyr_Queue.thy ===== *)
theory Zephyr_Queue
  imports Zephyr_Sync
begin

text \<open>
  The Zephyr port's message queue, \<^verbatim>\<open>targets/zephyr/os_queue.c\<close>: a kernel message queue over a
  buffer from the heap, and a signal callback.  The world is the \<open>struct pos_queue\<close> and the
  system below it.
\<close>

section \<open>Definitions\<close>

record ('q, 'b, 'k) zephyr_queue_api =
  z_malloc :: "u32 \<Rightarrow> ('b option, 'k) prog"
  z_free :: "'b \<Rightarrow> (unit, 'k) prog"
  k_msgq_init :: "'q \<Rightarrow> 'b \<Rightarrow> u32 \<Rightarrow> u32 \<Rightarrow> (unit, 'k) prog"
  k_msgq_get :: "'q \<Rightarrow> bytes \<Rightarrow> k_timeout \<Rightarrow> (int \<times> bytes, 'k) prog"
  k_msgq_put :: "'q \<Rightarrow> bytes \<Rightarrow> k_timeout \<Rightarrow> (int, 'k) prog"
  k_msgq_num_used_get :: "'q \<Rightarrow> (u32, 'k) prog"

record ('q, 'b, 'f, 'p) pos_queue_zephyr =
  zq_msgq :: 'q
  zq_buffer :: "'b option"
  zq_sig_cb :: "'f option"
  zq_sig_arg :: "'p option"

text \<open>\<open>malloc(msg_size * max_msgs)\<close>: the product of two \<open>size_t\<close> values wraps.\<close>

definition pos_queue_init_zephyr ::
    "('q, 'b, 'k) zephyr_queue_api \<Rightarrow> u32 \<Rightarrow> u32 \<Rightarrow> (pos_error, ('q, 'b, 'f, 'p) pos_queue_zephyr \<times> 'k) prog" where
  "pos_queue_init_zephyr api msg_size max_msgs =
     c_bind (kcall (z_malloc api (msg_size * max_msgs))) (\<lambda>buf.
     c_then (upd_obj (\<lambda>q. q\<lparr>zq_buffer := buf\<rparr>))
       (case buf of
          None \<Rightarrow> c_return POS_ENOMEM
        | Some b \<Rightarrow>
            c_bind (get_obj zq_msgq) (\<lambda>m.
            c_then (kcall (k_msgq_init api m b msg_size max_msgs))
            (c_then (upd_obj (\<lambda>q. q\<lparr>zq_sig_cb := None, zq_sig_arg := None\<rparr>))
              (c_return POS_OK)))))"

definition pos_queue_get_zephyr ::
    "('q, 'b, 'k) zephyr_queue_api \<Rightarrow> bytes \<Rightarrow> pos_time \<Rightarrow>
     (pos_error \<times> bytes, ('q, 'b, 'f, 'p) pos_queue_zephyr \<times> 'k) prog" where
  "pos_queue_get_zephyr api data timeout =
     c_bind (get_obj zq_msgq) (\<lambda>m.
     c_bind (kcall (k_msgq_get api m data (k_timeout_of timeout))) (\<lambda>(err, data').
     c_return (wait_status err, data')))"

definition pos_queue_put_zephyr ::
    "('q, 'b, 'k) zephyr_queue_api \<Rightarrow> ('f \<Rightarrow> 'p option \<Rightarrow> (unit, 'k) prog) \<Rightarrow> bytes \<Rightarrow>
     (pos_error, ('q, 'b, 'f, 'p) pos_queue_zephyr \<times> 'k) prog" where
  "pos_queue_put_zephyr api run_cb data =
     c_bind (get_obj zq_msgq) (\<lambda>m.
     c_bind (kcall (k_msgq_put api m data K_NO_WAIT)) (\<lambda>err.
       if err = 0 then
         c_bind (get_obj (\<lambda>q. (zq_sig_cb q, zq_sig_arg q))) (\<lambda>(cb, arg).
           case cb of
             Some f \<Rightarrow> c_then (kcall (run_cb f arg)) (c_return POS_OK)
           | None \<Rightarrow> c_return POS_OK)
       else if err = - Z_EAGAIN then c_return POS_EBUSY
       else c_return POS_ERROR))"

definition pos_queue_inited_zephyr :: "('q, 'b, 'f, 'p) pos_queue_zephyr \<Rightarrow> int" where
  "pos_queue_inited_zephyr q = (if zq_buffer q \<noteq> None then 1 else 0)"

definition pos_queue_is_empty_zephyr ::
    "('q, 'b, 'k) zephyr_queue_api \<Rightarrow> (bool, ('q, 'b, 'f, 'p) pos_queue_zephyr \<times> 'k) prog" where
  "pos_queue_is_empty_zephyr api =
     c_bind (get_obj zq_msgq) (\<lambda>m.
     c_bind (kcall (k_msgq_num_used_get api m)) (\<lambda>n. c_return (n = 0)))"

definition pos_queue_set_signal_cb_zephyr ::
    "'f option \<Rightarrow> 'p option \<Rightarrow> (unit, ('q, 'b, 'f, 'p) pos_queue_zephyr \<times> 'k) prog" where
  "pos_queue_set_signal_cb_zephyr signal_cb data =
     upd_obj (\<lambda>q. q\<lparr>zq_sig_cb := signal_cb, zq_sig_arg := data\<rparr>)"

definition pos_queue_deinit_zephyr ::
    "('q, 'b, 'k) zephyr_queue_api \<Rightarrow> bool \<Rightarrow> (pos_error, ('q, 'b, 'f, 'p) pos_queue_zephyr \<times> 'k) prog" where
  "pos_queue_deinit_zephyr api msgq_null =
     (if msgq_null then c_return POS_OK
      else
        c_bind (get_obj zq_buffer) (\<lambda>buf.
          case buf of
            None \<Rightarrow> c_return POS_OK
          | Some b \<Rightarrow>
              c_then (kcall (z_free api b))
              (c_then (upd_obj (\<lambda>q. q\<lparr>zq_buffer := None\<rparr>)) (c_return POS_OK))))"

subsection \<open>A reference model of the kernel's message queues\<close>

record ref_msgqs =
  rmq_items :: "nat \<Rightarrow> bytes list"
  rmq_cap :: "nat \<Rightarrow> nat"
  rmq_width :: "nat \<Rightarrow> nat"
  rmq_bytes :: "nat \<Rightarrow> nat"
  rmq_next :: nat

text \<open>A queue works as long as its buffer holds all its messages.\<close>

definition rmq_ok :: "ref_msgqs \<Rightarrow> nat \<Rightarrow> bool" where
  "rmq_ok k m \<longleftrightarrow>
     length (rmq_items k m) \<le> rmq_cap k m \<and> rmq_cap k m < 2 ^ 32 \<and>
     list_all (\<lambda>y. length y = rmq_width k m) (rmq_items k m)"

fun rmq_none :: "k_timeout \<Rightarrow> bytes \<Rightarrow> 'k \<Rightarrow> (int \<times> bytes, 'k) outcome" where
  "rmq_none K_FOREVER d k = Stops Blocked"
| "rmq_none K_NO_WAIT d k = Returns (- Z_ENOMSG, d) k"
| "rmq_none (K_MSEC n) d k = Returns (- Z_EAGAIN, d) k"
| "rmq_none (K_TICKS n) d k = Returns (- Z_EAGAIN, d) k"

definition ref_zephyr_queue :: "(nat, nat, ref_msgqs) zephyr_queue_api" where
  "ref_zephyr_queue =
     \<lparr>z_malloc = (\<lambda>n k. Returns (Some (rmq_next k))
        (k\<lparr>rmq_next := Suc (rmq_next k), rmq_bytes := (rmq_bytes k)(rmq_next k := unat n)\<rparr>)),
      z_free = (\<lambda>b k. Returns () k),
      k_msgq_init = (\<lambda>m b sz n k.
        Returns () (k\<lparr>rmq_items := (rmq_items k)(m := []), rmq_cap := (rmq_cap k)(m := unat n),
                      rmq_width := (rmq_width k)(m := unat sz)\<rparr>)),
      k_msgq_get = (\<lambda>m d tmo k.
        case rmq_items k m of
          [] \<Rightarrow> rmq_none tmo d k
        | y # ys \<Rightarrow> Returns (0, y @ drop (length y) d) (k\<lparr>rmq_items := (rmq_items k)(m := ys)\<rparr>)),
      k_msgq_put = (\<lambda>m x tmo k.
        if length (rmq_items k m) < rmq_cap k m
        then Returns 0 (k\<lparr>rmq_items := (rmq_items k)(m := rmq_items k m @ [take (rmq_width k m) x])\<rparr>)
        else case tmo of K_FOREVER \<Rightarrow> Stops Blocked | K_NO_WAIT \<Rightarrow> Returns (- Z_ENOMSG) k | _ \<Rightarrow> Returns (- Z_EAGAIN) k),
      k_msgq_num_used_get = (\<lambda>m. c_gets (\<lambda>k. word_of_nat (length (rmq_items k m))))\<rparr>"

definition ref_msgqs0 :: ref_msgqs where
  "ref_msgqs0 = \<lparr>rmq_items = \<lambda>_. [], rmq_cap = \<lambda>_. 0, rmq_width = \<lambda>_. 0, rmq_bytes = \<lambda>_. 0, rmq_next = 0\<rparr>"

section \<open>The documented behaviour of the kernel\<close>

text \<open>
  \<open>usable k m\<close>: the queue \<open>m\<close> was initialised on a buffer of sufficient size.  A full queue
  refuses a put that must not wait with \<open>-ENOMSG\<close>, an empty one such a get likewise; a
  timed get reports \<open>-EAGAIN\<close>.  \<open>heap_size k b\<close> is the size of an allocated buffer.
\<close>

locale zephyr_queue_kernel =
  fixes api :: "('q, 'b, 'k) zephyr_queue_api"
    and items :: "'k \<Rightarrow> 'q \<Rightarrow> bytes list"
    and cap :: "'k \<Rightarrow> 'q \<Rightarrow> nat"
    and width :: "'k \<Rightarrow> 'q \<Rightarrow> nat"
    and heap_size :: "'k \<Rightarrow> 'b \<Rightarrow> nat"
    and usable :: "'k \<Rightarrow> 'q \<Rightarrow> bool"
  assumes malloc_size: "z_malloc api n k = Returns (Some b) k' \<Longrightarrow> unat n \<le> heap_size k' b"
    and msgq_init:
      "unat sz * unat n \<le> heap_size k b \<Longrightarrow>
       \<exists>k'. k_msgq_init api m b sz n k = Returns () k' \<and> usable k' m \<and> items k' m = [] \<and>
            cap k' m = unat n \<and> width k' m = unat sz"
    and msgq_put_room:
      "usable k m \<Longrightarrow> length (items k m) < cap k m \<Longrightarrow> width k m \<le> length x \<Longrightarrow>
       \<exists>k'. k_msgq_put api m x tmo k = Returns 0 k' \<and> usable k' m \<and>
            items k' m = items k m @ [take (width k m) x] \<and> cap k' m = cap k m \<and> width k' m = width k m"
    and msgq_put_full:
      "usable k m \<Longrightarrow> length (items k m) = cap k m \<Longrightarrow>
       \<exists>k'. k_msgq_put api m x K_NO_WAIT k = Returns (- Z_ENOMSG) k' \<and> usable k' m \<and>
            items k' m = items k m \<and> cap k' m = cap k m \<and> width k' m = width k m"
    and msgq_get_item:
      "usable k m \<Longrightarrow> items k m = y # ys \<Longrightarrow>
       \<exists>k'. k_msgq_get api m d tmo k = Returns (0, y @ drop (length y) d) k' \<and> usable k' m \<and>
            items k' m = ys \<and> cap k' m = cap k m \<and> width k' m = width k m"
    and msgq_get_none:
      "usable k m \<Longrightarrow> items k m = [] \<Longrightarrow>
       (tmo = K_FOREVER \<and> k_msgq_get api m d tmo k = Stops Blocked) \<or>
       (tmo \<noteq> K_FOREVER \<and>
        (\<exists>k'. k_msgq_get api m d tmo k = Returns (if tmo = K_NO_WAIT then - Z_ENOMSG else - Z_EAGAIN, d) k' \<and>
              usable k' m \<and> items k' m = [] \<and> cap k' m = cap k m \<and> width k' m = width k m))"
    and msgq_cap: "usable k m \<Longrightarrow> length (items k m) \<le> cap k m"
    and msgq_width: "usable k m \<Longrightarrow> y \<in> set (items k m) \<Longrightarrow> length y = width k m"
begin

lemma init_usable:
  assumes "pos_queue_init_zephyr api msg_size max_msgs (q, k) = Returns POS_OK (q', k')"
    and "unat msg_size * unat max_msgs < 2 ^ 32"
  shows "zq_msgq q' = zq_msgq q \<and> zq_sig_cb q' = None \<and> usable k' (zq_msgq q) \<and> items k' (zq_msgq q) = [] \<and>
         cap k' (zq_msgq q) = unat max_msgs \<and> width k' (zq_msgq q) = unat msg_size"
proof -
  obtain b k1 where k1: "z_malloc api (msg_size * max_msgs) k = Returns (Some b) k1"
      and rest: "k_msgq_init api (zq_msgq q) b msg_size max_msgs k1 = Returns () k'"
        "q' = q\<lparr>zq_buffer := Some b, zq_sig_cb := None, zq_sig_arg := None\<rparr>"
    using assms(1) by (auto simp: pos_queue_init_zephyr_def prog_defs split: outcome.splits option.splits)
  have "unat (msg_size * max_msgs) = unat msg_size * unat max_msgs"
    using assms(2) by (simp add: unat_word_ariths)
  then have "unat msg_size * unat max_msgs \<le> heap_size k1 b" using malloc_size [OF k1] by simp
  from msgq_init [OF this, of "zq_msgq q"] rest show ?thesis by auto
qed

lemma put_status:
  assumes "zq_sig_cb q = None"
  shows "pos_queue_put_zephyr api run_cb x (q, k) =
    (case k_msgq_put api (zq_msgq q) x K_NO_WAIT k of
       Stops s \<Rightarrow> Stops s
     | Returns err k' \<Rightarrow>
         Returns (if err = 0 then POS_OK else if err = - Z_EAGAIN then POS_EBUSY else POS_ERROR) (q, k'))"
  using assms by (simp add: pos_queue_put_zephyr_def prog_defs split: outcome.split)

lemma get_status:
  "pos_queue_get_zephyr api d tmo (q, k) =
    (case k_msgq_get api (zq_msgq q) d (k_timeout_of tmo) k of
       Stops s \<Rightarrow> Stops s
     | Returns (err, d') k' \<Rightarrow> Returns (wait_status err, d') (q, k'))"
  by (simp add: pos_queue_get_zephyr_def prog_defs split: outcome.split prod.split)

end

sublocale zephyr_queue_kernel \<subseteq> zephyr_queue: osal_queue
  "pos_queue_put_zephyr api run_cb" "pos_queue_get_zephyr api"
  "\<lambda>(q, k). items k (zq_msgq q)" "\<lambda>(q, k). cap k (zq_msgq q)" "\<lambda>(q, k). width k (zq_msgq q)"
  "\<lambda>(q, k). q = q0 \<and> zq_sig_cb q = None \<and> usable k (zq_msgq q)" for run_cb q0
proof (unfold_locales, goal_cases)
  case (1 w x)
  then show ?case using msgq_put_room [of "snd w" "zq_msgq (fst w)" x K_NO_WAIT] by (cases w) (auto simp: put_status)
next
  case (2 w x)
  then show ?case using msgq_put_full [of "snd w" "zq_msgq (fst w)" x] by (cases w) (auto simp: put_status)
next
  case (3 w y ys out tmo)
  moreover from this have "length y = width (snd w) (zq_msgq (fst w))"
    by (cases w) (auto intro!: msgq_width)
  ultimately show ?case
    using msgq_get_item [of "snd w" "zq_msgq (fst w)" y ys out "k_timeout_of tmo"]
    by (cases w) (auto simp: get_status wait_status_def)
next
  case (4 w)
  then show ?case using msgq_cap by (cases w) auto
next
  case (5 w y)
  then show ?case using msgq_width by (cases w) auto
next
  case (6 w out tmo)
  then show ?case
    using msgq_get_none [of "snd w" "zq_msgq (fst w)" "k_timeout_of tmo" out]
    by (cases w) (auto simp: get_status wait_status_def split: if_splits)
qed

interpretation ref_zephyr_queue: zephyr_queue_kernel ref_zephyr_queue rmq_items rmq_cap rmq_width rmq_bytes rmq_ok
proof (unfold_locales, goal_cases)
  case (6 k m tmo d)
  then show ?case by (cases tmo) (simp_all add: ref_zephyr_queue_def)
qed (auto simp: ref_zephyr_queue_def rmq_ok_def list_all_iff unat_u32_less split: if_splits)

context zephyr_queue_kernel
begin

lemma run_fifo:
  assumes "pos_queue_init_zephyr api msg_size max_msgs (q, k) = Returns POS_OK w0"
    and "unat msg_size * unat max_msgs < 2 ^ 32"
    and "\<forall>c \<in> set cs. call_area_ok (unat msg_size) c"
    and "queue_run (pos_queue_put_zephyr api run_cb) (pos_queue_get_zephyr api) cs w0 = Returns (sent, got) (q', k')"
  shows "map (take (unat msg_size)) sent = map (take (unat msg_size)) got @ items k' (zq_msgq q')"
proof -
  obtain q1 k1 where w0: "w0 = (q1, k1)" by (cases w0)
  then have "zq_sig_cb q1 = None" "usable k1 (zq_msgq q1)" "items k1 (zq_msgq q1) = []"
      "width k1 (zq_msgq q1) = unat msg_size"
    using init_usable [of msg_size max_msgs q k q1 k1] assms(1,2) by auto
  then show ?thesis
    using zephyr_queue.queue_run_fifo [of q1 w0 cs run_cb sent got "(q', k')"] assms(3,4) w0 by auto
qed

end

section \<open>Properties\<close>

text \<open>The Zephyr queue is first in, first out: when the buffer size does not overflow, over any
  sequence of completed puts and gets on a fresh queue the accepted messages are exactly the delivered
  ones, in order, followed by those still queued.\<close>

theorem zephyr_queue_fifo:
  assumes "zephyr_queue_kernel api items cap width heap_size usable"
    and "pos_queue_init_zephyr api msg_size max_msgs (q, k) = Returns POS_OK w0"
    and "unat msg_size * unat max_msgs < 2 ^ 32"
    and "\<forall>c \<in> set cs. call_area_ok (unat msg_size) c"
    and "queue_run (pos_queue_put_zephyr api run_cb) (pos_queue_get_zephyr api) cs w0 = Returns (sent, got) (q', k')"
  shows "map (take (unat msg_size)) sent = map (take (unat msg_size)) got @ items k' (zq_msgq q')"
  by (rule zephyr_queue_kernel.run_fifo [OF assms])

theorem zephyr_queue_fifo_witness:
  "\<exists>w0 sent got q' k'. queue_run (pos_queue_put_zephyr ref_zephyr_queue
       (\<lambda>(f :: nat) (a :: nat option) k. Returns () k)) (pos_queue_get_zephyr ref_zephyr_queue)
       [QPut [1, 2], QPut [3, 4], QGet [0, 0] 0, QPut [5, 6]] w0 = Returns (sent, got) (q', k') \<and>
     map (take 2) sent = map (take 2) got @ rmq_items k' (zq_msgq q') \<and> got = [[1, 2]]"
proof -
  let ?cb = "\<lambda>(f :: nat) (a :: nat option) (k :: ref_msgqs). Returns () k"
  let ?q = "\<lparr>zq_msgq = 0 :: nat, zq_buffer = None :: nat option, zq_sig_cb = None :: nat option, zq_sig_arg = None :: nat option\<rparr>"
  obtain w0 where w0: "pos_queue_init_zephyr ref_zephyr_queue 2 2 (?q, ref_msgqs0) = Returns POS_OK w0"
    by (simp add: pos_queue_init_zephyr_def prog_defs ref_zephyr_queue_def)
  obtain sent q' k' where run: "queue_run (pos_queue_put_zephyr ref_zephyr_queue ?cb)
      (pos_queue_get_zephyr ref_zephyr_queue) [QPut [1, 2], QPut [3, 4], QGet [0, 0] 0, QPut [5, 6]] w0 =
      Returns (sent, [[1, 2]]) (q', k')"
    using w0 by (auto simp: pos_queue_init_zephyr_def pos_queue_put_zephyr_def pos_queue_get_zephyr_def
        prog_defs ref_zephyr_queue_def ref_msgqs0_def wait_status_def)
  from zephyr_queue_fifo [OF ref_zephyr_queue.zephyr_queue_kernel_axioms w0 _ _ run] run
  show ?thesis by (intro exI [of _ w0] exI [of _ sent] exI [of _ "[[1, 2]]"] exI [of _ q'] exI [of _ k']) simp
qed

end
