(* ===== verification/Conform_Queue.thy ===== *)
theory Conform_Queue
  imports Conform_Sync Posix_Utils Posix_Queue Freertos_Queue Zephyr_Queue Rtt_Port
begin

text \<open>
  The message queues of the four ports against the documentation of \<^verbatim>\<open>os_queue.h\<close>.  Every
  port delivers complete copies in order; the tables say what it does on an empty and on a full
  queue.
\<close>

section \<open>Definitions\<close>










section \<open>The ports meet the specification\<close>





section \<open>From initialisation on\<close>





text \<open>Initialised, then freed: what \<open>pos_queue_inited\<close> returns and what a second free does.\<close>

lemma posix_queue_lifecycle:
  assumes "pos_queue_init_posix obj_ok heap_ok junk msg_size max_msgs w0 = Returns POS_OK w"
  shows "pos_queue_inited_posix (fst w) = 1 \<and>
         (\<exists>q. pos_queue_deinit_posix (Some (fst w)) = (POS_OK, Some q) \<and>
              pos_queue_deinit_doc (pq_ring (fst w)) (Inr POS_OK) (pq_ring q) \<and> pos_queue_inited_posix q = 0 \<and>
              pos_queue_deinit_posix (Some q) = (POS_OK, Some q))"
  using pos_queue_init_posix_Returns(2) [OF assms]
  by (auto simp: pos_queue_inited_posix_def pos_queue_deinit_posix_def pos_queue_deinit_doc_def pq_ok_def)

lemma freertos_queue_deinit:
  assumes "pos_queue_deinit_freertos api False w = Returns e w'"
  shows "e = POS_OK \<and> pos_queue_deinit_doc (fq_handle (fst w)) (Inr e) (fq_handle (fst w')) \<and> pos_queue_inited_freertos (fst w') = 0 \<and>
         pos_queue_deinit_freertos api False w' = Returns POS_OK w'"
  using assms
  by (cases w; cases "fq_handle (fst w)")
    (auto simp: pos_queue_deinit_doc_def pos_queue_deinit_freertos_def pos_queue_inited_freertos_def prog_defs split: outcome.splits)

lemma zephyr_queue_deinit:
  assumes "pos_queue_deinit_zephyr api False w = Returns e w'"
  shows "e = POS_OK \<and> pos_queue_deinit_doc (zq_buffer (fst w)) (Inr e) (zq_buffer (fst w')) \<and> pos_queue_inited_zephyr (fst w') = 0 \<and>
         pos_queue_deinit_zephyr api False w' = Returns POS_OK w'"
  using assms
  by (cases w; cases "zq_buffer (fst w)")
    (auto simp: pos_queue_deinit_doc_def pos_queue_deinit_zephyr_def pos_queue_inited_zephyr_def prog_defs split: outcome.splits)

lemma rtt_queue_deinit:
  assumes "pos_queue_deinit_rtt api False w = Returns e w'"
  shows "e = POS_OK \<and> pos_queue_deinit_doc (rq_handle (fst w)) (Inr e) (rq_handle (fst w')) \<and> pos_queue_inited_rtt (fst w') = 0 \<and>
         pos_queue_deinit_rtt api False w' = Returns POS_OK w'"
  using assms
  by (cases w; cases "rq_handle (fst w)")
    (auto simp: pos_queue_deinit_doc_def pos_queue_deinit_rtt_def pos_queue_inited_rtt_def prog_defs split: outcome.splits)

lemma inited_not_documented:
  "pos_queue_inited_posix pq \<noteq> pos_error_code (pos_queue_inited_doc (map_option (\<lambda>_. v) (pq_ring pq))) \<and>
   pos_queue_inited_freertos fq \<noteq> pos_error_code (pos_queue_inited_doc (map_option (\<lambda>_. v) (fq_handle fq))) \<and>
   pos_queue_inited_zephyr zq \<noteq> pos_error_code (pos_queue_inited_doc (map_option (\<lambda>_. v) (zq_buffer zq))) \<and>
   pos_queue_inited_rtt rq \<noteq> pos_error_code (pos_queue_inited_doc (map_option (\<lambda>_. v) (rq_handle rq)))"
  by (simp add: pos_queue_inited_doc_def pos_queue_inited_posix_def pos_queue_inited_freertos_def
      pos_queue_inited_zephyr_def pos_queue_inited_rtt_def)

section \<open>Properties\<close>


lemma ref_queue_inits:
  "\<exists>w. pos_queue_init_posix True (\<lambda>_. True) (\<lambda>_. 0) 2 4
         (\<lparr>pq_ring = None, pq_sig_cb = None :: nat option, pq_sig_arg = None :: nat option\<rparr>, ()) = Returns POS_OK w"
  "\<not> pos_hw_in_isr_freertos ref_queue_hw ref_queues0"
  "pos_queue_init_freertos ref_freertos_queue 2 4 (\<lparr>fq_handle = None\<rparr>, ref_queues0) =
     Returns POS_OK (\<lparr>fq_handle = Some 0\<rparr>, ref_queues0\<lparr>rq_next := 1, rq_cap := (\<lambda>_. 0)(0 := 4), rq_width := (\<lambda>_. 0)(0 := 2)\<rparr>)"
  "\<exists>w. pos_queue_init_zephyr ref_zephyr_queue 2 4
         (\<lparr>zq_msgq = 0, zq_buffer = None, zq_sig_cb = None :: nat option, zq_sig_arg = None :: nat option\<rparr>, ref_msgqs0) =
         Returns POS_OK w"
  "\<exists>w. pos_queue_init_rtt ref_rtt_queue False 2 4 (\<lparr>rq_handle = None\<rparr>, ref_mqs0) = Returns POS_OK w"
  using posix_queue_example
  by (simp_all add: ref_queue_hw_def pos_hw_in_isr_freertos_def pos_queue_init_freertos_def ref_freertos_queue_def
      ref_queues0_def pos_queue_init_zephyr_def ref_zephyr_queue_def ref_msgqs0_def pos_queue_init_rtt_def
      ref_rtt_queue_def ref_mqs0_def prog_defs fun_eq_iff)


text \<open>A queue's validity, on every port: \<open>pos_queue_inited\<close> is 1 after a successful initialisation and 0
  after \<open>pos_queue_deinit\<close>, which succeeds, leaves no queue behind and may be repeated.  As status codes the two values are the
  inverse of the documentation (\<open>POS_OK\<close>, that is 0, for a valid queue, else \<open>POS_EINVAL\<close>): no call
  returns the documented value.\<close>

theorem queue_lifecycle:
  assumes "pos_queue_init_posix obj_ok heap_ok junk psz pmax pw0 = Returns POS_OK pw"
    and "pos_queue_deinit_freertos fapi False fw = Returns fe fw'"
    and "pos_queue_deinit_zephyr zapi False zw = Returns ze zw'"
    and "pos_queue_deinit_rtt rapi False rw = Returns re rw'"
  shows "(pos_queue_inited_posix (fst pw) = 1 \<and>
          (\<exists>q. pos_queue_deinit_posix (Some (fst pw)) = (POS_OK, Some q) \<and>
               pos_queue_deinit_doc (pq_ring (fst pw)) (Inr POS_OK) (pq_ring q) \<and> pos_queue_inited_posix q = 0 \<and>
               pos_queue_deinit_posix (Some q) = (POS_OK, Some q))) \<and>
         (fe = POS_OK \<and> pos_queue_deinit_doc (fq_handle (fst fw)) (Inr fe) (fq_handle (fst fw')) \<and>
          pos_queue_inited_freertos (fst fw') = 0 \<and>
          pos_queue_deinit_freertos fapi False fw' = Returns POS_OK fw') \<and>
         (ze = POS_OK \<and> pos_queue_deinit_doc (zq_buffer (fst zw)) (Inr ze) (zq_buffer (fst zw')) \<and>
          pos_queue_inited_zephyr (fst zw') = 0 \<and>
          pos_queue_deinit_zephyr zapi False zw' = Returns POS_OK zw') \<and>
         (re = POS_OK \<and> pos_queue_deinit_doc (rq_handle (fst rw)) (Inr re) (rq_handle (fst rw')) \<and>
          pos_queue_inited_rtt (fst rw') = 0 \<and>
          pos_queue_deinit_rtt rapi False rw' = Returns POS_OK rw') \<and>
         pos_queue_inited_posix pq \<noteq> pos_error_code (pos_queue_inited_doc (map_option (\<lambda>_. v) (pq_ring pq))) \<and>
         pos_queue_inited_freertos fq \<noteq> pos_error_code (pos_queue_inited_doc (map_option (\<lambda>_. v) (fq_handle fq))) \<and>
         pos_queue_inited_zephyr zq \<noteq> pos_error_code (pos_queue_inited_doc (map_option (\<lambda>_. v) (zq_buffer zq))) \<and>
         pos_queue_inited_rtt rq \<noteq> pos_error_code (pos_queue_inited_doc (map_option (\<lambda>_. v) (rq_handle rq)))"
  using posix_queue_lifecycle [OF assms(1)] freertos_queue_deinit [OF assms(2)] zephyr_queue_deinit [OF assms(3)]
    rtt_queue_deinit [OF assms(4)]
    inited_not_documented [of pq v fq zq rq]
  by blast

theorem queue_lifecycle_witness:
  "\<exists>pw q fw' zw' rw'.
     pos_queue_init_posix True (\<lambda>_. True) (\<lambda>_. 0) 2 4
       (\<lparr>pq_ring = None, pq_sig_cb = None :: nat option, pq_sig_arg = None :: nat option\<rparr>, ()) = Returns POS_OK pw \<and>
     pos_queue_inited_posix (fst pw) = 1 \<and> pos_queue_deinit_posix (Some (fst pw)) = (POS_OK, Some q) \<and>
     pos_queue_inited_posix q = 0 \<and>
     pos_queue_deinit_freertos ref_freertos_queue False (\<lparr>fq_handle = Some 0\<rparr>, ref_queues0) = Returns POS_OK fw' \<and>
     pos_queue_deinit_freertos ref_freertos_queue False fw' = Returns POS_OK fw' \<and>
     pos_queue_deinit_zephyr ref_zephyr_queue False
       (\<lparr>zq_msgq = 0, zq_buffer = Some 3, zq_sig_cb = None :: nat option, zq_sig_arg = None :: nat option\<rparr>, ref_msgqs0) =
       Returns POS_OK zw' \<and> pos_queue_inited_zephyr (fst zw') = 0 \<and>
     pos_queue_deinit_rtt ref_rtt_queue False (\<lparr>rq_handle = Some 0\<rparr>, ref_mqs0) = Returns POS_OK rw' \<and>
     pos_queue_inited_rtt (fst rw') = 0"
proof -
  obtain pw :: "(nat, nat) pos_queue_posix \<times> unit"
    and zw' :: "(nat, nat, nat, nat) pos_queue_zephyr \<times> ref_msgqs" and fw' rw' where i:
      "pos_queue_init_posix True (\<lambda>_. True) (\<lambda>_. 0) 2 4
         (\<lparr>pq_ring = None, pq_sig_cb = None, pq_sig_arg = None\<rparr>, ()) = Returns POS_OK pw"
      "pos_queue_deinit_freertos ref_freertos_queue False (\<lparr>fq_handle = Some 0\<rparr>, ref_queues0) = Returns POS_OK fw'"
      "pos_queue_deinit_zephyr ref_zephyr_queue False
         (\<lparr>zq_msgq = 0, zq_buffer = Some 3, zq_sig_cb = None, zq_sig_arg = None\<rparr>, ref_msgqs0) = Returns POS_OK zw'"
      "pos_queue_deinit_rtt ref_rtt_queue False (\<lparr>rq_handle = Some 0\<rparr>, ref_mqs0) = Returns POS_OK rw'"
    using ref_queue_inits(1)
    by (auto simp: pos_queue_deinit_freertos_def pos_queue_deinit_zephyr_def pos_queue_deinit_rtt_def prog_defs
        ref_freertos_queue_def ref_zephyr_queue_def ref_rtt_queue_def)
  from queue_lifecycle [OF i] i show ?thesis by blast
qed

end
