(* ===== verification/Posix_Time.thy ===== *)
theory Posix_Time
  imports Complex_Main Posix_Utils
begin

text \<open>
  The clock and the tick conversions of \<^verbatim>\<open>targets/posix/os_time.c\<close>, which compute in
  \<open>double\<close>.  A double is modelled by the rational number it stands for, and every operation
  by the exact result rounded to a 53-bit significand, ties to even (binary64; the values
  here, zero or between \<open>10^-9\<close> and \<open>2^75\<close>, meet neither overflow nor subnormals).
\<close>

section \<open>Definitions\<close>

subsection \<open>Rounding to double precision\<close>

fun bit_length :: "nat \<Rightarrow> nat" where
  "bit_length n = (if n = 0 then 0 else Suc (bit_length (n div 2)))"

declare bit_length.simps [simp del]

text \<open>The unit in the last place of a positive number: the binade's power of two over \<open>2^52\<close>.\<close>

definition dbl_ulp :: "rat \<Rightarrow> rat" where
  "dbl_ulp x =
     (if 1 \<le> x then 2 ^ (bit_length (nat \<lfloor>x\<rfloor>) - 1) / 2 ^ 52
      else 1 / (2 ^ bit_length (nat \<lceil>1 / x\<rceil> - 1) * 2 ^ 52))"

definition round_half_even :: "rat \<Rightarrow> int" where
  "round_half_even y =
     (let f = \<lfloor>y\<rfloor>; d = y - of_int f
      in if d < 1 / 2 \<or> d = 1 / 2 \<and> even f then f else f + 1)"

definition dbl_round :: "rat \<Rightarrow> rat" where
  "dbl_round x =
     (if x = 0 then 0
      else if x < 0 then - (of_int (round_half_even (- x / dbl_ulp (- x))) * dbl_ulp (- x))
      else of_int (round_half_even (x / dbl_ulp x)) * dbl_ulp x)"

definition dbl_add :: "rat \<Rightarrow> rat \<Rightarrow> rat" where
  "dbl_add x y = dbl_round (x + y)"

definition dbl_mul :: "rat \<Rightarrow> rat \<Rightarrow> rat" where
  "dbl_mul x y = dbl_round (x * y)"

definition dbl_div :: "rat \<Rightarrow> rat \<Rightarrow> rat" where
  "dbl_div x y = dbl_round (x / y)"

text \<open>
  Conversion of a double to an unsigned type of \<open>w\<close> bits: the fraction is discarded;
  undefined when the value does not fit.
\<close>

definition dbl_to_u :: "nat \<Rightarrow> rat \<Rightarrow> (int, 'w) prog" where
  "dbl_to_u w x =
     (let n = (if 0 \<le> x then \<lfloor>x\<rfloor> else \<lceil>x\<rceil>)
      in if 0 \<le> n \<and> n < 2 ^ w then c_return n else c_stop Undefined_Behaviour)"

subsection \<open>The functions\<close>

definition POS_TICKS_PER_SEC_posix :: int where
  "POS_TICKS_PER_SEC_posix = 1000"

definition POS_TICKS_PER_SEC_apple :: int where
  "POS_TICKS_PER_SEC_apple = 1000000"

text \<open>
  \<open>tv_sec * POS_TICKS_PER_SEC_F + tv_nsec / POS_TICKS_PER_NANOSEC_F\<close>, the divisor being
  \<open>ONE_BILLION / POS_TICKS_PER_SEC_F\<close>.
\<close>

definition ticks_of_timespec :: "int \<Rightarrow> timespec \<Rightarrow> rat" where
  "ticks_of_timespec per_sec now =
     dbl_add (dbl_mul (dbl_round (of_int (tv_sec now))) (dbl_round (of_int per_sec)))
       (dbl_div (dbl_round (of_int (tv_nsec now)))
          (dbl_div 1000000000 (dbl_round (of_int per_sec))))"

text \<open>\<open>clock\<close> is \<open>clock_gettime(CLOCK_MONOTONIC, &now)\<close>: its status and the time.\<close>

definition pos_time_get_posix :: "(int \<times> timespec, 'k) prog \<Rightarrow> (pos_time, 'k) prog" where
  "pos_time_get_posix clock =
     c_bind clock (\<lambda>(ret, now).
       if ret \<noteq> 0 then c_return 0
       else c_bind (dbl_to_u 32 (ticks_of_timespec POS_TICKS_PER_SEC_posix now))
              (\<lambda>ticks. c_return (word_of_int ticks)))"

text \<open>On Apple targets \<open>clock\<close> is \<open>clock_get_time\<close> of the calendar clock, whose status is not read.\<close>

definition pos_time_get_apple :: "(timespec, 'k) prog \<Rightarrow> (64 word, 'k) prog" where
  "pos_time_get_apple clock =
     c_bind clock (\<lambda>mts.
       c_bind (dbl_to_u 64 (ticks_of_timespec POS_TICKS_PER_SEC_apple mts))
         (\<lambda>ticks. c_return (word_of_int ticks)))"

definition pos_time_ms_to_ticks_posix :: "pos_time \<Rightarrow> (pos_time, 'k) prog" where
  "pos_time_ms_to_ticks_posix ms =
     c_bind (dbl_to_u 32 (dbl_div (dbl_mul (dbl_round (of_int (uint ms)))
                (dbl_round (of_int POS_TICKS_PER_SEC_posix))) 1000))
       (\<lambda>n. c_return (word_of_int n))"

definition pos_time_ticks_to_ms_posix :: "pos_time \<Rightarrow> (pos_time, 'k) prog" where
  "pos_time_ticks_to_ms_posix ticks =
     c_bind (dbl_to_u 32 (dbl_div (dbl_mul (dbl_round (of_int (uint ticks))) 1000)
                (dbl_round (of_int POS_TICKS_PER_SEC_posix))))
       (\<lambda>n. c_return (word_of_int n))"

definition pos_time_get_ms_posix :: "(int \<times> timespec, 'k) prog \<Rightarrow> (pos_time, 'k) prog" where
  "pos_time_get_ms_posix clock = c_bind (pos_time_get_posix clock) pos_time_ticks_to_ms_posix"

section \<open>Facts about rounding\<close>

lemma bit_length_upper: "n < 2 ^ bit_length n"
proof (induction n rule: bit_length.induct)
  case (1 n)
  show ?case
  proof (cases "n = 0")
    case True
    then show ?thesis by (simp add: bit_length.simps)
  next
    case False
    then have "n div 2 < 2 ^ bit_length (n div 2)" using 1 by blast
    then show ?thesis using False by (subst bit_length.simps) (simp add: less_mult_imp_div_less)
  qed
qed

lemma bit_length_lower: "0 < n \<Longrightarrow> 2 ^ (bit_length n - 1) \<le> n"
proof (induction n rule: bit_length.induct)
  case (1 n)
  show ?case
  proof (cases "n div 2 = 0")
    case True
    then have "n = 1" using 1(2) by simp
    then show ?thesis by (simp add: bit_length.simps)
  next
    case False
    have "2 ^ (bit_length (n div 2) - 1) \<le> n div 2" using 1(1) [of] 1(2) False by simp
    moreover have "0 < bit_length (n div 2)" using False by (subst bit_length.simps) simp
    ultimately have "2 ^ bit_length (n div 2) \<le> 2 * (n div 2)"
      by (metis Suc_pred' mult_le_mono2 power_Suc)
    then show ?thesis using 1(2) by (subst bit_length.simps) simp
  qed
qed

lemma round_half_even_error: "\<bar>of_int (round_half_even y) - y\<bar> \<le> 1 / 2"
proof -
  have "of_int \<lfloor>y\<rfloor> \<le> y" "y < of_int \<lfloor>y\<rfloor> + 1" by linarith+
  then show ?thesis by (auto simp: round_half_even_def Let_def abs_if not_less) linarith
qed

lemma round_half_even_int [simp]: "round_half_even (of_int n) = n"
  by (simp add: round_half_even_def)

lemma round_half_even_ge: "of_int n \<le> y \<Longrightarrow> n \<le> round_half_even y"
  using le_floor_iff [of n y] by (auto simp: round_half_even_def Let_def)

lemma dbl_ulp_pos: "0 < dbl_ulp x"
  by (simp add: dbl_ulp_def)

lemma of_nat_floor_le: "1 \<le> x \<Longrightarrow> of_nat (nat \<lfloor>x\<rfloor>) \<le> (x :: rat)"
  by simp

lemma dbl_ulp_le:
  assumes "0 < x"
  shows "dbl_ulp x \<le> x / 2 ^ 52"
proof (cases "1 \<le> x")
  case True
  then have "0 < nat \<lfloor>x\<rfloor>" by simp
  then have "(2 :: nat) ^ (bit_length (nat \<lfloor>x\<rfloor>) - 1) \<le> nat \<lfloor>x\<rfloor>" by (rule bit_length_lower)
  then have "of_nat (2 ^ (bit_length (nat \<lfloor>x\<rfloor>) - 1)) \<le> (of_nat (nat \<lfloor>x\<rfloor>) :: rat)"
    by (simp only: of_nat_le_iff)
  also have "\<dots> \<le> x" by (rule of_nat_floor_le [OF True])
  finally show ?thesis using True by (simp add: dbl_ulp_def divide_right_mono)
next
  case False
  let ?m = "nat \<lceil>1 / x\<rceil>"
  let ?L = "bit_length (?m - 1)"
  have "1 / x \<le> of_nat ?m" using assms by (simp add: of_nat_ceiling)
  moreover have "?m \<le> 2 ^ ?L" using bit_length_upper [of "?m - 1"] by linarith
  then have "(of_nat ?m :: rat) \<le> of_nat (2 ^ ?L)" by (simp only: of_nat_le_iff)
  ultimately have "1 / x \<le> of_nat (2 ^ ?L)" by (rule order_trans)
  then have "1 / x \<le> 2 ^ ?L" by (simp only: of_nat_power of_nat_numeral)
  then have "1 / 2 ^ ?L \<le> x" using assms by (simp add: field_simps)
  then have "(1 / 2 ^ ?L) / 2 ^ 52 \<le> x / (2 ^ 52 :: rat)" by (rule divide_right_mono) simp
  then show ?thesis using False by (simp add: dbl_ulp_def)
qed

lemma dbl_round_error:
  assumes "0 \<le> x"
  shows "\<bar>dbl_round x - x\<bar> \<le> x / 2 ^ 53"
proof (cases "x = 0")
  case True
  then show ?thesis by (simp add: dbl_round_def)
next
  case False
  with assms have x: "0 < x" by simp
  let ?u = "dbl_ulp x" and ?r = "of_int (round_half_even (x / dbl_ulp x)) :: rat"
  have "\<bar>dbl_round x - x\<bar> = \<bar>?r - x / ?u\<bar> * ?u"
    using x dbl_ulp_pos [of x] abs_mult_pos [of ?u "?r - x / ?u"]
    by (simp add: dbl_round_def left_diff_distrib)
  also have "\<dots> \<le> 1 / 2 * ?u"
    using round_half_even_error dbl_ulp_pos [of x] by (intro mult_right_mono) (auto intro: less_imp_le)
  also have "\<dots> \<le> 1 / 2 * (x / 2 ^ 52)" using dbl_ulp_le [OF x] by simp
  finally show ?thesis by simp
qed

lemma dbl_round_le: "0 \<le> x \<Longrightarrow> dbl_round x \<le> x + x / 2 ^ 53"
  using dbl_round_error [of x] unfolding abs_le_iff by linarith

text \<open>Below \<open>2^53\<close> the unit in the last place divides one, so integers are kept.\<close>

lemma dbl_ulp_inverse:
  assumes "0 < x" and "x < 2 ^ 53"
  shows "\<exists>k. 1 / dbl_ulp x = of_int (2 ^ k)"
proof (cases "1 \<le> x")
  case True
  have "2 ^ (bit_length (nat \<lfloor>x\<rfloor>) - 1) \<le> x"
    using dbl_ulp_le [OF assms(1)] True by (simp add: dbl_ulp_def)
  then have "(2 :: rat) ^ (bit_length (nat \<lfloor>x\<rfloor>) - 1) < 2 ^ 53" using assms(2) by linarith
  then have e: "bit_length (nat \<lfloor>x\<rfloor>) - 1 \<le> 52"
    using power_less_imp_less_exp [of "2 :: rat" "bit_length (nat \<lfloor>x\<rfloor>) - 1" 53] by simp
  have "(2 :: rat) ^ 52 / 2 ^ (bit_length (nat \<lfloor>x\<rfloor>) - 1) = 2 ^ (52 - (bit_length (nat \<lfloor>x\<rfloor>) - 1))"
    using e by (simp add: power_diff)
  then show ?thesis
    using True by (intro exI [of _ "52 - (bit_length (nat \<lfloor>x\<rfloor>) - 1)"]) (simp add: dbl_ulp_def)
next
  case False
  then show ?thesis
    by (intro exI [of _ "bit_length (nat \<lceil>1 / x\<rceil> - 1) + 52"]) (simp add: dbl_ulp_def power_add)
qed

lemma dbl_round_ge:
  assumes "of_int n \<le> x" and "0 < x" and "x < 2 ^ 53"
  shows "of_int n \<le> dbl_round x"
proof -
  obtain k where k: "1 / dbl_ulp x = of_int (2 ^ k)" using dbl_ulp_inverse assms by blast
  then have "of_int (n * 2 ^ k) = of_int n / dbl_ulp x" by (simp add: divide_inverse)
  also have "\<dots> \<le> x / dbl_ulp x" using assms(1) dbl_ulp_pos [of x] by (simp add: divide_right_mono)
  finally have "n * 2 ^ k \<le> round_half_even (x / dbl_ulp x)" by (rule round_half_even_ge)
  then have "(of_int (n * 2 ^ k) :: rat) \<le> of_int (round_half_even (x / dbl_ulp x))"
    by (simp only: of_int_le_iff)
  then have "of_int (n * 2 ^ k) * dbl_ulp x \<le> of_int (round_half_even (x / dbl_ulp x)) * dbl_ulp x"
    using dbl_ulp_pos [of x] by (intro mult_right_mono) (auto intro: less_imp_le)
  moreover have "of_int (n * 2 ^ k) * dbl_ulp x = of_int n"
    using k dbl_ulp_pos [of x] by (simp add: field_simps)
  ultimately have "of_int n \<le> of_int (round_half_even (x / dbl_ulp x)) * dbl_ulp x" by (simp only:)
  then show ?thesis using assms(2) by (simp add: dbl_round_def)
qed

lemma dbl_round_int:
  assumes "0 \<le> n" and "n < 2 ^ 53"
  shows "dbl_round (of_int n) = of_int n"
proof (cases "n = 0")
  case True
  then show ?thesis by (simp add: dbl_round_def)
next
  case False
  let ?x = "of_int n :: rat"
  have x: "0 < ?x" using False assms(1) by simp
  have "(of_int n :: rat) < of_int (2 ^ 53)" using assms(2) by (simp only: of_int_less_iff)
  then obtain k where k: "1 / dbl_ulp ?x = of_int (2 ^ k)" using dbl_ulp_inverse [OF x] by auto
  then have e: "?x / dbl_ulp ?x = of_int (n * 2 ^ k)" by (simp add: divide_inverse)
  then have "?x = of_int (n * 2 ^ k) * dbl_ulp ?x" using dbl_ulp_pos [of ?x] by (simp add: field_simps)
  then show ?thesis using x by (simp only: dbl_round_def e round_half_even_int) auto
qed

lemma dbl_round_numeral:
  "dbl_round 1000 = 1000" "dbl_div 1000000000 1000 = 1000000"
  using dbl_round_int [of 1000] dbl_round_int [of 1000000] by (simp_all add: dbl_div_def)

section \<open>The clock\<close>

text \<open>
  The fraction of a time in milliseconds is at most \<open>0.999999\<close>; below \<open>2^32\<close> the errors of the
  division and of the sum together do not close the gap to the next integer.
\<close>

lemma rounding_gap:
  fixes T x r :: rat
  assumes "T < 2 ^ 32" and "x \<le> T + 999999 / 1000000 + 1000 / 2 ^ 53" and "r \<le> x + x / 2 ^ 53"
  shows "r < T + 1"
proof -
  have p: "(2 :: rat) ^ 53 = 9007199254740992" "(2 :: rat) ^ 32 = 4294967296" by simp_all
  show ?thesis using assms unfolding p by linarith
qed

lemma ticks_of_timespec_bounds:
  assumes "valid_timespec now" and "0 \<le> tv_sec now" and "tv_sec now < 2 ^ 42"
  defines "T \<equiv> tv_sec now * 1000 + tv_nsec now div 1000000"
  shows "of_int T \<le> ticks_of_timespec POS_TICKS_PER_SEC_posix now \<and>
         (T < 2 ^ 32 \<longrightarrow> ticks_of_timespec POS_TICKS_PER_SEC_posix now < of_int T + 1)"
proof -
  let ?n = "tv_nsec now" and ?s = "tv_sec now"
  let ?y = "of_int ?n / 1000000 :: rat"
  let ?q = "dbl_round ?y"
  let ?x = "of_int ?s * 1000 + ?q"
  have n: "0 \<le> ?n" "?n < 1000000000" using assms(1) by (auto simp: valid_timespec_def)
  have t: "ticks_of_timespec POS_TICKS_PER_SEC_posix now = dbl_round ?x"
    using dbl_round_int [of ?s] dbl_round_int [of ?n] dbl_round_int [of "?s * 1000"] n assms(2,3)
    by (simp add: ticks_of_timespec_def POS_TICKS_PER_SEC_posix_def dbl_round_numeral
        dbl_add_def dbl_mul_def dbl_div_def [of "of_int ?n"])
  have y: "0 \<le> ?y" "?y < 1000" using n by (simp_all add: divide_less_eq)
  have qe: "\<bar>?q - ?y\<bar> \<le> 1000 / 2 ^ 53"
    using dbl_round_error [OF y(1)] y(2) by (auto intro: order_trans)
  have split: "of_int ?n = of_int (?n div 1000000) * 1000000 + (of_int (?n mod 1000000) :: rat)"
    by (metis div_mult_mod_eq of_int_add of_int_mult of_int_numeral)
  have "?n mod 1000000 \<le> 999999" "0 \<le> ?n mod 1000000"
    using pos_mod_bound [of 1000000 ?n] by simp_all
  then have m: "(of_int (?n mod 1000000) :: rat) \<le> 999999" "0 \<le> (of_int (?n mod 1000000) :: rat)"
    by linarith+
  have ylo: "of_int (?n div 1000000) \<le> ?y" using split m by (simp add: le_divide_eq)
  have yhi: "?y \<le> of_int (?n div 1000000) + 999999 / 1000000"
    using split m by (simp add: divide_le_eq)
  have qlo: "of_int (?n div 1000000) \<le> ?q"
    using dbl_round_ge [OF ylo] y ylo by (cases "?n = 0") (auto simp: dbl_round_def)
  have "(of_int ?s :: rat) < of_int (2 ^ 42)" using assms(3) by (simp only: of_int_less_iff)
  then have s: "(of_int ?s :: rat) < 2 ^ 42" "(0 :: rat) \<le> of_int ?s" using assms(2) by simp_all
  have xlo: "of_int T \<le> ?x" using qlo by (simp add: T_def)
  have "0 \<le> ?n div 1000000" using n(1) by (simp add: pos_imp_zdiv_nonneg_iff)
  then have "(0 :: rat) \<le> of_int (?n div 1000000)" by (simp only: of_int_0_le_iff)
  then have q0: "0 \<le> ?q" using qlo by (rule order_trans)
  have qhi: "?q \<le> ?y + 1000 / 2 ^ 53" using qe unfolding abs_le_iff by linarith
  moreover have "?y + 1000 / 2 ^ 53 < 1001" using y(2) by simp
  ultimately have "?q < 1001" by (rule le_less_trans)
  moreover have "(of_int ?s :: rat) < 4398046511104" using s(1) by simp
  ultimately have "?x < 9007199254740992" by linarith
  then have "?x < 2 ^ 53" by simp
  then have lo: "of_int T \<le> dbl_round ?x"
    using dbl_round_ge [OF xlo] xlo s q0 by (cases "?x = 0") (auto simp: dbl_round_def)
  have "dbl_round ?x < of_int T + 1" if "T < 2 ^ 32"
  proof -
    have "(of_int T :: rat) < of_int (2 ^ 32)" using that by (simp only: of_int_less_iff)
    then have "(of_int T :: rat) < 2 ^ 32" by (simp only: of_int_power of_int_numeral)
    moreover have "?x \<le> of_int T + 999999 / 1000000 + 1000 / 2 ^ 53"
      using yhi qhi unfolding T_def of_int_add of_int_mult of_int_numeral by linarith
    moreover have "dbl_round ?x \<le> ?x + ?x / 2 ^ 53"
      using s(2) q0 by (intro dbl_round_le) simp
    ultimately show ?thesis by (rule rounding_gap)
  qed
  with lo t show ?thesis by simp
qed

lemma pos_time_get_posix_eq:
  assumes "clock w = Returns (0, now) w'" and "valid_timespec now" and "0 \<le> tv_sec now"
    and "tv_sec now < 2 ^ 42"
  defines "T \<equiv> tv_sec now * 1000 + tv_nsec now div 1000000"
  shows "pos_time_get_posix clock w =
           (if T < 2 ^ 32 then Returns (word_of_int T) w' else Stops Undefined_Behaviour)"
proof -
  let ?t = "ticks_of_timespec POS_TICKS_PER_SEC_posix now"
  have b: "of_int T \<le> ?t" "T < 2 ^ 32 \<longrightarrow> ?t < of_int T + 1"
    using ticks_of_timespec_bounds [OF assms(2-4)] by (simp_all add: T_def)
  have T: "0 \<le> T"
    using assms(2,3) by (simp add: T_def valid_timespec_def pos_imp_zdiv_nonneg_iff)
  then have t0: "0 \<le> ?t" using b(1) by (meson of_int_0_le_iff order_trans)
  have ge: "T \<le> \<lfloor>?t\<rfloor>" using b(1) by (simp only: le_floor_iff)
  show ?thesis
  proof (cases "T < 2 ^ 32")
    case True
    then have "\<lfloor>?t\<rfloor> = T" using b by (intro floor_unique) simp_all
    then show ?thesis
      using assms(1) T t0 True
      by (simp only: pos_time_get_posix_def dbl_to_u_def Let_def prog_defs) (simp add: c_return_def)
  next
    case False
    with ge have "\<not> \<lfloor>?t\<rfloor> < 2 ^ 32" by linarith
    then show ?thesis
      using assms(1) t0 False
      by (simp only: pos_time_get_posix_def dbl_to_u_def Let_def prog_defs) (simp add: prog_defs)
  qed
qed

lemma ms_tick_exact:
  assumes "0 \<le> n" and "n < 2 ^ 32"
  shows "dbl_to_u 32 (dbl_div (dbl_mul (dbl_round (of_int n)) 1000) 1000) = c_return n"
proof -
  have "dbl_div (dbl_mul (dbl_round (of_int n)) 1000) 1000 = of_int n"
    using dbl_round_int [of n] dbl_round_int [of "n * 1000"] assms
    by (simp add: dbl_div_def dbl_mul_def)
  then show ?thesis using assms by (simp add: dbl_to_u_def)
qed

lemma pos_time_ms_to_ticks_posix_eq [simp]: "pos_time_ms_to_ticks_posix ms = c_return ms"
  unfolding pos_time_ms_to_ticks_posix_def POS_TICKS_PER_SEC_posix_def of_int_numeral
    dbl_round_numeral
  by (subst ms_tick_exact) (use unsigned_less [of ms, where 'a = int] in simp_all)

lemma pos_time_ticks_to_ms_posix_eq [simp]: "pos_time_ticks_to_ms_posix ticks = c_return ticks"
  unfolding pos_time_ticks_to_ms_posix_def POS_TICKS_PER_SEC_posix_def of_int_numeral
    dbl_round_numeral
  by (subst ms_tick_exact) (use unsigned_less [of ticks, where 'a = int] in simp_all)

lemma pos_time_get_ms_posix_eq: "pos_time_get_ms_posix clock = pos_time_get_posix clock"
  by (rule ext) (simp add: pos_time_get_ms_posix_def c_bind_def c_return_def split: outcome.split)

text \<open>C33. In spite of its floating-point arithmetic the POSIX clock is exact: it returns the whole
  number of milliseconds of the monotonic time, rounded down, while that fits 32 bits (about
  49.7 days); later the conversion is undefined.\<close>

theorem posix_time_get_exact:
  assumes "clock w = Returns (0, now) w'" and "valid_timespec now" and "0 \<le> tv_sec now"
    and "tv_sec now < 2 ^ 42"
  shows "pos_time_get_posix clock w =
           (if tv_sec now * 1000 + tv_nsec now div 1000000 < 2 ^ 32
            then Returns (word_of_int (tv_sec now * 1000 + tv_nsec now div 1000000)) w'
            else Stops Undefined_Behaviour)"
  by (rule pos_time_get_posix_eq [of clock w now w', OF assms])

theorem posix_time_get_exact_witness:
  "pos_time_get_posix (\<lambda>k. Returns (0, \<lparr>tv_sec = 4294967, tv_nsec = 294999999\<rparr>) k) () =
     Returns 4294967294 () \<and>
   pos_time_get_posix (\<lambda>k. Returns (0, \<lparr>tv_sec = 4294967, tv_nsec = 296000000\<rparr>) k) () =
     Stops Undefined_Behaviour"
  using posix_time_get_exact [of "\<lambda>k. Returns (0, \<lparr>tv_sec = 4294967, tv_nsec = 294999999\<rparr>) k" "()"
        "\<lparr>tv_sec = 4294967, tv_nsec = 294999999\<rparr>" "()"]
    posix_time_get_exact [of "\<lambda>k. Returns (0, \<lparr>tv_sec = 4294967, tv_nsec = 296000000\<rparr>) k" "()"
        "\<lparr>tv_sec = 4294967, tv_nsec = 296000000\<rparr>" "()"]
  by (simp add: valid_timespec_def)

text \<open>The conversions between milliseconds and ticks of the Linux build lose nothing for any 32-bit
  value: each is the identity, so each undoes the other, and the clock in milliseconds is the
  clock in ticks.\<close>

theorem posix_tick_conversions:
  "c_bind (pos_time_ms_to_ticks_posix t) pos_time_ticks_to_ms_posix w = Returns t w \<and>
   c_bind (pos_time_ticks_to_ms_posix t) pos_time_ms_to_ticks_posix w = Returns t w \<and>
   pos_time_get_ms_posix clock w = pos_time_get_posix clock w"
  by (simp add: c_return_def pos_time_get_ms_posix_eq)

end
