(* ===== verification/Posix_Timer.thy ===== *)
theory Posix_Timer
  imports Posix_Time
begin

text \<open>
  One-shot timers of the POSIX port, \<^verbatim>\<open>targets/posix/os_timer.c\<close>: the Linux functions over
  \<open>timer_create\<close> and \<open>timer_settime\<close>, and the Apple functions over dispatch sources.  The
  world is the \<open>struct pos_timer\<close> and the system below; \<open>run_cb\<close> gives what calling a
  function pointer with an argument does.
\<close>

section \<open>Definitions\<close>

record itimerspec =
  it_interval :: timespec
  it_value :: timespec

text \<open>
  \<open>timer_create\<close> takes the address that the notification thread hands to \<open>pos_timer_cb\<close>; its
  results are the status and the content of the zeroed \<open>timer_t\<close> afterwards.
\<close>

record ('t, 'o, 'k) posix_timer_api =
  timer_create :: "'o \<Rightarrow> (int \<times> 't option, 'k) prog"
  timer_settime :: "'t \<Rightarrow> int \<Rightarrow> itimerspec \<Rightarrow> (int, 'k) prog"
  timer_gettime :: "'t \<Rightarrow> (int \<times> itimerspec, 'k) prog"
  clock_monotonic :: "(int \<times> timespec, 'k) prog"

record ('f, 'p, 't) pos_timer_posix =
  tm_cb :: "'f option"
  tm_ticks :: pos_time
  tm_timer :: "'t option"
  tm_active :: bool
  tm_arg :: "'p option"

definition timer_zero :: "('f, 'p, 't) pos_timer_posix" where
  "timer_zero = \<lparr>tm_cb = None, tm_ticks = 0, tm_timer = None, tm_active = False, tm_arg = None\<rparr>"

text \<open>Calling \<open>timer->tm_cb(timer->tm_arg)\<close>; through a null pointer it is undefined.\<close>

definition call_tm_cb ::
    "('f \<Rightarrow> 'p option \<Rightarrow> (unit, ('f, 'p, 't) pos_timer_posix \<times> 'k) prog) \<Rightarrow>
     (unit, ('f, 'p, 't) pos_timer_posix \<times> 'k) prog" where
  "call_tm_cb run_cb =
     c_bind (get_obj (\<lambda>timer. (tm_cb timer, tm_arg timer))) (\<lambda>(cb, arg).
       case cb of None \<Rightarrow> c_stop Undefined_Behaviour | Some f \<Rightarrow> run_cb f arg)"

definition pos_timer_cb_posix ::
    "('f \<Rightarrow> 'p option \<Rightarrow> (unit, ('f, 'p, 't) pos_timer_posix \<times> 'k) prog) \<Rightarrow> bool \<Rightarrow>
     (unit, ('f, 'p, 't) pos_timer_posix \<times> 'k) prog" where
  "pos_timer_cb_posix run_cb timer_null =
     c_then (c_assert (\<not> timer_null))
       (c_then (upd_obj (\<lambda>timer. timer\<lparr>tm_active := False\<rparr>)) (call_tm_cb run_cb))"

definition pos_timer_init_posix ::
    "('t, 'o, 'k) posix_timer_api \<Rightarrow> 'o \<Rightarrow> 'f option \<Rightarrow> 'p option \<Rightarrow>
     (pos_error, ('f, 'p, 't) pos_timer_posix \<times> 'k) prog" where
  "pos_timer_init_posix api timer cb arg =
     c_then (upd_obj (\<lambda>_. timer_zero))
       (c_then (upd_obj (\<lambda>t. t\<lparr>tm_cb := cb, tm_arg := arg, tm_active := False\<rparr>))
       (c_bind (kcall (timer_create api timer)) (\<lambda>(ret, tid).
        c_then (upd_obj (\<lambda>t. t\<lparr>tm_timer := tid\<rparr>))
          (c_return (if ret \<noteq> 0 then POS_ERROR else POS_OK)))))"

definition pos_timer_inited_posix :: "('f, 'p, 't) pos_timer_posix \<Rightarrow> pos_error" where
  "pos_timer_inited_posix timer = (if tm_timer timer = None then POS_EINVAL else POS_OK)"

text \<open>The expiration of a one-shot timer after a number of ticks of a millisecond.\<close>

definition one_shot :: "pos_time \<Rightarrow> itimerspec" where
  "one_shot ticks =
     \<lparr>it_interval = \<lparr>tv_sec = 0, tv_nsec = 0\<rparr>,
      it_value = \<lparr>tv_sec = uint (ticks div 1000),
                  tv_nsec = uint ((ticks mod 1000) * 1000000) mod 1000000000\<rparr>\<rparr>"

definition pos_timer_start_posix ::
    "('t, 'o, 'k) posix_timer_api \<Rightarrow> pos_time \<Rightarrow> (pos_error, ('f, 'p, 't) pos_timer_posix \<times> 'k) prog" where
  "pos_timer_start_posix api ticks0 =
     c_bind (get_obj tm_timer) (\<lambda>tm.
       case tm of
         None \<Rightarrow> c_return POS_EINVAL
       | Some tid \<Rightarrow>
           (let ticks = (if ticks0 = 0 then 1 else ticks0) in
            c_bind (kcall (pos_time_get_posix (clock_monotonic api))) (\<lambda>now.
            c_then (upd_obj (\<lambda>t. t\<lparr>tm_ticks := now + ticks\<rparr>))
            (c_then (upd_obj (\<lambda>t. t\<lparr>tm_active := True\<rparr>))
            (c_bind (kcall (timer_settime api tid 0 (one_shot ticks))) (\<lambda>ret.
             c_return (if ret \<noteq> 0 then POS_EINVAL else POS_OK)))))))"

definition pos_timer_stop_posix ::
    "('t, 'o, 'k) posix_timer_api \<Rightarrow> (pos_error, ('f, 'p, 't) pos_timer_posix \<times> 'k) prog" where
  "pos_timer_stop_posix api =
     c_bind (get_obj tm_timer) (\<lambda>tm.
       case tm of
         None \<Rightarrow> c_return POS_EINVAL
       | Some tid \<Rightarrow>
           c_bind (kcall (timer_settime api tid 0
               \<lparr>it_interval = \<lparr>tv_sec = 0, tv_nsec = 0\<rparr>, it_value = \<lparr>tv_sec = 0, tv_nsec = 0\<rparr>\<rparr>)) (\<lambda>ret.
             if ret \<noteq> 0 then c_return POS_EINVAL
             else c_then (upd_obj (\<lambda>t. t\<lparr>tm_active := False\<rparr>)) (c_return POS_OK)))"

text \<open>
  The product \<open>tv_sec * 1000\<close> is of type \<open>time_t\<close> (64 bits) and is cut to \<open>uint32_t\<close>.  An
  uninitialised \<open>timer_t\<close> handed to the library is undefined.
\<close>

definition pos_timer_remaining_ticks_posix ::
    "('t, 'o, 'k) posix_timer_api \<Rightarrow> pos_time \<Rightarrow> (pos_time, ('f, 'p, 't) pos_timer_posix \<times> 'k) prog" where
  "pos_timer_remaining_ticks_posix api now =
     c_bind (get_obj tm_timer) (\<lambda>tm.
       case tm of
         None \<Rightarrow> c_stop Undefined_Behaviour
       | Some tid \<Rightarrow>
           c_bind (kcall (timer_gettime api tid)) (\<lambda>(_, its).
             let ex = (word_of_int (tv_sec (it_value its) * 1000) :: u32)
             in c_return (if now < ex then ex - now else 0)))"

definition pos_timer_start_ms_posix ::
    "('t, 'o, 'k) posix_timer_api \<Rightarrow> pos_time \<Rightarrow> (pos_error, ('f, 'p, 't) pos_timer_posix \<times> 'k) prog" where
  "pos_timer_start_ms_posix api duration =
     c_bind (pos_time_ms_to_ticks_posix duration) (pos_timer_start_posix api)"

definition pos_timer_is_active_posix :: "('f, 'p, 't) pos_timer_posix \<Rightarrow> bool" where
  "pos_timer_is_active_posix timer = tm_active timer"

definition pos_timer_get_ticks_posix :: "('f, 'p, 't) pos_timer_posix \<Rightarrow> pos_time" where
  "pos_timer_get_ticks_posix timer = tm_ticks timer"

definition pos_timer_arg_get_posix :: "('f, 'p, 't) pos_timer_posix \<Rightarrow> 'p option" where
  "pos_timer_arg_get_posix timer = tm_arg timer"

definition pos_timer_arg_set_posix ::
    "'p option \<Rightarrow> (unit, ('f, 'p, 't) pos_timer_posix \<times> 'k) prog" where
  "pos_timer_arg_set_posix arg = upd_obj (\<lambda>timer. timer\<lparr>tm_arg := arg\<rparr>)"

subsection \<open>Apple\<close>

text \<open>
  Dispatch sources: creation (the new source, null on failure), handler and context,
  arming with an absolute time, resuming and cancelling.  Ticks have 64 bits here.
\<close>

record ('d, 'o, 'k) dispatch_timer_api =
  dispatch_source_create :: "('d option, 'k) prog"
  dispatch_source_set_event_handler :: "'d option \<Rightarrow> (unit, 'k) prog"
  dispatch_set_context :: "'d option \<Rightarrow> 'o \<Rightarrow> (unit, 'k) prog"
  dispatch_time_after :: "64 word \<Rightarrow> (64 word, 'k) prog"
  dispatch_source_set_timer :: "'d \<Rightarrow> 64 word \<Rightarrow> 64 word \<Rightarrow> 64 word \<Rightarrow> (unit, 'k) prog"
  dispatch_resume :: "'d \<Rightarrow> (unit, 'k) prog"
  dispatch_source_cancel :: "'d \<Rightarrow> (unit, 'k) prog"
  clock_calendar :: "(timespec, 'k) prog"

record ('f, 'p, 'd) pos_timer_apple =
  tma_cb :: "'f option"
  tma_ticks :: "64 word"
  tma_timer :: "'d option"
  tma_active :: bool
  tma_arg :: "'p option"

definition DISPATCH_TIME_FOREVER :: "64 word" where
  "DISPATCH_TIME_FOREVER = - 1"

definition pos_timer_init_apple ::
    "('d, 'o, 'k) dispatch_timer_api \<Rightarrow> 'o \<Rightarrow> 'f option \<Rightarrow> 'p option \<Rightarrow>
     (pos_error, ('f, 'p, 'd) pos_timer_apple \<times> 'k) prog" where
  "pos_timer_init_apple api timer cb arg =
     c_bind (kcall (dispatch_source_create api)) (\<lambda>dispatch.
     c_then (kcall (dispatch_source_set_event_handler api dispatch))
     (c_then (kcall (dispatch_set_context api dispatch timer))
     (c_then (upd_obj (\<lambda>_. \<lparr>tma_cb = None, tma_ticks = 0, tma_timer = None, tma_active = False, tma_arg = None\<rparr>))
     (c_then (upd_obj (\<lambda>t. t\<lparr>tma_cb := cb, tma_arg := arg, tma_active := False, tma_timer := dispatch\<rparr>))
       (c_return POS_OK)))))"

definition pos_timer_start_apple ::
    "('d, 'o, 'k) dispatch_timer_api \<Rightarrow> 64 word \<Rightarrow> (pos_error, ('f, 'p, 'd) pos_timer_apple \<times> 'k) prog" where
  "pos_timer_start_apple api ticks =
     c_bind (get_obj tma_timer) (\<lambda>tm.
       case tm of
         None \<Rightarrow> c_return POS_EINVAL
       | Some dispatch \<Rightarrow>
           c_bind (kcall (pos_time_get_apple (clock_calendar api))) (\<lambda>now.
           c_then (upd_obj (\<lambda>t. t\<lparr>tma_ticks := now + ticks\<rparr>))
           (c_bind (dbl_to_u 64 (dbl_mul (dbl_round (of_int (uint ticks)))
                      (dbl_div 1000000000 (dbl_round (of_int POS_TICKS_PER_SEC_apple))))) (\<lambda>delay_ns.
            c_bind (kcall (dispatch_time_after api (word_of_int delay_ns))) (\<lambda>start.
            c_then (kcall (dispatch_source_set_timer api dispatch start DISPATCH_TIME_FOREVER 100000))
            (c_then (kcall (dispatch_resume api dispatch))
            (c_then (upd_obj (\<lambda>t. t\<lparr>tma_active := True\<rparr>))
              (c_return POS_OK))))))))"

definition pos_timer_stop_apple ::
    "('d, 'o, 'k) dispatch_timer_api \<Rightarrow> (pos_error, ('f, 'p, 'd) pos_timer_apple \<times> 'k) prog" where
  "pos_timer_stop_apple api =
     c_bind (get_obj tma_timer) (\<lambda>tm.
       case tm of
         None \<Rightarrow> c_return POS_EINVAL
       | Some dispatch \<Rightarrow>
           c_then (kcall (dispatch_source_cancel api dispatch))
           (c_then (upd_obj (\<lambda>t. t\<lparr>tma_active := False\<rparr>)) (c_return POS_OK)))"

definition pos_timer_cb_apple ::
    "('d, 'o, 'k) dispatch_timer_api \<Rightarrow>
     ('f \<Rightarrow> 'p option \<Rightarrow> (unit, ('f, 'p, 'd) pos_timer_apple \<times> 'k) prog) \<Rightarrow> bool \<Rightarrow>
     (unit, ('f, 'p, 'd) pos_timer_apple \<times> 'k) prog" where
  "pos_timer_cb_apple api run_cb timer_null =
     c_then (c_assert (\<not> timer_null))
       (c_then (pos_timer_stop_apple api)
       (c_bind (get_obj (\<lambda>timer. (tma_cb timer, tma_arg timer))) (\<lambda>(cb, arg).
          case cb of None \<Rightarrow> c_stop Undefined_Behaviour | Some f \<Rightarrow> run_cb f arg)))"

definition pos_timer_remaining_ticks_apple :: "64 word \<Rightarrow> 64 word" where
  "pos_timer_remaining_ticks_apple now = 0"

subsection \<open>Sequences of timer events\<close>

text \<open>
  The life of one timer: starts, stops, and expirations, at which the system disarms the timer
  (\<open>expire\<close>) and the notification thread runs \<open>pos_timer_cb\<close>.  An expiration is possible
  only while the timer is armed.  The result counts the starts that reported success and
  the callbacks.
\<close>

datatype timer_event = EStart pos_time | EStop | EExpire

fun timer_run ::
    "('t, 'o, 'k) posix_timer_api \<Rightarrow> ('t \<Rightarrow> 'k \<Rightarrow> 'k option) \<Rightarrow>
     ('f \<Rightarrow> 'p option \<Rightarrow> (unit, ('f, 'p, 't) pos_timer_posix \<times> 'k) prog) \<Rightarrow> timer_event list \<Rightarrow>
     (nat \<times> nat, ('f, 'p, 't) pos_timer_posix \<times> 'k) prog" where
  "timer_run api expire run_cb [] = c_return (0, 0)"
| "timer_run api expire run_cb (EStart ticks # es) =
     c_bind (pos_timer_start_posix api ticks) (\<lambda>e.
     c_bind (timer_run api expire run_cb es) (\<lambda>(s, f). c_return (if e = POS_OK then Suc s else s, f)))"
| "timer_run api expire run_cb (EStop # es) =
     c_then (pos_timer_stop_posix api) (timer_run api expire run_cb es)"
| "timer_run api expire run_cb (EExpire # es) =
     c_bind (get_obj tm_timer) (\<lambda>tm.
       case tm of
         None \<Rightarrow> c_stop Blocked
       | Some tid \<Rightarrow>
           c_then (kcall (\<lambda>k. case expire tid k of None \<Rightarrow> Stops Blocked | Some k' \<Rightarrow> Returns () k'))
           (c_then (pos_timer_cb_posix run_cb False)
           (c_bind (timer_run api expire run_cb es) (\<lambda>(s, f). c_return (s, Suc f)))))"

text \<open>The active flag tells whether the system's timer is armed, and an armed timer has no period.\<close>

definition timer_inv ::
    "('k \<Rightarrow> 't \<Rightarrow> int option) \<Rightarrow> ('k \<Rightarrow> 't \<Rightarrow> int) \<Rightarrow> ('k \<Rightarrow> 't \<Rightarrow> bool) \<Rightarrow> 't \<Rightarrow>
     ('f, 'p, 't) pos_timer_posix \<times> 'k \<Rightarrow> bool" where
  "timer_inv armed period usable tid w \<longleftrightarrow>
     tm_timer (fst w) = Some tid \<and> usable (snd w) tid \<and> (tm_active (fst w) \<longleftrightarrow> armed (snd w) tid \<noteq> None) \<and>
     (armed (snd w) tid \<noteq> None \<longrightarrow> period (snd w) tid = 0)"

subsection \<open>A reference model of the system's timers\<close>

record ref_timers =
  rt_armed :: "nat \<Rightarrow> int option"
  rt_period :: "nat \<Rightarrow> int"
  rt_live :: "nat \<Rightarrow> bool"
  rt_now :: nat

definition ref_timer_api :: "(nat, nat, ref_timers) posix_timer_api" where
  "ref_timer_api =
     \<lparr>timer_create = (\<lambda>o' k.
        Returns (0, Some o') (k\<lparr>rt_live := (rt_live k)(o' := True), rt_armed := (rt_armed k)(o' := None)\<rparr>)),
      timer_settime = (\<lambda>tid flags its k.
        if \<not> valid_timespec (it_value its) then Returns (- 1) k
        else Returns 0 (k\<lparr>rt_armed := (rt_armed k)(tid :=
               if instant_ns (it_value its) = 0 then None else Some (instant_ns (it_value its))),
               rt_period := (rt_period k)(tid := instant_ns (it_interval its))\<rparr>)),
      timer_gettime = (\<lambda>tid k.
        Returns (0, \<lparr>it_interval = timespec_of_ns (nat (rt_period k tid)),
                     it_value = timespec_of_ns (nat (case rt_armed k tid of None \<Rightarrow> 0 | Some d \<Rightarrow> d))\<rparr>) k),
      clock_monotonic = (\<lambda>k. Returns (0, timespec_of_ns (rt_now k)) k)\<rparr>"

definition ref_expire :: "nat \<Rightarrow> ref_timers \<Rightarrow> ref_timers option" where
  "ref_expire tid k =
     (case rt_armed k tid of
        None \<Rightarrow> None
      | Some d \<Rightarrow> Some (k\<lparr>rt_armed := (rt_armed k)(tid := if rt_period k tid = 0 then None else Some (rt_period k tid))\<rparr>))"

definition rt_uptime_ok :: "ref_timers \<Rightarrow> nat \<Rightarrow> bool" where
  "rt_uptime_ok k tid \<longleftrightarrow> rt_live k tid \<and> rt_now k < 4294967296000000"

section \<open>The documented behaviour of the system's timers\<close>

text \<open>
  \<open>armed k tid\<close> is the time until the timer \<open>tid\<close> expires, in nanoseconds (\<open>None\<close>: disarmed), and
  \<open>period k tid\<close> its interval: a timer that expires is disarmed when the interval is zero and runs for the interval again
  otherwise;
  \<open>usable k tid\<close> says that it exists and that the monotonic clock reads less than \<open>2^32\<close>
  milliseconds.  The laws are those of the POSIX pages of \<open>timer_create\<close> and
  \<open>timer_settime\<close> with relative times.
\<close>

locale posix_timer_kernel =
  fixes api :: "('t, 'o, 'k) posix_timer_api"
    and expire :: "'t \<Rightarrow> 'k \<Rightarrow> 'k option"
    and armed :: "'k \<Rightarrow> 't \<Rightarrow> int option"
    and period :: "'k \<Rightarrow> 't \<Rightarrow> int"
    and usable :: "'k \<Rightarrow> 't \<Rightarrow> bool"
  assumes settime_arms:
      "usable k tid \<Longrightarrow> valid_timespec (it_value its) \<Longrightarrow> 0 \<le> tv_sec (it_value its) \<Longrightarrow>
       \<exists>k'. timer_settime api tid 0 its k = Returns 0 k' \<and> usable k' tid \<and>
            armed k' tid = (if instant_ns (it_value its) = 0 then None else Some (instant_ns (it_value its))) \<and>
            period k' tid = instant_ns (it_interval its)"
    and expire_reloads:
      "usable k tid \<Longrightarrow> expire tid k = Some k' \<Longrightarrow>
       armed k tid \<noteq> None \<and> usable k' tid \<and> period k' tid = period k tid \<and>
       armed k' tid = (if period k tid = 0 then None else Some (period k tid))"
    and clock_reads:
      "usable k tid \<Longrightarrow> \<exists>now. clock_monotonic api k = Returns (0, now) k \<and> valid_timespec now \<and>
         0 \<le> tv_sec now \<and> tv_sec now * 1000 + tv_nsec now div 1000000 < 2 ^ 32"
begin

lemma uptime_reads:
  assumes "usable k tid"
  shows "\<exists>now. pos_time_get_posix (clock_monotonic api) k = Returns now k"
proof -
  obtain now where now: "clock_monotonic api k = Returns (0, now) k" "valid_timespec now"
      "0 \<le> tv_sec now" and T: "tv_sec now * 1000 + tv_nsec now div 1000000 < 2 ^ 32"
    using clock_reads [OF assms] by blast
  have "0 \<le> tv_nsec now div 1000000"
    using now(2) by (simp add: valid_timespec_def pos_imp_zdiv_nonneg_iff)
  then have "tv_sec now < 2 ^ 42" using T by simp
  from pos_time_get_posix_eq [of "clock_monotonic api" k now k, OF now this] T
  show ?thesis by simp
qed

lemma one_shot_value:
  "valid_timespec (it_value (one_shot ticks)) \<and> 0 \<le> tv_sec (it_value (one_shot ticks)) \<and>
   instant_ns (it_value (one_shot ticks)) = uint ticks * 1000000 \<and> instant_ns (it_interval (one_shot ticks)) = 0"
proof -
  have "uint ticks mod 1000 * 1000000 < 1000000000" using pos_mod_bound [of 1000 "uint ticks"] by simp
  moreover have "uint ticks div 1000 * 1000000000 + uint ticks mod 1000 * 1000000 = uint ticks * 1000000"
    using div_mult_mod_eq [of "uint ticks" 1000] by linarith
  ultimately show ?thesis
    by (simp add: one_shot_def valid_timespec_def instant_ns_def uint_ms_to_ns uint_div
        pos_imp_zdiv_nonneg_iff)
qed

lemma start_arms:
  assumes "tm_timer t = Some tid" and "usable k tid"
  shows "\<exists>now k'. pos_time_get_posix (clock_monotonic api) k = Returns now k \<and>
     pos_timer_start_posix api ticks (t, k) =
       Returns POS_OK (t\<lparr>tm_ticks := now + max 1 ticks, tm_active := True\<rparr>, k') \<and>
     usable k' tid \<and> armed k' tid = Some (uint (max 1 ticks) * 1000000) \<and> period k' tid = 0"
proof -
  let ?n = "if ticks = 0 then 1 else ticks"
  have "1 \<le> ticks" if "ticks \<noteq> 0" using that by (simp add: word_le_nat_alt unat_gt_0 Suc_le_eq)
  then have n: "?n = max 1 ticks" "?n \<noteq> 0" by (auto simp: max_def)
  then have pos: "uint ?n \<noteq> 0" by (simp add: uint_0_iff)
  obtain now where now: "pos_time_get_posix (clock_monotonic api) k = Returns now k"
    using uptime_reads [OF assms(2)] by blast
  obtain k' where "timer_settime api tid 0 (one_shot ?n) k = Returns 0 k'" "usable k' tid"
      "armed k' tid = Some (uint ?n * 1000000)" "period k' tid = 0"
    using settime_arms [OF assms(2), of "one_shot ?n"] one_shot_value [of ?n] pos by auto
  then show ?thesis
    using assms(1) now n by (auto simp: pos_timer_start_posix_def prog_defs Let_def)
qed

lemma stop_disarms:
  assumes "tm_timer t = Some tid" and "usable k tid"
  shows "\<exists>k'. pos_timer_stop_posix api (t, k) = Returns POS_OK (t\<lparr>tm_active := False\<rparr>, k') \<and>
              usable k' tid \<and> armed k' tid = None"
  using settime_arms [OF assms(2), of "\<lparr>it_interval = \<lparr>tv_sec = 0, tv_nsec = 0\<rparr>, it_value = \<lparr>tv_sec = 0, tv_nsec = 0\<rparr>\<rparr>"]
    assms(1)
  by (auto simp: pos_timer_stop_posix_def prog_defs valid_timespec_def instant_ns_def)

text \<open>
  For a callback that leaves the timer itself alone, the flag tells whether the timer is
  armed, and no start leads to more than one callback.
\<close>

lemma timer_run_inv:
  assumes cb: "\<And>f a w w'. run_cb f a w = Returns () w' \<Longrightarrow> fst w' = fst w \<and>
                 armed (snd w') tid = armed (snd w) tid \<and> period (snd w') tid = period (snd w) tid \<and> (usable (snd w) tid \<longrightarrow> usable (snd w') tid)"
    and "timer_inv armed period usable tid w" and "timer_run api expire run_cb es w = Returns (s, f) w'"
  shows "timer_inv armed period usable tid w' \<and>
         f + (if tm_active (fst w') then 1 else 0) \<le> s + (if tm_active (fst w) then 1 else 0)"
  using assms(2,3)
proof (induction es arbitrary: w s f)
  case Nil
  then show ?case by (simp add: c_return_def)
next
  case (Cons e es)
  obtain t k where w: "w = (t, k)" by (cases w)
  then have i: "tm_timer t = Some tid" "usable k tid" using Cons.prems(1) by (auto simp: timer_inv_def)
  show ?case
  proof (cases e)
    case (EStart ticks)
    obtain now k' where st: "pos_timer_start_posix api ticks (t, k) =
        Returns POS_OK (t\<lparr>tm_ticks := now + max 1 ticks, tm_active := True\<rparr>, k')"
        "usable k' tid" "armed k' tid = Some (uint (max 1 ticks) * 1000000)" "period k' tid = 0"
      using start_arms [OF i] by blast
    let ?w1 = "(t\<lparr>tm_ticks := now + max 1 ticks, tm_active := True\<rparr>, k')"
    obtain s1 where "timer_run api expire run_cb es ?w1 = Returns (s1, f) w'" "s = Suc s1"
      using Cons.prems(2) st(1) w EStart by (auto simp: c_return_def elim!: c_bind_ReturnsE)
    moreover have "timer_inv armed period usable tid ?w1" using st i by (simp add: timer_inv_def)
    ultimately show ?thesis using Cons.IH [of ?w1 s1 f] w by auto
  next
    case EStop
    obtain k' where st: "pos_timer_stop_posix api (t, k) = Returns POS_OK (t\<lparr>tm_active := False\<rparr>, k')"
        "usable k' tid" "armed k' tid = None"
      using stop_disarms [OF i] by blast
    then have "timer_inv armed period usable tid (t\<lparr>tm_active := False\<rparr>, k')" using i by (simp add: timer_inv_def)
    then show ?thesis
      using Cons.IH [of "(t\<lparr>tm_active := False\<rparr>, k')" s f] Cons.prems(2) st(1) w EStop
      by (simp add: c_then_def c_bind_def)
  next
    case EExpire
    obtain k1 t2 k2 f1 where x: "expire tid k = Some k1"
        "call_tm_cb run_cb (t\<lparr>tm_active := False\<rparr>, k1) = Returns () (t2, k2)"
        "timer_run api expire run_cb es (t2, k2) = Returns (s, f1) w'" "f = Suc f1"
      using Cons.prems(2) w i(1) EExpire
      by (auto simp: prog_defs pos_timer_cb_posix_def split: option.splits outcome.splits)
    have "fst (t2, k2) = t\<lparr>tm_active := False\<rparr>" "armed k2 tid = armed k1 tid" "period k2 tid = period k1 tid" "usable k1 tid \<longrightarrow> usable k2 tid"
      using x(2) cb by (fastforce simp: call_tm_cb_def prog_defs split: option.splits)+
    with x(1) i expire_reloads [of k tid k1] Cons.prems(1) w have "timer_inv armed period usable tid (t2, k2)" "\<not> tm_active t2" "armed k tid \<noteq> None"
      by (auto simp: timer_inv_def)
    then show ?thesis
      using Cons.IH [of "(t2, k2)" s f1] x Cons.prems(1) w by (auto simp: timer_inv_def)
  qed
qed

end

interpretation ref_timer: posix_timer_kernel ref_timer_api ref_expire rt_armed rt_period rt_uptime_ok
proof (unfold_locales, goal_cases)
  case (1 k tid its)
  then show ?case by (simp add: ref_timer_api_def rt_uptime_ok_def)
next
  case (2 k tid k')
  then show ?case by (auto simp: ref_expire_def rt_uptime_ok_def split: option.splits)
next
  case (3 k tid)
  let ?n = "rt_now k"
  have "(m * 1000000 + b) div 1000000 = m + b div (1000000 :: nat)" for m b by simp
  from this [of "?n div 1000000000 * 1000" "?n mod 1000000000"]
  have "?n div 1000000000 * 1000 + ?n mod 1000000000 div 1000000 = ?n div 1000000"
    using div_mult_mod_eq [of ?n 1000000000] by (simp only: mult.assoc) simp
  moreover have "?n div 1000000 < 4294967296"
    using 3 by (simp add: rt_uptime_ok_def less_mult_imp_div_less)
  ultimately have "int (?n div 1000000000 * 1000 + ?n mod 1000000000 div 1000000) < 4294967296"
    by linarith
  then show ?case
    by (auto simp: ref_timer_api_def timespec_of_ns_def valid_timespec_def zdiv_int zmod_int)
qed

lemma ref_timer_simps:
  "timer_settime ref_timer_api tid flags its k =
     (if \<not> valid_timespec (it_value its) then Returns (- 1) k
      else Returns 0 (k\<lparr>rt_armed := (rt_armed k)(tid :=
             if instant_ns (it_value its) = 0 then None else Some (instant_ns (it_value its))),
             rt_period := (rt_period k)(tid := instant_ns (it_interval its))\<rparr>))"
  "clock_monotonic ref_timer_api k = Returns (0, timespec_of_ns (rt_now k)) k"
  by (simp_all add: ref_timer_api_def)

lemma ref_timer_clock0:
  assumes "rt_now k = 0"
  shows "pos_time_get_posix (clock_monotonic ref_timer_api) k = Returns 0 k"
  using pos_time_get_posix_eq [of "clock_monotonic ref_timer_api" k "timespec_of_ns 0" k] assms
  by (simp add: ref_timer_simps timespec_of_ns_def valid_timespec_def)

section \<open>Properties\<close>

text \<open>Starting an initialised POSIX timer arms the system's timer for exactly the requested
  number of milliseconds (one for zero), marks it active and records the expiry tick, wrapping at 32
  bits; stopping it disarms it and clears the flag.\<close>

theorem posix_timer_start_stop:
  assumes "posix_timer_kernel api expire armed period usable" and "tm_timer t = Some tid" and "usable k tid"
  shows "(\<exists>now k'. pos_time_get_posix (clock_monotonic api) k = Returns now k \<and>
            pos_timer_start_ms_posix api ticks (t, k) =
              Returns POS_OK (t\<lparr>tm_ticks := now + max 1 ticks, tm_active := True\<rparr>, k') \<and>
            armed k' tid = Some (uint (max 1 ticks) * 1000000)) \<and>
         (\<exists>k'. pos_timer_stop_posix api (t, k) = Returns POS_OK (t\<lparr>tm_active := False\<rparr>, k') \<and>
            armed k' tid = None)"
  using posix_timer_kernel.start_arms [OF assms, of ticks] posix_timer_kernel.stop_disarms [OF assms]
  by (auto simp: pos_timer_start_ms_posix_def)

theorem posix_timer_start_stop_witness:
  "\<exists>now k'. pos_timer_start_ms_posix ref_timer_api 250
      (timer_zero\<lparr>tm_timer := Some 4\<rparr>, \<lparr>rt_armed = \<lambda>_. None, rt_period = \<lambda>_. 0, rt_live = \<lambda>_. True, rt_now = 7000000\<rparr>) =
     Returns POS_OK (timer_zero\<lparr>tm_timer := Some 4, tm_ticks := now + 250, tm_active := True\<rparr>, k') \<and>
     rt_armed k' 4 = Some 250000000"
  using posix_timer_start_stop [OF ref_timer.posix_timer_kernel_axioms,
      of "timer_zero\<lparr>tm_timer := Some 4\<rparr>" 4 "\<lparr>rt_armed = \<lambda>_. None, rt_period = \<lambda>_. 0, rt_live = \<lambda>_. True, rt_now = 7000000\<rparr>" 250]
  by (auto simp: rt_uptime_ok_def max_def)

text \<open>Over any life of a POSIX timer (starts, restarts, stops, expirations) whose callback leaves
  the timer alone, the active flag tells exactly whether the timer is armed, and no start leads to
  more than one callback.\<close>

theorem posix_timer_one_shot:
  assumes "posix_timer_kernel api expire armed period usable"
    and "\<And>f a w w'. run_cb f a w = Returns () w' \<Longrightarrow> fst w' = fst w \<and>
           armed (snd w') tid = armed (snd w) tid \<and> period (snd w') tid = period (snd w) tid \<and>
           (usable (snd w) tid \<longrightarrow> usable (snd w') tid)"
    and "timer_inv armed period usable tid w" and "\<not> tm_active (fst w)"
    and "timer_run api expire run_cb es w = Returns (starts, fired) w'"
  shows "timer_inv armed period usable tid w' \<and> fired + (if tm_active (fst w') then 1 else 0) \<le> starts"
  using posix_timer_kernel.timer_run_inv [OF assms(1,2,3,5)] assms(4) by simp

theorem posix_timer_one_shot_witness:
  "\<exists>starts fired w'. timer_run ref_timer_api ref_expire (\<lambda>(f :: nat) (a :: nat option) w. Returns () w)
       [EStart 5, EStart 9, EExpire, EStart 1]
       (timer_zero\<lparr>tm_cb := Some 3, tm_timer := Some 4\<rparr>, \<lparr>rt_armed = \<lambda>_. None, rt_period = \<lambda>_. 0, rt_live = \<lambda>_. True, rt_now = 0\<rparr>) =
       Returns (starts, fired) w' \<and> fired + (if tm_active (fst w') then 1 else 0) \<le> starts"
proof -
  let ?cb = "\<lambda>(f :: nat) (a :: nat option) (w :: (nat, nat, nat) pos_timer_posix \<times> ref_timers). Returns () w"
  let ?w = "(timer_zero\<lparr>tm_cb := Some 3, tm_timer := Some 4\<rparr>, \<lparr>rt_armed = \<lambda>_. None, rt_period = \<lambda>_. 0, rt_live = \<lambda>_. True, rt_now = 0\<rparr>)"
  obtain starts fired w' where run: "timer_run ref_timer_api ref_expire ?cb
      [EStart 5, EStart 9, EExpire, EStart 1] ?w = Returns (starts, fired) w'"
    by (simp add: pos_timer_start_posix_def pos_timer_cb_posix_def call_tm_cb_def prog_defs Let_def
        ref_timer_clock0 timer_zero_def ref_timer_simps ref_expire_def one_shot_def valid_timespec_def
        instant_ns_def)
  have "timer_inv rt_armed rt_period rt_uptime_ok 4 ?w" "\<not> tm_active (fst ?w)"
    by (simp_all add: timer_inv_def timer_zero_def rt_uptime_ok_def)
  from posix_timer_one_shot [OF ref_timer.posix_timer_kernel_axioms, of ?cb, OF _ this run] run
  show ?thesis by auto
qed

text \<open>Two failures of the POSIX timer: a start whose \<open>timer_settime\<close> fails reports \<open>POS_EINVAL\<close> but
  leaves the timer marked active; and \<open>pos_timer_remaining_ticks\<close> compares the relative time that is
  left with an absolute time, so it answers zero for a running timer as soon as the clock
  has passed the remaining whole seconds.\<close>

theorem posix_timer_faults:
  assumes "tm_timer t = Some tid" and "pos_time_get_posix (clock_monotonic api) k = Returns now k1"
    and "\<And>its. timer_settime api tid 0 its k1 = Returns (- 1) k2"
    and "timer_gettime api tid k = Returns (0, its) k"
    and "uint now \<ge> tv_sec (it_value its) * 1000" and "0 \<le> tv_sec (it_value its)"
  shows "(\<exists>t'. pos_timer_start_posix api ticks (t, k) = Returns POS_EINVAL (t', k2) \<and>
               pos_timer_is_active_posix t') \<and>
         pos_timer_remaining_ticks_posix api now (t, k) = Returns 0 (t, k)"
proof
  show "\<exists>t'. pos_timer_start_posix api ticks (t, k) = Returns POS_EINVAL (t', k2) \<and>
      pos_timer_is_active_posix t'"
    using assms(1-3)
    by (simp add: pos_timer_start_posix_def prog_defs Let_def pos_timer_is_active_posix_def)
  let ?r = "tv_sec (it_value its) * 1000"
  have "?r < 2 ^ 32" using assms(5) unsigned_less [of now, where 'a = int] by simp
  moreover have "0 \<le> ?r" using assms(6) by simp
  ultimately have "uint (word_of_int ?r :: u32) = ?r"
    by (intro word_of_int_inverse) (rule refl, assumption, simp)
  then have "\<not> now < word_of_int ?r" using assms(5) by (simp only: word_less_def)
  then show "pos_timer_remaining_ticks_posix api now (t, k) = Returns 0 (t, k)"
    using assms(1,4) by (simp add: pos_timer_remaining_ticks_posix_def prog_defs Let_def)
qed

theorem posix_timer_faults_witness:
  "\<exists>t'. pos_timer_start_posix (ref_timer_api\<lparr>timer_settime := \<lambda>_ _ _ k. Returns (- 1) k\<rparr>) 20
      (timer_zero\<lparr>tm_timer := Some 4\<rparr>, \<lparr>rt_armed = \<lambda>_. Some 500000000, rt_period = \<lambda>_. 0, rt_live = \<lambda>_. True, rt_now = 0\<rparr>) =
     Returns POS_EINVAL (t', \<lparr>rt_armed = \<lambda>_. Some 500000000, rt_period = \<lambda>_. 0, rt_live = \<lambda>_. True, rt_now = 0\<rparr>) \<and>
     pos_timer_is_active_posix t'"
proof -
  let ?k = "\<lparr>rt_armed = \<lambda>_. Some 500000000, rt_period = \<lambda>_. 0, rt_live = \<lambda>_. True, rt_now = 0\<rparr>"
  let ?api = "ref_timer_api\<lparr>timer_settime := \<lambda>_ _ _ k. Returns (- 1) k\<rparr>"
  have "pos_time_get_posix (clock_monotonic ?api) ?k = Returns 0 ?k" using ref_timer_clock0 [of ?k] by simp
  moreover have "timer_gettime ?api 4 ?k =
      Returns (0, \<lparr>it_interval = timespec_of_ns 0, it_value = timespec_of_ns 500000000\<rparr>) ?k"
    by (simp add: ref_timer_api_def)
  ultimately show ?thesis
    using posix_timer_faults [of "timer_zero\<lparr>tm_timer := Some 4\<rparr>" 4 ?api ?k 0 ?k ?k
        "\<lparr>it_interval = timespec_of_ns 0, it_value = timespec_of_ns 500000000\<rparr>" 20]
    by (auto simp: timespec_of_ns_def)
qed

end
