(* ===== verification/Posix_Task.thy ===== *)
theory Posix_Task
  imports Posix_Time
begin

text \<open>
  Tasks of the POSIX port, \<^verbatim>\<open>targets/posix/os_task.c\<close>, and \<open>pos_panic\<close> of
  \<^verbatim>\<open>targets/posix/os_panic.c\<close>.  The world of a task operation is the \<open>struct pos_task\<close>, the
  static counter \<open>s_task_count\<close> and the operating system.
\<close>

section \<open>Definitions\<close>

record sched_param =
  sched_priority :: int

datatype sched_policy = SCHED_OTHER | SCHED_RR

record ('h, 'a, 'f, 'p, 'k) pthread_api =
  pthread_attr_init :: "'a \<Rightarrow> (int, 'k) prog"
  pthread_attr_getschedparam :: "'a \<Rightarrow> (int \<times> sched_param, 'k) prog"
  pthread_attr_setschedpolicy :: "'a \<Rightarrow> sched_policy \<Rightarrow> (int, 'k) prog"
  pthread_attr_setstacksize :: "'a \<Rightarrow> nat \<Rightarrow> (int, 'k) prog"
  pthread_attr_setschedparam :: "'a \<Rightarrow> sched_param \<Rightarrow> (int, 'k) prog"
  pthread_create :: "'a \<Rightarrow> 'f \<Rightarrow> 'p option \<Rightarrow> (int \<times> 'h option, 'k) prog"
  pthread_cancel :: "'h \<Rightarrow> (int, 'k) prog"
  pthread_self :: "'k \<Rightarrow> 'h"
  sched_yield :: "(int, 'k) prog"

record ('h, 'a) pos_task_posix =
  pt_handle :: "'h option"
  pt_attr :: 'a
  pt_param :: sched_param
  pt_name :: "string option"

type_synonym ('h, 'a, 'k) task_world = "('h, 'a) pos_task_posix \<times> int \<times> 'k"

text \<open>A library call, and the updates of \<open>s_task_count\<close> (a C \<open>int\<close>; overflow is undefined).\<close>

definition tcall :: "('r, 'k) prog \<Rightarrow> ('r, ('h, 'a, 'k) task_world) prog" where
  "tcall f = kcall (kcall f)"

definition add_task_count :: "int \<Rightarrow> (unit, ('h, 'a, 'k) task_world) prog" where
  "add_task_count d =
     c_bind (kcall (get_obj id)) (\<lambda>n.
       if - (2 ^ 31) \<le> n + d \<and> n + d < 2 ^ 31 then kcall (upd_obj (\<lambda>n. n + d))
       else c_stop Undefined_Behaviour)"

text \<open>
  \<open>stack_size = (stack_size < PTHREAD_STACK_MIN) ? PTHREAD_STACK_MIN : stack_size\<close>: the
  result is stored in the 16-bit parameter.  The minimum is a constant of the C library.
\<close>

definition clamp_stack_size :: "nat \<Rightarrow> u16 \<Rightarrow> u16" where
  "clamp_stack_size stack_min stack_size =
     (if unat stack_size < stack_min then word_of_nat stack_min else stack_size)"

text \<open>\<open>t_null\<close>: the caller passed a null task pointer.\<close>

definition pos_task_init_posix ::
    "('h, 'a, 'f, 'p, 'k) pthread_api \<Rightarrow> nat \<Rightarrow> bool \<Rightarrow> string option \<Rightarrow> 'f option \<Rightarrow> 'p option \<Rightarrow>
     u8 \<Rightarrow> u16 \<Rightarrow> (pos_error, ('h, 'a, 'k) task_world) prog" where
  "pos_task_init_posix api stack_min t_null name func arg prio stack_size =
     (case func of
        None \<Rightarrow> c_return POS_INVALID_PARAM
      | Some f \<Rightarrow>
        if t_null then c_return POS_INVALID_PARAM
        else
          c_bind (get_obj pt_attr) (\<lambda>attr.
          c_bind
            (SuccessOrExit (tcall (pthread_attr_init api attr))
            (SuccessOrExit
              (c_bind (tcall (pthread_attr_getschedparam api attr)) (\<lambda>(ret, param).
               c_then (upd_obj (\<lambda>t. t\<lparr>pt_param := param\<rparr>)) (c_return ret)))
            (SuccessOrExit (tcall (pthread_attr_setschedpolicy api attr SCHED_RR))
            (SuccessOrExit
              (tcall (pthread_attr_setstacksize api attr (unat (clamp_stack_size stack_min stack_size))))
            (SuccessOrExit
              (c_then (upd_obj (\<lambda>t. t\<lparr>pt_param := (pt_param t)\<lparr>sched_priority := uint prio\<rparr>\<rparr>))
              (c_bind (get_obj pt_param) (\<lambda>param.
               tcall (pthread_attr_setschedparam api attr param))))
            (SuccessOrExit
              (c_then (upd_obj (\<lambda>t. t\<lparr>pt_name := name\<rparr>))
              (c_bind (tcall (pthread_create api attr f arg)) (\<lambda>(ret, h).
               c_then (upd_obj (\<lambda>t. t\<lparr>pt_handle := h\<rparr>)) (c_return ret))))
            (c_then (add_task_count 1) (c_return 0))))))))
            (\<lambda>ret. c_return (map_posix_to_osal_error ret))))"

definition pos_task_remove_posix ::
    "('h, 'a, 'f, 'p, 'k) pthread_api \<Rightarrow> bool \<Rightarrow> (pos_error, ('h, 'a, 'k) task_world) prog" where
  "pos_task_remove_posix api t_null =
     c_bind
       (SuccessOrExit (c_return (if t_null then EINVAL else 0))
       (c_bind (get_obj pt_handle) (\<lambda>handle.
          case handle of
            None \<Rightarrow> c_return EINVAL
          | Some h \<Rightarrow>
              SuccessOrExit (tcall (pthread_cancel api h))
                (c_then (add_task_count (- 1)) (c_return 0)))))
       (\<lambda>ret. c_return (map_posix_to_osal_error ret))"

definition pos_task_count_posix :: "int \<Rightarrow> u8" where
  "pos_task_count_posix s_task_count = word_of_int s_task_count"

definition pos_get_current_task_id_posix :: "('h, 'a, 'f, 'p, 'k) pthread_api \<Rightarrow> ('h, 'k) prog" where
  "pos_get_current_task_id_posix api = c_gets (pthread_self api)"

definition pos_task_yield_posix :: "('h, 'a, 'f, 'p, 'k) pthread_api \<Rightarrow> (unit, 'k) prog" where
  "pos_task_yield_posix api = c_then (sched_yield api) (c_return ())"

definition pos_sched_started_posix :: bool where
  "pos_sched_started_posix = True"

text \<open>
  \<open>pos_sched_start\<close> yields forever: after \<open>fuel\<close> rounds it is still running, which is the
  outcome \<open>Blocked\<close> here.
\<close>

fun pos_sched_start_posix :: "nat \<Rightarrow> ('h, 'a, 'f, 'p, 'k) pthread_api \<Rightarrow> (unit, 'k) prog" where
  "pos_sched_start_posix 0 api = c_stop Blocked"
| "pos_sched_start_posix (Suc fuel) api =
     c_then (pos_task_yield_posix api) (pos_sched_start_posix fuel api)"

subsection \<open>Sleeping\<close>

text \<open>\<open>nanosleep(&request, &remaining)\<close>: status and the time that remained; and \<open>errno\<close>.\<close>

record 'k sleep_api =
  nanosleep :: "timespec \<Rightarrow> (int \<times> timespec, 'k) prog"
  sleep_errno :: "'k \<Rightarrow> int"

text \<open>The loop runs once more for every interruption by a signal; \<open>fuel\<close> bounds the rounds.\<close>

fun sleep_loop :: "nat \<Rightarrow> 'k sleep_api \<Rightarrow> timespec \<Rightarrow> (unit, 'k) prog" where
  "sleep_loop 0 api sleep_time = c_stop Blocked"
| "sleep_loop (Suc fuel) api sleep_time =
     c_bind (nanosleep api sleep_time) (\<lambda>(ret, remaining).
     c_bind (c_gets (sleep_errno api)) (\<lambda>errno.
       if ret = - 1 \<and> errno = EINTR then sleep_loop fuel api remaining else c_return ()))"

definition pos_task_sleep_ms_posix :: "nat \<Rightarrow> 'k sleep_api \<Rightarrow> pos_time \<Rightarrow> (unit, 'k) prog" where
  "pos_task_sleep_ms_posix fuel api ms =
     sleep_loop fuel api \<lparr>tv_sec = uint (ms div 1000), tv_nsec = uint ((ms mod 1000) * 1000000)\<rparr>"

definition pos_task_sleep_posix :: "nat \<Rightarrow> 'k sleep_api \<Rightarrow> pos_time \<Rightarrow> (unit, 'k) prog" where
  "pos_task_sleep_posix fuel api ticks =
     c_bind (pos_time_ticks_to_ms_posix ticks) (pos_task_sleep_ms_posix fuel api)"

subsection \<open>Panic\<close>

text \<open>The world is the text written to \<open>stderr\<close> so far; afterwards the program aborts.\<close>

definition pos_panic_posix :: "string option \<Rightarrow> (unit, string) prog" where
  "pos_panic_posix msg =
     c_then
       (case msg of
          None \<Rightarrow> c_return ()
        | Some m \<Rightarrow> c_modify (\<lambda>err. err @ ''POSKI PANIC: '' @ m @ [CHR 0x0A]))
       (c_stop Halted)"

subsection \<open>Sequences of task calls\<close>

text \<open>
  A program creates and removes tasks: each call names the task object, the slot \<open>i\<close> of a
  table of task structs.  The record counts the successful creations and removals.
\<close>

datatype ('f, 'p) task_call =
    TInit nat "string option" "'f option" "'p option" u8 u16
  | TRemove nat

fun task_run ::
    "('h, 'a, 'f, 'p, 'k) pthread_api \<Rightarrow> nat \<Rightarrow> ('f, 'p) task_call list \<Rightarrow>
     (int, (nat \<Rightarrow> ('h, 'a) pos_task_posix) \<times> int \<times> 'k) prog" where
  "task_run api stack_min [] = c_return 0"
| "task_run api stack_min (TInit i name func arg prio stack_size # cs) =
     c_bind (on_obj i (pos_task_init_posix api stack_min False name func arg prio stack_size)) (\<lambda>e.
     c_bind (task_run api stack_min cs) (\<lambda>n. c_return (if e = POS_OK then n + 1 else n)))"
| "task_run api stack_min (TRemove i # cs) =
     c_bind (on_obj i (pos_task_remove_posix api False)) (\<lambda>e.
     c_bind (task_run api stack_min cs) (\<lambda>n. c_return (if e = POS_OK then n - 1 else n)))"

subsection \<open>A reference model of the sleeping calls\<close>

text \<open>Time slept so far and the delays after which signals arrive.\<close>

record ref_sleeper =
  rsl_slept :: int
  rsl_signals :: "nat list"
  rsl_errno :: int

definition ref_sleep_api :: "ref_sleeper sleep_api" where
  "ref_sleep_api =
     \<lparr>nanosleep = (\<lambda>ts k.
        case rsl_signals k of
          [] \<Rightarrow> Returns (0, ts) (k\<lparr>rsl_slept := rsl_slept k + instant_ns ts\<rparr>)
        | p # ps \<Rightarrow>
            if int p < instant_ns ts
            then Returns (- 1, timespec_of_ns (nat (instant_ns ts - int p)))
                   (k\<lparr>rsl_slept := rsl_slept k + int p, rsl_signals := ps, rsl_errno := EINTR\<rparr>)
            else Returns (0, ts) (k\<lparr>rsl_slept := rsl_slept k + instant_ns ts\<rparr>)),
      sleep_errno = rsl_errno\<rparr>"

text \<open>An API of threads that records nothing but the number of live threads.\<close>

definition ref_pthread_api :: "(nat, nat, nat, nat, nat) pthread_api" where
  "ref_pthread_api =
     \<lparr>pthread_attr_init = (\<lambda>a k. Returns 0 k),
      pthread_attr_getschedparam = (\<lambda>a k. Returns (0, \<lparr>sched_priority = 0\<rparr>) k),
      pthread_attr_setschedpolicy = (\<lambda>a p k. Returns 0 k),
      pthread_attr_setstacksize = (\<lambda>a n k. Returns (if n < 16384 then EINVAL else 0) k),
      pthread_attr_setschedparam = (\<lambda>a p k. Returns 0 k),
      pthread_create = (\<lambda>a f x k. Returns (0, Some (Suc k)) (Suc k)),
      pthread_cancel = (\<lambda>h k. Returns 0 k),
      pthread_self = (\<lambda>k. 0),
      sched_yield = (\<lambda>k. Returns 0 k)\<rparr>"

definition ref_task :: "(nat, nat) pos_task_posix" where
  "ref_task = \<lparr>pt_handle = None, pt_attr = 0, pt_param = \<lparr>sched_priority = 0\<rparr>, pt_name = None\<rparr>"

section \<open>Creation and removal\<close>

lemmas task_prog_defs = tcall_def add_task_count_def SuccessOrExit_def prog_defs

lemma pos_task_init_posix_returns:
  assumes "pos_task_init_posix api stack_min False name (Some f) arg prio stack_size (t, n, k) =
             Returns e (t', n', k')"
  shows "pt_attr t' = pt_attr t \<and>
         (if e = POS_OK
          then n' = n + 1 \<and> pt_name t' = name \<and> sched_priority (pt_param t') = uint prio \<and>
               (\<exists>k1. pthread_create api (pt_attr t) f arg k1 = Returns (0, pt_handle t') k')
          else n' = n)"
  using assms
  by (auto simp: pos_task_init_posix_def task_prog_defs map_posix_to_osal_error_OK
      split: outcome.splits prod.splits if_splits)

lemma pos_task_init_posix_refuses:
  "func = None \<or> t_null \<Longrightarrow>
   pos_task_init_posix api stack_min t_null name func arg prio stack_size w = Returns POS_INVALID_PARAM w"
  by (auto simp: pos_task_init_posix_def c_return_def split: option.split)

lemma pos_task_remove_posix_returns:
  assumes "pos_task_remove_posix api t_null (t, n, k) = Returns e (t', n', k')"
  shows "t' = t \<and>
         (if e = POS_OK then n' = n - 1 \<and> \<not> t_null \<and> pt_handle t \<noteq> None else n' = n)"
  using assms
  by (auto simp: pos_task_remove_posix_def task_prog_defs map_posix_to_osal_error_OK
      split: outcome.splits option.splits if_splits)

lemma task_remove_count:
  assumes "on_obj i (pos_task_remove_posix api False) (ts, n, k) = Returns e (ts', n', k')"
  shows "n' = (if e = POS_OK then n - 1 else n)"
  using on_obj_returns [OF assms] pos_task_remove_posix_returns [of api False "ts i" n k e _ n' k']
  by (auto split: if_splits)

lemma task_init_count:
  assumes "on_obj i (pos_task_init_posix api stack_min False name func arg prio stack_size) (ts, n, k) =
             Returns e (ts', n', k')"
  shows "n' = (if e = POS_OK then n + 1 else n)"
proof (cases func)
  case None
  then show ?thesis using on_obj_returns [OF assms] by (auto simp: pos_task_init_posix_refuses)
next
  case (Some f)
  then show ?thesis
    using on_obj_returns [OF assms]
      pos_task_init_posix_returns [of api stack_min name f arg prio stack_size "ts i" n k e _ n' k']
    by (auto split: if_splits)
qed

lemma task_run_count:
  assumes "task_run api stack_min cs (ts, n, k) = Returns d (ts', n', k')"
  shows "n' = n + d"
  using assms
proof (induction cs arbitrary: ts n k d)
  case Nil
  then show ?case by (simp add: c_return_def)
next
  case (Cons c cs)
  show ?case
  proof (cases c)
    case (TInit i name func arg prio stack_size)
    obtain e ts1 n1 k1 d1 where 1:
        "on_obj i (pos_task_init_posix api stack_min False name func arg prio stack_size) (ts, n, k) =
           Returns e (ts1, n1, k1)"
        "task_run api stack_min cs (ts1, n1, k1) = Returns d1 (ts', n', k')"
        "d = (if e = POS_OK then d1 + 1 else d1)"
      using Cons.prems by (auto simp: TInit c_return_def elim!: c_bind_ReturnsE)
    then show ?thesis using task_init_count [OF 1(1)] Cons.IH [OF 1(2)] by simp
  next
    case (TRemove i)
    obtain e ts1 n1 k1 d1 where 1:
        "on_obj i (pos_task_remove_posix api False) (ts, n, k) = Returns e (ts1, n1, k1)"
        "task_run api stack_min cs (ts1, n1, k1) = Returns d1 (ts', n', k')"
        "d = (if e = POS_OK then d1 - 1 else d1)"
      using Cons.prems by (auto simp: TRemove c_return_def elim!: c_bind_ReturnsE)
    then show ?thesis using task_remove_count [OF 1(1)] Cons.IH [OF 1(2)] by simp
  qed
qed

section \<open>Sleeping\<close>

text \<open>
  The documented behaviour of \<open>nanosleep\<close>: it sleeps at least as long as requested, or it is
  interrupted and reports what remains.  \<open>slept k\<close> is the time slept so far in nanoseconds,
  \<open>signals k\<close> the number of signals still to come (finitely many during a sleep).
\<close>

locale posix_sleep_kernel =
  fixes api :: "'k sleep_api"
    and slept :: "'k \<Rightarrow> int"
    and signals :: "'k \<Rightarrow> nat"
  assumes nanosleep_returns:
      "valid_timespec ts \<Longrightarrow> 0 \<le> tv_sec ts \<Longrightarrow>
       (\<exists>rem k'. nanosleep api ts k = Returns (0, rem) k' \<and> slept k + instant_ns ts \<le> slept k') \<or>
       (\<exists>rem k'. nanosleep api ts k = Returns (- 1, rem) k' \<and> sleep_errno api k' = EINTR \<and>
          valid_timespec rem \<and> 0 \<le> tv_sec rem \<and>
          slept k + instant_ns ts \<le> slept k' + instant_ns rem \<and> signals k' < signals k)"
begin

lemma sleep_loop_total:
  assumes "valid_timespec ts" and "0 \<le> tv_sec ts" and "signals k < fuel"
  shows "\<exists>k'. sleep_loop fuel api ts k = Returns () k' \<and> slept k + instant_ns ts \<le> slept k'"
  using assms
proof (induction fuel arbitrary: ts k)
  case 0
  then show ?case by simp
next
  case (Suc fuel)
  from nanosleep_returns [OF Suc.prems(1,2), of k] show ?case
  proof (elim disjE exE conjE)
    fix rem k'
    assume "nanosleep api ts k = Returns (0, rem) k'" "slept k + instant_ns ts \<le> slept k'"
    then show ?thesis by (simp add: prog_defs)
  next
    fix rem k'
    assume r: "nanosleep api ts k = Returns (- 1, rem) k'" "sleep_errno api k' = EINTR"
      "valid_timespec rem" "0 \<le> tv_sec rem" "slept k + instant_ns ts \<le> slept k' + instant_ns rem"
      "signals k' < signals k"
    then obtain k2 where "sleep_loop fuel api rem k' = Returns () k2" "slept k' + instant_ns rem \<le> slept k2"
      using Suc.IH [of rem k'] Suc.prems(3) by auto
    with r show ?thesis by (auto simp: prog_defs)
  qed
qed

end

lemma sleep_request:
  fixes ms :: pos_time
  defines "ts \<equiv> \<lparr>tv_sec = uint (ms div 1000), tv_nsec = uint ((ms mod 1000) * 1000000)\<rparr>"
  shows "valid_timespec ts \<and> 0 \<le> tv_sec ts \<and> instant_ns ts = uint ms * 1000000"
proof -
  have "ts = deadline_after \<lparr>tv_sec = 0, tv_nsec = 0\<rparr> ms" by (simp add: ts_def deadline_after_def)
  moreover have "uint ms mod 1000 * 1000000 < 1000000000" using pos_mod_bound [of 1000 "uint ms"] by simp
  moreover have "0 \<le> tv_sec ts" by (simp add: ts_def)
  ultimately show ?thesis
    using deadline_after_instant [of "\<lparr>tv_sec = 0, tv_nsec = 0\<rparr>" ms]
      deadline_after_valid_iff [of "\<lparr>tv_sec = 0, tv_nsec = 0\<rparr>" ms]
    by (simp add: instant_ns_def valid_timespec_def)
qed

interpretation ref_sleep: posix_sleep_kernel ref_sleep_api rsl_slept "\<lambda>k. length (rsl_signals k)"
proof (unfold_locales, goal_cases)
  case (1 ts k)
  have "instant_ns (timespec_of_ns n) = int n" for n
    by (simp add: instant_ns_def timespec_of_ns_def zdiv_int zmod_int)
  moreover have "0 \<le> tv_sec (timespec_of_ns n)" for n by (simp add: timespec_of_ns_def)
  ultimately show ?case
    by (auto simp: ref_sleep_api_def split: list.split)
qed

section \<open>Properties\<close>

text \<open>Creating a POSIX task is all or nothing with respect to the count: a success means that
  \<open>pthread_create\<close> started the given function with the given argument, that the struct holds
  the new handle, the name and the priority, and that exactly one task was added; any
  error leaves the count as it was.\<close>

theorem posix_task_init_outcome:
  assumes "pos_task_init_posix api stack_min False name (Some f) arg prio stack_size (t, n, k) =
             Returns e (t', n', k')"
  shows "(e = POS_OK \<longrightarrow> n' = n + 1 \<and> pt_name t' = name \<and> sched_priority (pt_param t') = uint prio \<and>
            (\<exists>k1. pthread_create api (pt_attr t) f arg k1 = Returns (0, pt_handle t') k')) \<and>
         (e \<noteq> POS_OK \<longrightarrow> n' = n)"
  using pos_task_init_posix_returns [OF assms] by simp

theorem posix_task_init_outcome_witness:
  "\<exists>t'. pos_task_init_posix ref_pthread_api 16384 False (Some ''rx'') (Some 7) None 3 2048 (ref_task, 4, 0) =
     Returns POS_OK (t', 5, 1) \<and> pt_handle t' = Some 1"
proof -
  obtain t' where t': "pos_task_init_posix ref_pthread_api 16384 False (Some ''rx'') (Some 7) None 3 2048
      (ref_task, 4, 0) = Returns POS_OK (t', 5, 1)"
    by (simp add: pos_task_init_posix_def task_prog_defs ref_pthread_api_def clamp_stack_size_def
        ref_task_def)
  from posix_task_init_outcome [OF t'] t' show ?thesis by (auto simp: ref_pthread_api_def)
qed

text \<open>C32. The task counter is exact: after any sequence of task creations and removals on any task
  objects it has changed by the successful creations less the successful removals, and
  \<open>pos_task_count\<close> reports it modulo 256.\<close>

theorem posix_task_count_exact:
  assumes "task_run api stack_min cs (ts, n, k) = Returns d (ts', n', k')"
  shows "n' = n + d \<and> unat (pos_task_count_posix n') = nat ((n + d) mod 256)"
proof -
  have "unat (word_of_int m :: u8) = nat (m mod 256)" for m
    by (simp add: unsigned_of_int take_bit_eq_mod)
  then show ?thesis using task_run_count [OF assms] by (simp only: pos_task_count_posix_def)
qed

theorem posix_task_count_exact_witness:
  "\<exists>ts' n' k'. task_run ref_pthread_api 16384
      [TInit 0 None (Some 7) None 1 0, TInit 1 None None None 1 0, TRemove 0, TRemove 2] (\<lambda>_. ref_task, 300, 0) =
      Returns 0 (ts', n', k') \<and> n' = 300 \<and> unat (pos_task_count_posix n') = 44"
proof -
  obtain ts' n' k' where run: "task_run ref_pthread_api 16384
      [TInit 0 None (Some 7) None 1 0, TInit 1 None None None 1 0, TRemove 0, TRemove 2] (\<lambda>_. ref_task, 300, 0) =
      Returns 0 (ts', n', k')"
    by (simp add: pos_task_init_posix_def pos_task_remove_posix_def on_obj_def task_prog_defs
        ref_pthread_api_def clamp_stack_size_def ref_task_def)
  from posix_task_count_exact [OF run] run show ?thesis by auto
qed

text \<open>C31. A sleep returns, whatever signals interrupt it: as soon as the number of rounds exceeds the
  number of signals, the loop ends, and the task has slept at least the requested
  milliseconds; \<open>pos_task_sleep\<close> does the same for ticks.\<close>

theorem posix_sleep_total:
  assumes "posix_sleep_kernel api slept signals" and "signals k < fuel"
  shows "\<exists>k'. pos_task_sleep_ms_posix fuel api ms k = Returns () k' \<and>
              pos_task_sleep_posix fuel api ms k = Returns () k' \<and>
              slept k + uint ms * 1000000 \<le> slept k'"
  using posix_sleep_kernel.sleep_loop_total [OF assms(1) _ _ assms(2),
      of "\<lparr>tv_sec = uint (ms div 1000), tv_nsec = uint ((ms mod 1000) * 1000000)\<rparr>"] sleep_request [of ms]
  by (simp add: pos_task_sleep_ms_posix_def pos_task_sleep_posix_def)

theorem posix_sleep_total_witness:
  "\<exists>k'. pos_task_sleep_ms_posix 3 ref_sleep_api 1500
      \<lparr>rsl_slept = 0, rsl_signals = [10, 1000000], rsl_errno = 0\<rparr> = Returns () k' \<and>
     1500000000 \<le> rsl_slept k'"
  using posix_sleep_total [OF ref_sleep.posix_sleep_kernel_axioms,
      of "\<lparr>rsl_slept = 0, rsl_signals = [10, 1000000], rsl_errno = 0\<rparr>" 3 1500] by auto

text \<open>The stack size passed to the system is at least the requested one and at least the system's
  minimum when that minimum fits 16 bits; a larger minimum is cut to 16 bits.\<close>

theorem posix_stack_clamp:
  "unat (clamp_stack_size stack_min stack_size) =
     (if stack_min < 65536 then max stack_min (unat stack_size)
      else stack_min mod 65536)"
proof -
  have "unat stack_size < 65536" by (rule unat_u16_less)
  then show ?thesis by (auto simp: clamp_stack_size_def unsigned_of_nat take_bit_eq_mod max_def)
qed

end
