(* ===== verification/Conform_Timer.thy ===== *)
theory Conform_Timer
  imports Osal_Api Posix_Timer Posix_Task Freertos_Timer Zephyr_Task Rtt_Port
begin

text \<open>
  The timers of the four ports against the documentation of \<^verbatim>\<open>os_timer.h\<close>, and the functions
  that never return.  A timer is seen as the ticks until it expires.  RT-Thread has no stop function.  On FreeRTOS ticks
  have any width.
\<close>

section \<open>Definitions\<close>

text \<open>Reference kernels with one table of remaining ticks, for Zephyr and RT-Thread.\<close>

definition ref_zephyr_timer :: "(nat, nat \<Rightarrow> u32 option) zephyr_timer_api" where
  "ref_zephyr_timer =
     \<lparr>k_timer_init = (\<lambda>m k. Returns () (k(m := None))),
      k_timer_start = (\<lambda>m d p k. Returns () (k(m := (case d of K_TICKS n \<Rightarrow> Some n | K_MSEC n \<Rightarrow> Some n | _ \<Rightarrow> None)))),
      k_timer_stop = (\<lambda>m k. Returns () (k(m := None))),
      k_timer_remaining_ticks = (\<lambda>m. c_gets (\<lambda>k. case k m of None \<Rightarrow> 0 | Some n \<Rightarrow> ucast n))\<rparr>"

record ref_rtimers =
  rrt_time :: "nat \<Rightarrow> u32"
  rrt_left :: "nat \<Rightarrow> u32 option"

definition ref_rtt_timer :: "(nat, nat, nat, ref_rtimers) rtt_timer_api" where
  "ref_rtt_timer =
     \<lparr>rt_timer_create = (\<lambda>nm f a n k. Returns (Some 0) (k\<lparr>rrt_time := (rrt_time k)(0 := n), rrt_left := (rrt_left k)(0 := None)\<rparr>)),
      rt_timer_control_set_time = (\<lambda>h n k. case h of
          None \<Rightarrow> Stops Undefined_Behaviour
        | Some h \<Rightarrow> Returns RT_EOK (k\<lparr>rrt_time := (rrt_time k)(h := n)\<rparr>)),
      rt_timer_control_get_remain = (\<lambda>h now k. Returns now k),
      rt_timer_control_get_state = (\<lambda>h. c_gets (\<lambda>k. if rrt_left k h = None then 0 else RT_TIMER_FLAG_ACTIVATED)),
      rt_timer_start = (\<lambda>h k. case h of
          None \<Rightarrow> Stops Undefined_Behaviour
        | Some h \<Rightarrow> Returns RT_EOK (k\<lparr>rrt_left := (rrt_left k)(h := Some (rrt_time k h))\<rparr>))\<rparr>"

section \<open>The documented behaviour of the kernels' timers\<close>

text \<open>
  Zephyr: a timer started with a period of \<open>K_NO_WAIT\<close> is a one-shot timer; \<open>left k m\<close> is the number
  of ticks until it expires.
\<close>

locale zephyr_timer_kernel =
  fixes api :: "('m, 'k) zephyr_timer_api"
    and left :: "'k \<Rightarrow> 'm \<Rightarrow> u32 option"
  assumes zt_start:
      "0 < n \<Longrightarrow> \<exists>k'. k_timer_start api m (K_TICKS n) K_NO_WAIT k = Returns () k' \<and> left k' m = Some n"
    and zt_stop: "\<exists>k'. k_timer_stop api m k = Returns () k' \<and> left k' m = None"
    and zt_remaining:
      "k_timer_remaining_ticks api m k = Returns (case left k m of None \<Rightarrow> 0 | Some n \<Rightarrow> ucast n) k"

text \<open>RT-Thread: the duration is set by a control command and used by the next start.\<close>

locale rtt_timer_kernel =
  fixes api :: "('h, 'f, 'p, 'k) rtt_timer_api"
    and duration :: "'k \<Rightarrow> 'h \<Rightarrow> u32"
    and left :: "'k \<Rightarrow> 'h \<Rightarrow> u32 option"
  assumes rt_set_time:
      "\<exists>ret k'. rt_timer_control_set_time api (Some h) n k = Returns ret k' \<and> duration k' h = n"
    and rt_start:
      "\<exists>ret k'. rt_timer_start api (Some h) k = Returns ret k' \<and> left k' h = Some (duration k h)"
    and rt_state:
      "rt_timer_control_get_state api h k =
         Returns (if left k h = None then 0 else RT_TIMER_FLAG_ACTIVATED) k"

interpretation ref_zephyr_timer: zephyr_timer_kernel ref_zephyr_timer "\<lambda>k m. k m"
  by unfold_locales (simp_all add: ref_zephyr_timer_def c_gets_def)

interpretation ref_rtt_timer: rtt_timer_kernel ref_rtt_timer rrt_time rrt_left
  by unfold_locales (simp_all add: ref_rtt_timer_def c_gets_def)

section \<open>The ports meet the specification\<close>

lemma max_one_word: "(0 :: 'n::len word) < n \<Longrightarrow> max 1 n = n"
  by (simp add: max_def word_le_nat_alt word_less_nat_alt)

lemma start_doc_max:
  "pos_timer_start_doc n st (Inr (Some POS_OK)) (Some (unat (max 1 n)))"
  by (cases "n = 0") (simp_all add: pos_timer_start_doc_def max_one_word word_gt_0)

sublocale posix_timer_kernel \<subseteq> posix_timer: api_refinement
  "timer_step (pos_timer_start_posix api) (c_bind (pos_timer_stop_posix api) (\<lambda>e. c_return (Some e)))
     (get_obj pos_timer_is_active_posix)"
  "timer_doc [Some POS_OK]" "\<lambda>(t, k). map_option (\<lambda>ns. nat (ns div 1000000)) (armed k tid)"
  "timer_inv armed period usable tid" "\<lambda>_. True" for tid
proof (unfold_locales, goal_cases)
  case (1 w c)
  obtain t k where w: "w = (t, k)" by (cases w)
  with 1 have i: "tm_timer t = Some tid" "usable k tid" by (auto simp: timer_inv_def)
  show ?case
  proof (cases c)
    case (TStart n)
    from start_arms [OF i, of n] w i start_doc_max [of n] show ?thesis
      by (auto simp: TStart c_bind_def c_return_def timer_inv_def)
  next
    case TStop
    from stop_disarms [OF i] w i show ?thesis
      by (auto simp: TStop c_bind_def c_return_def timer_inv_def pos_timer_stop_doc_def)
  next
    case TIsActive
    with 1 w show ?thesis
      by (auto simp: c_bind_def c_return_def timer_inv_def get_obj_def pos_timer_is_active_posix_def)
  qed
qed

sublocale freertos_timer_kernel \<subseteq> freertos_timer: api_refinement
  "timer_step (pos_timer_start_freertos hw api junk) (pos_timer_stop_freertos api False)
     (pos_timer_is_active_freertos api False)"
  "timer_doc [Some POS_ENOMEM]" "\<lambda>(t, k). map_option (\<lambda>e. unat (e - tick k)) (expiry k h)"
  "\<lambda>(t, k). ft_handle t = Some h \<and> usable k h" "\<lambda>_. True" for junk h
proof (unfold_locales, goal_cases)
  case (1 w c)
  obtain t k where w: "w = (t, k)" by (cases w)
  with 1 have i: "ft_handle t = Some h" "usable k h" by auto
  show ?case
  proof (cases c)
    case (TStart n)
    from start_runs [OF i, of junk n] w i start_doc_max [of n] show ?thesis
      by (auto simp: TStart c_bind_def c_return_def)
  next
    case TStop
    from stop_status [OF i] w i show ?thesis
      by (auto simp: TStop c_bind_def c_return_def pos_timer_stop_doc_def)
  next
    case TIsActive
    with i w timer_active [OF i(2)] show ?thesis
      by (auto simp: prog_defs pos_timer_is_active_freertos_def assert_handle_def)
  qed
qed

sublocale zephyr_timer_kernel \<subseteq> zephyr_timer: api_refinement
  "timer_step (chip_os_timer_start_zephyr api) (c_bind (chip_os_timer_stop_zephyr api) (\<lambda>e. c_return (Some e)))
     (chip_os_timer_is_active_zephyr api)"
  "timer_doc [Some POS_OK]" "\<lambda>(t, k). map_option unat (left k m)"
  "\<lambda>(t, k). ztm_timer t = m \<and> left k m \<noteq> Some 0" "\<lambda>c. c \<noteq> TStart 0" for m
proof (unfold_locales, goal_cases)
  case (1 w c)
  obtain t k where w: "w = (t, k)" by (cases w)
  with 1 have i: "ztm_timer t = m" "left k m \<noteq> Some 0" by auto
  show ?case
  proof (cases c)
    case (TStart n)
    with 1 have "0 < n" by (simp add: word_gt_0)
    from zt_start [OF this, of m k] w i \<open>0 < n\<close> show ?thesis
      by (auto simp: TStart prog_defs chip_os_timer_start_zephyr_def pos_timer_start_doc_def)
  next
    case TStop
    from zt_stop [of m k] w i show ?thesis
      by (auto simp: TStop prog_defs chip_os_timer_stop_zephyr_def pos_timer_stop_doc_def)
  next
    case TIsActive
    have "0 < sint (ucast n :: 64 word)" if "n \<noteq> (0 :: u32)" for n
    proof -
      have "uint n < 4294967296" using unsigned_less [of n, where 'a = int] by simp
      moreover have "- 9223372036854775808 \<le> uint n" by (rule order_trans [OF _ unsigned_greater_eq]) simp
      ultimately have "signed_take_bit 63 (uint n) = uint n" by (intro signed_take_bit_int_eq_self) simp_all
      then have "sint (ucast n :: 64 word) = uint n" by (simp add: sint_uint uint_up_ucast is_up)
      with that show ?thesis by (simp add: uint_pos_iff unat_gt_0)
    qed
    with TIsActive i w zt_remaining [of m k] show ?thesis
      by (auto simp: prog_defs chip_os_timer_is_active_zephyr_def split: option.splits)
  qed
qed

sublocale rtt_timer_kernel \<subseteq> rtt_timer: api_refinement
  "timer_step (pos_timer_start_rtt api) stop (pos_timer_is_active_rtt api False)"
  "timer_doc []" "\<lambda>(t, k). map_option unat (left k h)"
  "\<lambda>(t, k). rtm_handle t = Some h" "\<lambda>c. c \<noteq> TStop" for stop h
proof (unfold_locales, goal_cases)
  case (1 w c)
  obtain t k where w: "w = (t, k)" by (cases w)
  with 1 have i: "rtm_handle t = Some h" by auto
  show ?case
  proof (cases c)
    case (TStart n)
    let ?n = "if n = 0 then 1 else n"
    obtain ret k1 where k1: "rt_timer_control_set_time api (Some h) ?n k = Returns ret k1" "duration k1 h = ?n"
      using rt_set_time by blast
    then obtain ret2 k2 where "rt_timer_start api (Some h) k1 = Returns ret2 k2" "left k2 h = Some ?n"
      using rt_start [of h k1] by auto
    with k1 i w show ?thesis
      by (auto simp: TStart prog_defs pos_timer_start_rtt_def pos_timer_start_doc_def Let_def split: if_splits)
  next
    case TIsActive
    with i w rt_state [of h k] show ?thesis
      by (auto simp: prog_defs pos_timer_is_active_rtt_def rtt_handle_def RT_TIMER_FLAG_ACTIVATED_def)
  qed (use 1 in simp)
qed

section \<open>Sequences of timer calls\<close>

context posix_timer_kernel
begin

lemma timer_documented:
  "timer_inv armed period usable tid w \<Longrightarrow>
   meets (timer_step (pos_timer_start_posix api) (c_bind (pos_timer_stop_posix api) (\<lambda>e. c_return (Some e)))
       (get_obj pos_timer_is_active_posix))
     (timer_doc [Some POS_OK]) (\<lambda>(t, k). map_option (\<lambda>ns. nat (ns div 1000000)) (armed k tid)) cs w"
  by (rule posix_timer.run_meets) simp_all

end

context freertos_timer_kernel
begin

lemma timer_documented:
  "ft_handle (fst w) = Some h \<Longrightarrow> usable (snd w) h \<Longrightarrow>
   meets (timer_step (pos_timer_start_freertos hw api junk) (pos_timer_stop_freertos api False)
       (pos_timer_is_active_freertos api False))
     (timer_doc [Some POS_ENOMEM]) (\<lambda>(t, k). map_option (\<lambda>e. unat (e - tick k)) (expiry k h)) cs w"
  by (rule freertos_timer.run_meets) (auto split: prod.split)

end

context zephyr_timer_kernel
begin

lemma timer_documented:
  "left (snd w) (ztm_timer (fst w)) \<noteq> Some 0 \<Longrightarrow> TStart 0 \<notin> set cs \<Longrightarrow>
   meets (timer_step (chip_os_timer_start_zephyr api)
       (c_bind (chip_os_timer_stop_zephyr api) (\<lambda>e. c_return (Some e))) (chip_os_timer_is_active_zephyr api))
     (timer_doc [Some POS_OK]) (\<lambda>(t, k). map_option unat (left k (ztm_timer (fst w)))) cs w"
  by (rule zephyr_timer.run_meets) (auto split: prod.split)

end

context rtt_timer_kernel
begin

lemma timer_documented:
  "rtm_handle (fst w) = Some h \<Longrightarrow> TStop \<notin> set cs \<Longrightarrow>
   meets (timer_step (pos_timer_start_rtt api) stop (pos_timer_is_active_rtt api False))
     (timer_doc []) (\<lambda>(t, k). map_option unat (left k h)) cs w"
  by (rule rtt_timer.run_meets) (auto split: prod.split)

end

section \<open>Properties\<close>

text \<open>C16. The timers of the four ports over sequences of starts, stops and queries: each start leaves the timer counting down from the
  requested ticks whether or not it was running, each stop leaves it stopped, and
  \<open>pos_timer_is_active\<close> tells which of the two holds.  The sequences are arbitrary on POSIX and FreeRTOS; on Zephyr, whose
  functions are still named after an older interface, they contain no start with zero ticks, and on RT-Thread, which has no stop
  function, no stop.  Starts report \<open>POS_OK\<close>, and so does a stop on POSIX and Zephyr; FreeRTOS reports every successful
  stop with the number of \<open>POS_ENOMEM\<close>.\<close>

theorem osal_timer_ports:
  fixes fcs :: "'w::len word timer_call list"
  assumes "posix_timer_kernel papi expire armed pperiod pusable" and "timer_inv armed pperiod pusable tid pw"
    and "freertos_timer_kernel hw fapi expiry period tick fusable" and "ft_handle (fst fw) = Some fh"
    and "fusable (snd fw) fh"
    and "zephyr_timer_kernel zapi zleft" and "zleft (snd zw) (ztm_timer (fst zw)) \<noteq> Some 0"
    and "TStart 0 \<notin> set zcs"
    and "rtt_timer_kernel rapi duration rleft" and "rtm_handle (fst rw) = Some rh" and "TStop \<notin> set rcs"
  shows "meets (timer_step (pos_timer_start_posix papi) (c_bind (pos_timer_stop_posix papi) (\<lambda>e. c_return (Some e)))
             (get_obj pos_timer_is_active_posix))
           (timer_doc [Some POS_OK]) (\<lambda>(t, k). map_option (\<lambda>ns. nat (ns div 1000000)) (armed k tid)) cs pw \<and>
         meets (timer_step (pos_timer_start_freertos hw fapi junk) (pos_timer_stop_freertos fapi False)
             (pos_timer_is_active_freertos fapi False))
           (timer_doc [Some POS_ENOMEM]) (\<lambda>(t, k). map_option (\<lambda>e. unat (e - tick k)) (expiry k fh)) fcs fw \<and>
         meets (timer_step (chip_os_timer_start_zephyr zapi)
             (c_bind (chip_os_timer_stop_zephyr zapi) (\<lambda>e. c_return (Some e))) (chip_os_timer_is_active_zephyr zapi))
           (timer_doc [Some POS_OK]) (\<lambda>(t, k). map_option unat (zleft k (ztm_timer (fst zw)))) zcs zw \<and>
         meets (timer_step (pos_timer_start_rtt rapi) stop (pos_timer_is_active_rtt rapi False))
           (timer_doc []) (\<lambda>(t, k). map_option unat (rleft k rh)) rcs rw"
  using posix_timer_kernel.timer_documented [OF assms(1,2)] freertos_timer_kernel.timer_documented [OF assms(3-5)]
    zephyr_timer_kernel.timer_documented [OF assms(6-8)] rtt_timer_kernel.timer_documented [OF assms(9-11)]
  by blast

theorem osal_timer_ports_witness:
  "meets (timer_step (pos_timer_start_posix ref_timer_api)
       (c_bind (pos_timer_stop_posix ref_timer_api) (\<lambda>e. c_return (Some e))) (get_obj pos_timer_is_active_posix))
     (timer_doc [Some POS_OK]) (\<lambda>(t, k). map_option (\<lambda>ns. nat (ns div 1000000)) (rt_armed k 4))
     [TStart 7, TIsActive, TStart 3, TStop, TIsActive]
     (timer_zero\<lparr>tm_timer := Some 4\<rparr> :: (nat, nat, nat) pos_timer_posix, \<lparr>rt_armed = \<lambda>_. None, rt_period = \<lambda>_. 0, rt_live = \<lambda>_. True, rt_now = 0\<rparr>) \<and>
   meets (timer_step (pos_timer_start_freertos rft_hw ref_freertos_timer (0, 0, 0))
       (pos_timer_stop_freertos ref_freertos_timer False) (pos_timer_is_active_freertos ref_freertos_timer False))
     (timer_doc [Some POS_ENOMEM])
     (\<lambda>(t, k). map_option (\<lambda>e. unat (e - rft_now k)) (if rft_active k 2 then Some (rft_expiry k 2) else None))
     [TStart 7, TIsActive, TStart 3, TStop, TIsActive]
     (\<lparr>ft_handle = Some 2, ft_func = Some (0::nat), ft_arg = None :: nat option\<rparr>,
      \<lparr>rft_period = \<lambda>_. 1, rft_expiry = \<lambda>_. 0, rft_active = \<lambda>_. False, rft_now = 0xFFFFFFF0\<rparr>) \<and>
   meets (timer_step (chip_os_timer_start_zephyr ref_zephyr_timer)
       (c_bind (chip_os_timer_stop_zephyr ref_zephyr_timer) (\<lambda>e. c_return (Some e)))
       (chip_os_timer_is_active_zephyr ref_zephyr_timer))
     (timer_doc [Some POS_OK]) (\<lambda>(t, k). map_option unat (k 5)) [TStart 7, TIsActive, TStop]
     (\<lparr>ztm_timer = 5, ztm_cb = None :: nat option, ztm_arg = None :: nat option\<rparr>, \<lambda>_. None) \<and>
   meets (timer_step (pos_timer_start_rtt ref_rtt_timer) (c_stop Undefined_Behaviour) (pos_timer_is_active_rtt ref_rtt_timer False))
     (timer_doc []) (\<lambda>(t, k). map_option unat (rrt_left k 6)) [TIsActive, TStart 0, TIsActive]
     (\<lparr>rtm_handle = Some 6, rtm_func = None, rtm_arg = None\<rparr>, \<lparr>rrt_time = \<lambda>_. 10, rrt_left = \<lambda>_. None\<rparr>)"
proof -
  let ?pt = "timer_zero\<lparr>tm_timer := Some 4\<rparr> :: (nat, nat, nat) pos_timer_posix"
  let ?zt = "\<lparr>ztm_timer = 5 :: nat, ztm_cb = None :: nat option, ztm_arg = None :: nat option\<rparr>"
  have p: "timer_inv rt_armed rt_period rt_uptime_ok 4 (?pt, \<lparr>rt_armed = \<lambda>_. None, rt_period = \<lambda>_. 0, rt_live = \<lambda>_. True, rt_now = 0\<rparr>)"
    by (simp add: timer_inv_def timer_zero_def rt_uptime_ok_def)
  from osal_timer_ports [OF ref_timer.posix_timer_kernel_axioms p
      ref_freertos_timer.freertos_timer_kernel_axioms, where
      fw = "(\<lparr>ft_handle = Some 2, ft_func = Some (0::nat), ft_arg = None :: nat option\<rparr>,
        \<lparr>rft_period = \<lambda>_. 1, rft_expiry = \<lambda>_. 0, rft_active = \<lambda>_. False, rft_now = 0xFFFFFFF0\<rparr>)" and fh = 2,
      OF _ _ ref_zephyr_timer.zephyr_timer_kernel_axioms, where zw = "(?zt, \<lambda>_. None)" and zcs = "[TStart 7, TIsActive, TStop]",
      OF _ _ _ _ ref_rtt_timer.rtt_timer_kernel_axioms, where
      rw = "(\<lparr>rtm_handle = Some 6, rtm_func = None, rtm_arg = None\<rparr>, \<lparr>rrt_time = \<lambda>_. 10, rrt_left = \<lambda>_. None\<rparr>)"
      and rh = 6 and rcs = "[TIsActive, TStart 0, TIsActive]" and cs = "[TStart 7, TIsActive, TStart 3, TStop, TIsActive]"
      and fcs = "[TStart 7, TIsActive, TStart 3, TStop, TIsActive]"
      and junk = "(0, 0, 0)" and stop = "c_stop Undefined_Behaviour"]
  show ?thesis by simp
qed

text \<open>The functions that must not return: \<open>pos_panic\<close> never returns on any port, whatever message it
  gets, and \<open>pos_sched_start\<close> of the POSIX port runs for ever; on RT-Thread it returns at once, against
  its documentation, and leaves the world as it is.\<close>

theorem osal_never_returns:
  "pos_panic_doc (pos_panic_posix msg) \<and> pos_panic_doc (pos_panic_freertos msg) \<and>
   pos_panic_doc (pos_panic_zephyr msg) \<and> pos_panic_doc (pos_panic_rtt msg) \<and>
   (\<forall>fuel. pos_sched_start_doc (pos_sched_start_posix fuel api)) \<and>
   \<not> pos_sched_start_doc (pos_sched_start_rtt :: (unit, nat) prog) \<and>
   pos_sched_start_rtt w = Returns () w"
proof -
  have "returned (pos_sched_start_posix fuel api w) = None" for fuel w
    by (induction fuel arbitrary: w) (auto simp: prog_defs split: outcome.split)
  then show ?thesis
    by (simp add: pos_panic_doc_def pos_sched_start_doc_def pos_panic_posix_def pos_panic_freertos_def
        pos_panic_zephyr_def pos_panic_rtt_def pos_sched_start_rtt_def prog_defs split: option.split)
qed

end
