(* ===== verification/Conform_Time.thy ===== *)
theory Conform_Time
  imports Osal_Api Posix_Time Freertos_Timer Zephyr_Task Rtt_Port Port_Config
begin

text \<open>
  Time on the ports against \<^verbatim>\<open>os_time.h\<close>: the conversions between milliseconds and ticks on all four, and the
  uptime on the three that count ticks.  \<open>hz\<close> is the tick rate of the kernel.  POSIX counts milliseconds; its uptime is
  in \<open>Posix_Time\<close>.  Ticks have 32 bits on Zephyr and RT-Thread; on FreeRTOS they have the width of \<open>TickType_t\<close>, which is
  32 bits in the round trips and any width from 32 bits on for the uptime.
\<close>

section \<open>Definitions\<close>

text \<open>The comment of \<open>pos_time_get\<close>: the elapsed time in milliseconds, as a number of the width of \<open>pos_time_t\<close>.\<close>

definition pos_time_get_doc :: "nat \<Rightarrow> 'w::len word \<Rightarrow> bool" where
  "pos_time_get_doc uptime res \<longleftrightarrow> res = word_of_nat uptime"

definition uptime_ms :: "nat \<Rightarrow> nat \<Rightarrow> nat" where
  "uptime_ms hz n = n * 1000 div hz"

text \<open>Zephyr's conversions for a rate of 100 ticks per second.\<close>

definition ref_ms_to_ticks :: "u32 \<Rightarrow> u32" where
  "ref_ms_to_ticks ms = word_of_nat ((unat ms * 100 + 999) div 1000)"

definition ref_ticks_to_ms :: "u32 \<Rightarrow> u32" where
  "ref_ticks_to_ms t = word_of_nat (unat t * 1000 div 100)"

section \<open>The conversions of the Zephyr kernel\<close>

locale zephyr_time_kernel =
  fixes k_ms_to_ticks_ceil32 :: "u32 \<Rightarrow> u32"
    and k_ticks_to_ms_floor32 :: "u32 \<Rightarrow> u32"
    and hz :: u32
  assumes hz_pos: "0 < unat hz"
    and ceil32: "(unat ms * unat hz + 999) div 1000 < 2 ^ 32 \<Longrightarrow>
      unat (k_ms_to_ticks_ceil32 ms) = (unat ms * unat hz + 999) div 1000"
    and floor32: "unat t * 1000 div unat hz < 2 ^ 32 \<Longrightarrow>
      unat (k_ticks_to_ms_floor32 t) = unat t * 1000 div unat hz"

interpretation ref_zephyr_time: zephyr_time_kernel ref_ms_to_ticks ref_ticks_to_ms 100
  by unfold_locales (simp_all only: ref_ms_to_ticks_def ref_ticks_to_ms_def unat_of_nat, simp_all)

section \<open>Round trips\<close>

text \<open>Rounding down twice loses less than one tick and one millisecond; rounding up first loses nothing.\<close>

lemma floor_floor:
  fixes m h :: nat
  assumes "0 < h"
  shows "m * h div 1000 * 1000 div h \<le> m" and "m * h < (m * h div 1000 * 1000 div h) * h + 1000 + h"
    and "1000 dvd m * h \<Longrightarrow> m * h div 1000 * 1000 div h = m"
proof -
  have a: "m * h div 1000 * 1000 \<le> m * h" "m * h < m * h div 1000 * 1000 + 1000"
    using mod_less_divisor [of 1000 "m * h"] div_mult_mod_eq [of "m * h" 1000] by linarith+
  then show "m * h div 1000 * 1000 div h \<le> m"
    using div_le_mono [OF a(1), of h] assms by simp
  have "m * h div 1000 * 1000 < (m * h div 1000 * 1000 div h) * h + h"
    using mod_less_divisor [OF assms, of "m * h div 1000 * 1000"] div_mult_mod_eq [of "m * h div 1000 * 1000" h]
    by linarith
  with a(2) show "m * h < (m * h div 1000 * 1000 div h) * h + 1000 + h" by linarith
  show "m * h div 1000 * 1000 div h = m" if "1000 dvd m * h" using that assms by simp
qed

lemma ceil_floor:
  fixes m h :: nat
  assumes "0 < h"
  shows "m \<le> (m * h + 999) div 1000 * 1000 div h" and "(m * h + 999) div 1000 * 1000 div h * h < m * h + 1000"
proof -
  have a: "m * h \<le> (m * h + 999) div 1000 * 1000" "(m * h + 999) div 1000 * 1000 < m * h + 1000"
    using mod_less_divisor [of 1000 "m * h + 999"] div_mult_mod_eq [of "m * h + 999" 1000] by linarith+
  then show "m \<le> (m * h + 999) div 1000 * 1000 div h"
    using div_le_mono [OF a(1), of h] assms by simp
  show "(m * h + 999) div 1000 * 1000 div h * h < m * h + 1000"
    using a(2) div_times_less_eq_dividend [of "(m * h + 999) div 1000 * 1000" h] by linarith
qed

lemma word_round_trip:
  fixes ms hz :: u32
  assumes "unat ms * unat hz < 2 ^ 32"
  shows "unat (ms * hz div 1000 * 1000 div hz) = unat ms * unat hz div 1000 * 1000 div unat hz"
proof -
  have a: "unat (ms * hz div 1000) = unat ms * unat hz div 1000"
    using assms by (simp add: unat_mul_div)
  have "unat ms * unat hz div 1000 * 1000 \<le> unat ms * unat hz" by (rule div_times_less_eq_dividend)
  with assms a have "unat (ms * hz div 1000) * 1000 < 2 ^ 32" by simp
  then show ?thesis using a unat_mul_div [of "ms * hz div 1000" 1000 hz] by simp
qed

context zephyr_time_kernel
begin

lemma round_trip:
  assumes "unat ms * unat hz + 1000 < 2 ^ 32" and "unat ms + 1000 < 2 ^ 32"
  shows "unat (k_ticks_to_ms_floor32 (k_ms_to_ticks_ceil32 ms)) =
         (unat ms * unat hz + 999) div 1000 * 1000 div unat hz"
proof -
  let ?n = "(unat ms * unat hz + 999) div 1000"
  have "?n * 1000 < unat ms * unat hz + 1000"
    using div_times_less_eq_dividend [of "unat ms * unat hz + 999" 1000] by linarith
  then have "?n < 2 ^ 32" and "?n * 1000 < 2 ^ 32" using assms(1) by linarith+
  moreover have "?n * 1000 div unat hz \<le> ?n * 1000" by (rule div_le_dividend)
  ultimately have "?n * 1000 div unat hz < 2 ^ 32" by linarith
  with \<open>?n < 2 ^ 32\<close> show ?thesis using ceil32 [of ms] floor32 [of "k_ms_to_ticks_ceil32 ms"] by simp
qed

end

lemma low_tick_bits: "(ucast (word_of_nat n :: 64 word) :: u32) = word_of_nat n"
  by (simp add: unsigned_of_nat word_of_nat_eq_iff)

lemma unat_small:
  assumes "n < 2 ^ 32" and "32 \<le> LENGTH('w::len)"
  shows "unat (word_of_nat n :: 'w word) = n"
proof -
  have "(2 :: nat) ^ 32 \<le> 2 ^ LENGTH('w)" using assms(2) by (intro power_increasing) simp_all
  with assms(1) have "n < 2 ^ LENGTH('w)" by (rule less_le_trans)
  then show ?thesis by (simp add: unsigned_of_nat take_bit_nat_eq_self)
qed

lemma distinct_small:
  assumes "n < 2 ^ 32" and "32 \<le> LENGTH('w::len)" and "n \<noteq> 1000"
  shows "(word_of_nat n :: 'w word) \<noteq> 1000"
  using unat_small [OF assms(1,2)] unat_1000 [OF assms(2)] assms(3) by metis

lemma tick_quotient:
  assumes "hz < 2 ^ 32" and "32 \<le> LENGTH('w::len)"
  shows "(word_of_nat n * 1000 div word_of_nat hz :: 'w word) = word_of_nat (n * 1000 mod 2 ^ LENGTH('w) div hz)"
proof -
  have "unat (word_of_nat n * 1000 div word_of_nat hz :: 'w word) = n * 1000 mod 2 ^ LENGTH('w) div hz"
    unfolding unat_mul_div unat_1000 [OF assms(2)] unat_small [OF assms] by (simp add: unat_of_nat mod_mult_left_eq)
  from arg_cong [OF this, of "word_of_nat :: nat \<Rightarrow> 'w word"] show ?thesis
    by (simp only: of_nat_unat unsigned_ucast_eq ucast_id)
qed

section \<open>Properties\<close>

text \<open>C38. Converting milliseconds to ticks and back, with 32-bit ticks, for times that leave room:
  \<open>ms * hz + 1000\<close> and \<open>ms + 1000\<close> are below \<open>2^32\<close>.  Then POSIX
  returns the same number; FreeRTOS and RT-Thread never return more, lose less than one tick and one
  millisecond, and nothing when the time is a whole number of ticks; Zephyr never returns less and adds less than one tick,
  so nothing at 1000 ticks per second or more.\<close>

theorem osal_tick_roundtrip:
  fixes ms hz :: u32
  assumes "unat ms * unat hz + 1000 < 2 ^ 32" and "unat ms + 1000 < 2 ^ 32" and "zephyr_time_kernel ceil32 floor32 hz"
  shows "c_bind (pos_time_ms_to_ticks_posix ms) pos_time_ticks_to_ms_posix w = Returns ms w \<and>
         (let r = pos_time_ticks_to_ms_freertos hz (pos_time_ms_to_ticks_freertos hz ms) in
            r \<le> ms \<and> unat ms * unat hz < unat r * unat hz + 1000 + unat hz \<and>
            (1000 dvd unat ms * unat hz \<longrightarrow> r = ms) \<and>
            pos_time_ticks_to_ms_rtt hz (pos_time_ms_to_ticks_rtt hz ms) = r) \<and>
         (let r = pos_time_ticks_to_ms_zephyr floor32 (pos_time_ms_to_ticks_zephyr ceil32 ms) in
            ms \<le> r \<and> unat r * unat hz < unat ms * unat hz + 1000 \<and> (1000 \<le> hz \<longrightarrow> r = ms))"
proof (intro conjI)
  show "c_bind (pos_time_ms_to_ticks_posix ms) pos_time_ticks_to_ms_posix w = Returns ms w"
    by (simp add: c_return_def)
next
  have hz: "0 < unat hz" using assms(3) by (simp add: zephyr_time_kernel_def)
  define r where "r = ms * hz div 1000 * 1000 div hz"
  have "unat r = unat ms * unat hz div 1000 * 1000 div unat hz"
    unfolding r_def using assms(1) by (intro word_round_trip) simp
  with floor_floor [OF hz, of "unat ms"]
  have "r \<le> ms" "unat ms * unat hz < unat r * unat hz + 1000 + unat hz" "1000 dvd unat ms * unat hz \<longrightarrow> r = ms"
    by (simp_all add: word_le_nat_alt word_unat_eq_iff)
  then show "let r = pos_time_ticks_to_ms_freertos hz (pos_time_ms_to_ticks_freertos hz ms) in
            r \<le> ms \<and> unat ms * unat hz < unat r * unat hz + 1000 + unat hz \<and>
            (1000 dvd unat ms * unat hz \<longrightarrow> r = ms) \<and>
            pos_time_ticks_to_ms_rtt hz (pos_time_ms_to_ticks_rtt hz ms) = r"
    by (simp add: pos_time_ticks_to_ms_freertos_def pos_time_ms_to_ticks_freertos_def pos_time_ticks_to_ms_rtt_def
        pos_time_ms_to_ticks_rtt_def r_def)
next
  have hz: "0 < unat hz" using assms(3) by (simp add: zephyr_time_kernel_def)
  define r where "r = floor32 (ceil32 ms)"
  have "unat r = (unat ms * unat hz + 999) div 1000 * 1000 div unat hz"
    unfolding r_def by (rule zephyr_time_kernel.round_trip [OF assms(3,1,2)])
  with ceil_floor [OF hz, of "unat ms"] have r: "unat ms \<le> unat r" "unat r * unat hz < unat ms * unat hz + 1000"
    by simp_all
  have "unat r = unat ms" if "1000 \<le> unat hz"
  proof -
    have "unat r * unat hz < (unat ms + 1) * unat hz" using r(2) that by simp
    then have "unat r < unat ms + 1" by (rule mult_less_cancel2 [THEN iffD1, THEN conjunct2])
    with r(1) show ?thesis by simp
  qed
  with r show "let r = pos_time_ticks_to_ms_zephyr floor32 (pos_time_ms_to_ticks_zephyr ceil32 ms) in
            ms \<le> r \<and> unat r * unat hz < unat ms * unat hz + 1000 \<and> (1000 \<le> hz \<longrightarrow> r = ms)"
    by (simp add: pos_time_ticks_to_ms_zephyr_def pos_time_ms_to_ticks_zephyr_def word_le_nat_alt
        word_unat_eq_iff r_def)
qed

theorem osal_tick_roundtrip_witness:
  "pos_time_ticks_to_ms_freertos 100 (pos_time_ms_to_ticks_freertos 100 1234) = (1230 :: u32) \<and>
   pos_time_ticks_to_ms_freertos 100 (pos_time_ms_to_ticks_freertos 100 1230) = (1230 :: u32) \<and>
   1234 \<le> pos_time_ticks_to_ms_zephyr ref_ticks_to_ms (pos_time_ms_to_ticks_zephyr ref_ms_to_ticks 1234)"
  using osal_tick_roundtrip [OF _ _ ref_zephyr_time.zephyr_time_kernel_axioms, of 1234 "()"]
    osal_tick_roundtrip [OF _ _ ref_zephyr_time.zephyr_time_kernel_axioms, of 1230 "()"]
  by (simp add: Let_def pos_time_ticks_to_ms_freertos_def pos_time_ms_to_ticks_freertos_def)

text \<open>C39. The uptime on the ports that count ticks, for a kernel that has counted \<open>n\<close> ticks at \<open>hz\<close> ticks per second.
  \<open>pos_time_get_ms\<close> of FreeRTOS is the uptime in milliseconds as long as \<open>n * 1000\<close> fits \<open>TickType_t\<close>, and beyond that it is computed
  from the product modulo its range: with 64-bit ticks it is exact for the first \<open>2^32\<close> ticks, with 32-bit ticks at 1000 ticks
  per second it falls back to zero at tick 4294968, after about 72 minutes.  \<open>pos_time_get\<close> of FreeRTOS, Zephyr and RT-Thread
  returns ticks: at 1000 ticks per second that is the documented number of milliseconds, at any
  other rate it is not, after one second of uptime.\<close>

theorem osal_tick_uptime:
  fixes f_tick :: "'k \<Rightarrow> 'w::len word"
  assumes "f_tick k = word_of_nat n" and "z_tick k = word_of_nat n" and "r_tick k = word_of_nat n"
    and "0 < hz" and "hz < 2 ^ 32" and "32 \<le> LENGTH('w)"
  shows "returned (pos_time_get_ms_freertos (word_of_nat hz) f_tick k) =
           Some (word_of_nat (n * 1000 mod 2 ^ LENGTH('w) div hz)) \<and>
         (n * 1000 < 2 ^ LENGTH('w) \<or> LENGTH('w) = 64 \<and> n < 2 ^ 32 \<longrightarrow>
            (\<exists>t. returned (pos_time_get_ms_freertos (word_of_nat hz) f_tick k) = Some t \<and>
               pos_time_get_doc (uptime_ms hz n) t)) \<and>
         (LENGTH('w) = 32 \<and> hz = 1000 \<and> n = 4294968 \<longrightarrow>
            returned (pos_time_get_ms_freertos (word_of_nat hz) f_tick k) = Some 0) \<and>
         (\<exists>f t. returned (pos_time_get_freertos f_tick k) = Some f \<and> returned (pos_time_get_zephyr z_tick k) = Some t \<and>
            returned (pos_time_get_rtt r_tick k) = Some t \<and>
            (hz = 1000 \<longrightarrow> pos_time_get_doc (uptime_ms hz n) f \<and> pos_time_get_doc (uptime_ms hz n) t) \<and>
            (hz \<noteq> 1000 \<longrightarrow> n = hz \<longrightarrow> \<not> pos_time_get_doc (uptime_ms hz n) f \<and> \<not> pos_time_get_doc (uptime_ms hz n) t))"
proof (intro conjI)
  show ms: "returned (pos_time_get_ms_freertos (word_of_nat hz) f_tick k) =
      Some (word_of_nat (n * 1000 mod 2 ^ LENGTH('w) div hz))"
    using assms(1) tick_quotient [OF assms(5,6), of n]
    by (simp only: pos_time_get_ms_freertos_def pos_time_get_freertos_def prog_defs pos_time_ticks_to_ms_freertos_def) simp
  show "n * 1000 < 2 ^ LENGTH('w) \<or> LENGTH('w) = 64 \<and> n < 2 ^ 32 \<longrightarrow>
      (\<exists>t. returned (pos_time_get_ms_freertos (word_of_nat hz) f_tick k) = Some t \<and> pos_time_get_doc (uptime_ms hz n) t)"
    unfolding ms by (auto simp: pos_time_get_doc_def uptime_ms_def)
  show "LENGTH('w) = 32 \<and> hz = 1000 \<and> n = 4294968 \<longrightarrow>
      returned (pos_time_get_ms_freertos (word_of_nat hz) f_tick k) = Some 0"
    unfolding ms by simp
next
  have "\<not> pos_time_get_doc (uptime_ms hz n) (word_of_nat n :: 'w word) \<and> \<not> pos_time_get_doc (uptime_ms hz n) (word_of_nat n :: u32)"
    if "hz \<noteq> 1000" and "n = hz"
    using that assms(4) distinct_small [OF assms(5,6)] distinct_small [OF assms(5), where 'w = 32]
    by (simp add: pos_time_get_doc_def uptime_ms_def)
  then show "\<exists>f t. returned (pos_time_get_freertos f_tick k) = Some f \<and> returned (pos_time_get_zephyr z_tick k) = Some t \<and>
            returned (pos_time_get_rtt r_tick k) = Some t \<and>
            (hz = 1000 \<longrightarrow> pos_time_get_doc (uptime_ms hz n) f \<and> pos_time_get_doc (uptime_ms hz n) t) \<and>
            (hz \<noteq> 1000 \<longrightarrow> n = hz \<longrightarrow> \<not> pos_time_get_doc (uptime_ms hz n) f \<and> \<not> pos_time_get_doc (uptime_ms hz n) t)"
    using assms(1-3)
    by (intro exI [of _ "word_of_nat n"])
      (simp add: pos_time_get_freertos_def pos_time_get_zephyr_def pos_time_get_rtt_def prog_defs
        pos_time_get_doc_def uptime_ms_def low_tick_bits)
qed

theorem osal_tick_uptime_witness:
  "returned (pos_time_get_ms_freertos (1000 :: 32 word) (\<lambda>n. word_of_nat n) 4294968) = Some 0 \<and>
   returned (pos_time_get_ms_freertos (1000 :: 64 word) (\<lambda>n. word_of_nat n) 4294968) = Some 4294968 \<and>
   (\<exists>t. returned (pos_time_get_freertos (\<lambda>n. word_of_nat n :: u32) 100) = Some t \<and> \<not> pos_time_get_doc (uptime_ms 100 100) t)"
  using osal_tick_uptime [of "\<lambda>n. word_of_nat n :: 32 word" 4294968 4294968 "\<lambda>n. word_of_nat n" "\<lambda>n. word_of_nat n" 1000]
    osal_tick_uptime [of "\<lambda>n. word_of_nat n :: 64 word" 4294968 4294968 "\<lambda>n. word_of_nat n" "\<lambda>n. word_of_nat n" 1000]
    osal_tick_uptime [of "\<lambda>n. word_of_nat n :: 32 word" 100 100 "\<lambda>n. word_of_nat n" "\<lambda>n. word_of_nat n" 100]
  by (auto simp: pos_time_get_doc_def uptime_ms_def)

end
