(* ===== verification/Conform_Waits.thy ===== *)
theory Conform_Waits
  imports Conform_Sync Port_Config
begin

text \<open>
  Where the ports keep to the letter of the headers: the codes of \<open>documented_refusals\<close>, which FreeRTOS and Zephyr
  return for every timeout but \<open>POS_TIME_NO_WAIT\<close>.
\<close>

section \<open>Definitions\<close>

text \<open>A call that may wait.\<close>

fun may_wait_mutex :: "pos_time \<Rightarrow> 't mutex_call \<Rightarrow> bool" where
  "may_wait_mutex no_wait (MLock t tmo) \<longleftrightarrow> tmo \<noteq> no_wait"
| "may_wait_mutex no_wait (MUnlock t) \<longleftrightarrow> True"

fun may_wait_sem :: "pos_time \<Rightarrow> sem_call \<Rightarrow> bool" where
  "may_wait_sem no_wait (STake tmo) \<longleftrightarrow> tmo \<noteq> no_wait"
| "may_wait_sem no_wait SGive \<longleftrightarrow> True"

section \<open>Weaker specifications\<close>

lemma api_trace_mono:
  assumes "api_trace spec cs rs st s s'" and "\<And>c. c \<in> set cs \<Longrightarrow> spec c \<le> spec' c"
  shows "api_trace spec' cs rs st s s'"
  using assms
proof induction
  case (trace_call c s r s1 cs rs st s')
  then have "spec' c s (Inr r) s1" "api_trace spec' cs rs st s1 s'" by (auto simp: le_fun_def)
  then show ?case by (rule api_trace.trace_call)
qed (auto intro: api_trace.intros simp: le_fun_def)

lemma meets_mono:
  assumes "meets step spec view cs w" and "\<And>c. c \<in> set cs \<Longrightarrow> spec c \<le> spec' c"
  shows "meets step spec' view cs w"
  using assms api_trace_mono [of spec cs _ _ _ _ spec'] by (auto simp: meets_def split: prod.splits)

lemma refusals_documented:
  "tmo \<noteq> POS_TIME_NO_WAIT_freertos \<Longrightarrow>
     freertos_refusals tmo = documented_refusals POS_TIME_FOREVER_freertos POS_TIME_NO_WAIT_freertos tmo"
  "tmo \<noteq> POS_TIME_NO_WAIT_zephyr \<Longrightarrow>
     zephyr_refusals tmo = documented_refusals POS_TIME_FOREVER_zephyr POS_TIME_NO_WAIT_zephyr tmo"
  by (simp_all add: freertos_refusals_def zephyr_refusals_def documented_refusals_def)

lemma refusals_undocumented:
  "freertos_refusals POS_TIME_NO_WAIT_freertos \<noteq>
     documented_refusals POS_TIME_FOREVER_freertos POS_TIME_NO_WAIT_freertos POS_TIME_NO_WAIT_freertos"
  "zephyr_refusals POS_TIME_NO_WAIT_zephyr \<noteq>
     documented_refusals POS_TIME_FOREVER_zephyr POS_TIME_NO_WAIT_zephyr POS_TIME_NO_WAIT_zephyr"
  by (simp_all add: freertos_refusals_def zephyr_refusals_def documented_refusals_def POS_TIME_NO_WAIT_freertos_def
      POS_TIME_NO_WAIT_zephyr_def POS_TIME_FOREVER_freertos_def portMAX_DELAY_32 POS_TIME_FOREVER_zephyr_def)

lemma mutex_doc_mono:
  assumes "\<And>tmo. tmo \<noteq> nw \<Longrightarrow> r tmo = r' tmo" and "may_wait_mutex nw c"
  shows "mutex_doc limit r strangers c \<le> mutex_doc limit r' strangers c"
  using assms by (cases c) (auto simp: le_fun_def pos_mutex_lock_doc_def)

lemma sem_doc_mono:
  assumes "\<And>tmo. tmo \<noteq> nw \<Longrightarrow> r tmo = r' tmo" and "may_wait_sem nw c"
  shows "sem_doc limit full r c \<le> sem_doc limit full r' c"
  using assms by (cases c) (auto simp: le_fun_def pos_sem_take_doc_def)

section \<open>Properties\<close>

text \<open>A program that never passes \<open>POS_TIME_NO_WAIT\<close> sees exactly the documented results on FreeRTOS and
  Zephyr: locks and takes succeed, wait for ever or report \<open>POS_TIMEOUT\<close> as the headers say, over any
  sequence of calls by any tasks.\<close>

theorem osal_waits_documented:
  assumes "freertos_mutex_kernel hw fapi fown task_mutex" and "\<not> pos_hw_in_isr_freertos hw (snd fw0)"
    and "pos_mutex_init_freertos fapi False fw0 = Returns POS_OK fw"
    and "zephyr_mutex_kernel zapi zown live" and "pos_mutex_init_zephyr zapi zw0 = Returns POS_OK zw"
    and "freertos_sem_kernel hw fsapi fcount task_sem" and "\<not> pos_hw_in_isr_freertos hw (snd fv0)"
    and "pos_sem_init_freertos fsapi False n fv0 = Returns POS_OK fv"
    and "zephyr_sem_kernel zsapi zcount zlive" and "pos_sem_init_zephyr zsapi n zv0 = Returns POS_OK zv"
    and "list_all (may_wait_mutex 0) cs" and "list_all (may_wait_sem 0) ds"
  shows "(\<exists>h. fm_handle (fst fw) = Some h \<and>
           meets (mutex_step (pos_mutex_lock_freertos hw fapi False) (pos_mutex_unlock_freertos hw fapi False))
             (mutex_doc limit (documented_refusals POS_TIME_FOREVER_freertos POS_TIME_NO_WAIT_freertos) [POS_BAD_MUTEX])
             (\<lambda>(mu, k). fown k h) cs fw) \<and>
         meets (mutex_step (pos_mutex_lock_zephyr zapi) (pos_mutex_unlock_zephyr zapi))
           (mutex_doc limit (documented_refusals POS_TIME_FOREVER_zephyr POS_TIME_NO_WAIT_zephyr) [POS_ERROR])
           (\<lambda>(mu, k). zown k (zm_mutex mu)) cs zw \<and>
         (\<exists>h. fs_handle (fst fv) = Some h \<and>
           meets (sem_step (pos_sem_give_freertos hw fsapi junk False) (pos_sem_take_freertos hw fsapi junk False))
             (sem_doc 128 [Inl Assert_Failure] (documented_refusals POS_TIME_FOREVER_freertos POS_TIME_NO_WAIT_freertos))
             (\<lambda>(s, k). fcount k h) ds fv) \<and>
         meets (sem_step (pos_sem_give_zephyr zsapi) (pos_sem_take_zephyr zsapi))
           (sem_doc (unat K_SEM_MAX_LIMIT) [Inr POS_OK] (documented_refusals POS_TIME_FOREVER_zephyr POS_TIME_NO_WAIT_zephyr))
           (\<lambda>(s, k). zcount k (zs_sem s)) ds zv"
proof -
  have nw: "POS_TIME_NO_WAIT_freertos = 0" "POS_TIME_NO_WAIT_zephyr = 0"
    by (simp_all add: POS_TIME_NO_WAIT_freertos_def POS_TIME_NO_WAIT_zephyr_def)
  have cs: "c \<in> set cs \<Longrightarrow> may_wait_mutex 0 c" and ds: "d \<in> set ds \<Longrightarrow> may_wait_sem 0 d" for c d
    using assms(11,12) by (simp_all add: list_all_iff)
  note [intro] = mutex_doc_mono [where nw = 0, OF refusals_documented(1) cs, unfolded nw]
    mutex_doc_mono [where nw = 0, OF refusals_documented(2) cs, unfolded nw]
    sem_doc_mono [where nw = 0, OF refusals_documented(1) ds, unfolded nw]
    sem_doc_mono [where nw = 0, OF refusals_documented(2) ds, unfolded nw]
  show ?thesis
    using freertos_mutex_kernel.mutex_documented [OF assms(1-3), of None limit cs]
      zephyr_mutex_kernel.mutex_documented [OF assms(4,5), of None limit cs]
      freertos_sem_kernel.sem_documented [OF assms(6-8), of 0 junk ds]
      zephyr_sem_kernel.sem_documented [OF assms(9,10), of 0 ds]
    unfolding nw
    by (auto elim!: meets_mono)
qed

theorem osal_waits_documented_witness:
  "meets (mutex_step (pos_mutex_lock_zephyr ref_zephyr_mutex) (pos_mutex_unlock_zephyr ref_zephyr_mutex))
     (mutex_doc 9 (documented_refusals POS_TIME_FOREVER_zephyr POS_TIME_NO_WAIT_zephyr) [POS_ERROR])
     (\<lambda>(mu, k). rz_own k (zm_mutex mu)) [MLock 1 5, MLock 2 7, MLock 1 3, MUnlock 1]
     (\<lparr>zm_mutex = 0\<rparr>, \<lparr>rz_own = \<lambda>_. None, rz_count = \<lambda>_. 0\<rparr>) \<and>
   (\<exists>h. meets (sem_step (pos_sem_give_freertos ref_hw ref_freertos_sem 0 False)
         (pos_sem_take_freertos ref_hw ref_freertos_sem 0 False))
     (sem_doc 128 [Inl Assert_Failure] (documented_refusals POS_TIME_FOREVER_freertos POS_TIME_NO_WAIT_freertos))
     (\<lambda>(s, k). rf_count k h) [STake 5, STake 1, STake 3, SGive]
     (\<lparr>fs_handle = Some 0\<rparr>, ref_freertos0\<lparr>rf_next := 1, rf_count := (\<lambda>_. 0)(0 := 2)\<rparr>))"
proof -
  obtain zv where zv: "pos_sem_init_zephyr ref_zephyr_sem 2 (\<lparr>zs_sem = 0\<rparr>, \<lparr>rz_own = \<lambda>_. None, rz_count = \<lambda>_. 0\<rparr>) =
      Returns POS_OK zv"
    using ref_sem_inits(3) by blast
  from osal_waits_documented [OF ref_freertos_mutex.freertos_mutex_kernel_axioms _ ref_mutex_inits(2)
      ref_zephyr_mutex.zephyr_mutex_kernel_axioms ref_mutex_inits(3)
      ref_freertos_sem.freertos_sem_kernel_axioms _ ref_sem_inits(2)
      ref_zephyr_sem.zephyr_sem_kernel_axioms zv, of "[MLock 1 5, MLock 2 7, MLock 1 3, MUnlock 1]"
      "[STake 5, STake 1, STake 3, SGive]" 9 0] ref_mutex_inits(1)
  show ?thesis by auto
qed

end
