(* ===== verification/Freertos_Isr.thy ===== *)
theory Freertos_Isr
  imports Freertos_Queue Freertos_Timer
begin

text \<open>
  The FreeRTOS port in interrupt handlers.  Nothing is assumed of the kernel: that a function makes no
  blocking call is expressed by replacing the blocking calls by arbitrary programs, which does not change
  what the function does.  \<open>pos_timer_stop\<close> is the exception: it does not look where it is called from.
\<close>

section \<open>Mutexes refuse\<close>

lemma isr_mutex_asserts:
  assumes "pos_hw_in_isr_freertos hw k"
  shows "pos_mutex_lock_freertos hw api nil t tmo (mu, k) = Stops Assert_Failure"
    and "pos_mutex_unlock_freertos hw api nil t (mu, k) = Stops Assert_Failure"
  using assms by (simp_all add: pos_mutex_lock_freertos_def pos_mutex_unlock_freertos_def prog_defs)

section \<open>The other functions do not block\<close>

lemma isr_sem_take:
  assumes "pos_hw_in_isr_freertos hw k" and "fs_handle sem = Some h"
  shows "pos_sem_take_freertos hw api junk False tmo (sem, k) =
    (if tmo \<noteq> 0 then Stops Assert_Failure
     else case xSemaphoreTakeFromISR api h junk k of
       Stops s \<Rightarrow> Stops s
     | Returns (ret, woken) k1 \<Rightarrow>
         (case sem_portYIELD_FROM_ISR api woken k1 of
            Stops s \<Rightarrow> Stops s
          | Returns _ k2 \<Rightarrow> Returns (if ret = pdPASS then POS_OK else POS_TIMEOUT) (sem, k2)))"
  using assms
  by (simp add: pos_sem_take_freertos_def assert_handle_def prog_defs split: outcome.split prod.split)

lemma isr_sem_independent:
  assumes "pos_hw_in_isr_freertos hw k"
  shows "pos_sem_take_freertos hw (api\<lparr>xSemaphoreTake := f, xSemaphoreGive := g\<rparr>) junk nil tmo (sem, k) =
           pos_sem_take_freertos hw api junk nil tmo (sem, k)"
    and "pos_sem_give_freertos hw (api\<lparr>xSemaphoreTake := f, xSemaphoreGive := g\<rparr>) junk nil (sem, k) =
           pos_sem_give_freertos hw api junk nil (sem, k)"
  using assms
  by (simp_all add: pos_sem_take_freertos_def pos_sem_give_freertos_def assert_handle_def prog_defs
      split: option.split)

lemma isr_queue_independent:
  assumes "pos_hw_in_isr_freertos hw k"
  shows "pos_queue_get_freertos hw (api\<lparr>xQueueReceive := f, xQueueSendToBack := g\<rparr>) junk data tmo (q, k) =
           pos_queue_get_freertos hw api junk data tmo (q, k)"
    and "pos_queue_put_freertos hw (api\<lparr>xQueueReceive := f, xQueueSendToBack := g\<rparr>) junk data (q, k) =
           pos_queue_put_freertos hw api junk data (q, k)"
  using assms
  by (simp_all add: pos_queue_get_freertos_def pos_queue_put_freertos_def queue_handle_def prog_defs
      split: option.split)

lemma isr_timer_independent:
  assumes "pos_hw_in_isr_freertos hw k"
  shows "pos_timer_start_freertos hw (api\<lparr>xTimerStop := f, xTimerChangePeriod := g, xTimerReset := r\<rparr>) junk ticks (t, k) =
           pos_timer_start_freertos hw api junk ticks (t, k)"
  using assms
  by (cases junk) (simp add: pos_timer_start_freertos_def Let_def prog_defs split: option.split)

lemma timer_stop_waits:
  assumes "ft_handle tm = Some h"
  shows "pos_timer_stop_freertos (api\<lparr>xTimerStop := f\<rparr>) False (tm, k) =
           (case f h portMAX_DELAY k of
              Returns ret k' \<Rightarrow> Returns (pos_error_of_int ret) (tm, k')
            | Stops s \<Rightarrow> Stops s)"
  using assms by (simp add: pos_timer_stop_freertos_def assert_handle_def prog_defs split: outcome.split)

lemma isr_queue_get_waits:
  assumes "pos_hw_in_isr_freertos hw k" and "tmo \<noteq> 0"
  shows "pos_queue_get_freertos hw api junk data tmo (q, k) = Stops Assert_Failure"
  using assms by (simp add: pos_queue_get_freertos_def prog_defs)

section \<open>Properties\<close>

text \<open>C37. Which functions of the FreeRTOS port make a blocking kernel call in an interrupt handler.  Locking and unlocking a
  mutex, and taking a semaphore or getting a message with a timeout, stop at an assertion; what
  a take, give, get, put or timer start does there is the same whatever the kernel's blocking
  functions do, so they do not call them.  \<open>pos_timer_stop\<close>, which \<^verbatim>\<open>os_timer.h\<close> allows in interrupt handlers,
  is the exception: there too it calls \<open>xTimerStop\<close> with an unlimited wait, and blocks when that does.\<close>

theorem freertos_isr_blocking:
  assumes "pos_hw_in_isr_freertos hw k"
  shows "pos_mutex_lock_freertos hw mapi nil t tmo (mu, k) = Stops Assert_Failure \<and>
         pos_mutex_unlock_freertos hw mapi nil t (mu, k) = Stops Assert_Failure \<and>
         (fs_handle sem = Some h \<and> 0 < tmo \<longrightarrow>
           pos_sem_take_freertos hw sapi junk False tmo (sem, k) = Stops Assert_Failure) \<and>
         (0 < tmo \<longrightarrow> pos_queue_get_freertos hw qapi junk data tmo (q, k) = Stops Assert_Failure) \<and>
         pos_sem_take_freertos hw (sapi\<lparr>xSemaphoreTake := f1, xSemaphoreGive := f2\<rparr>) junk nil tmo (sem, k) =
           pos_sem_take_freertos hw sapi junk nil tmo (sem, k) \<and>
         pos_sem_give_freertos hw (sapi\<lparr>xSemaphoreTake := f1, xSemaphoreGive := f2\<rparr>) junk nil (sem, k) =
           pos_sem_give_freertos hw sapi junk nil (sem, k) \<and>
         pos_queue_get_freertos hw (qapi\<lparr>xQueueReceive := f3, xQueueSendToBack := f4\<rparr>) junk data tmo (q, k) =
           pos_queue_get_freertos hw qapi junk data tmo (q, k) \<and>
         pos_queue_put_freertos hw (qapi\<lparr>xQueueReceive := f3, xQueueSendToBack := f4\<rparr>) junk data (q, k) =
           pos_queue_put_freertos hw qapi junk data (q, k) \<and>
         pos_timer_start_freertos hw (tapi\<lparr>xTimerStop := f5, xTimerChangePeriod := f6, xTimerReset := f7\<rparr>)
             junks ticks (tm, k) =
           pos_timer_start_freertos hw tapi junks ticks (tm, k) \<and>
         (ft_handle tm = Some th \<longrightarrow>
           pos_timer_stop_freertos (tapi\<lparr>xTimerStop := f5\<rparr>) False (tm, k) =
             (case f5 th portMAX_DELAY k of
                Returns ret k' \<Rightarrow> Returns (pos_error_of_int ret) (tm, k')
              | Stops s \<Rightarrow> Stops s))"
proof (intro conjI impI)
  assume "fs_handle sem = Some h \<and> 0 < tmo"
  then show "pos_sem_take_freertos hw sapi junk False tmo (sem, k) = Stops Assert_Failure"
    by (auto simp: isr_sem_take [OF assms])
next
  assume "0 < tmo"
  then show "pos_queue_get_freertos hw qapi junk data tmo (q, k) = Stops Assert_Failure"
    by (auto intro: isr_queue_get_waits [OF assms])
qed (rule timer_stop_waits, assumption |
    rule isr_mutex_asserts [OF assms] isr_sem_independent [OF assms] isr_queue_independent [OF assms]
    isr_timer_independent [OF assms])+

theorem freertos_isr_blocking_witness:
  "pos_mutex_lock_freertos ref_hw ref_freertos_mutex False 1 0 (\<lparr>fm_handle = Some 0\<rparr>, ref_freertos0\<lparr>rf_isr := True\<rparr>) =
     Stops Assert_Failure \<and>
   pos_sem_take_freertos ref_hw ref_freertos_sem 0 False 5 (\<lparr>fs_handle = Some 0\<rparr>, ref_freertos0\<lparr>rf_isr := True\<rparr>) =
     Stops Assert_Failure \<and>
   pos_sem_take_freertos ref_hw (ref_freertos_sem\<lparr>xSemaphoreTake := \<lambda>h n k. Stops Blocked,
       xSemaphoreGive := \<lambda>h k. Stops Blocked\<rparr>) 0 False 0
     (\<lparr>fs_handle = Some 0\<rparr>, ref_freertos0\<lparr>rf_isr := True, rf_count := \<lambda>_. 1\<rparr>) =
     Returns POS_OK (\<lparr>fs_handle = Some 0\<rparr>, ref_freertos0\<lparr>rf_isr := True, rf_count := (\<lambda>_. 1)(0 := 0)\<rparr>)"
proof -
  have isr: "pos_hw_in_isr_freertos ref_hw (ref_freertos0\<lparr>rf_isr := True\<rparr>)"
    "pos_hw_in_isr_freertos ref_hw (ref_freertos0\<lparr>rf_isr := True, rf_count := \<lambda>_. 1\<rparr>)"
    by (simp_all add: pos_hw_in_isr_freertos_def ref_hw_def)
  have "pos_sem_take_freertos ref_hw ref_freertos_sem 0 False 0
      (\<lparr>fs_handle = Some 0\<rparr>, ref_freertos0\<lparr>rf_isr := True, rf_count := \<lambda>_. 1\<rparr>) =
      Returns POS_OK (\<lparr>fs_handle = Some 0\<rparr>, ref_freertos0\<lparr>rf_isr := True, rf_count := (\<lambda>_. 1)(0 := 0)\<rparr>)"
    by (subst isr_sem_take [OF isr(2)]) (simp_all add: ref_freertos_sem_def rf_take_def prog_defs)
  moreover have "pos_sem_take_freertos ref_hw (ref_freertos_sem\<lparr>xSemaphoreTake := \<lambda>h n k. Stops Blocked,
       xSemaphoreGive := \<lambda>h k. Stops Blocked\<rparr>) 0 False 0 (\<lparr>fs_handle = Some 0\<rparr>, ref_freertos0\<lparr>rf_isr := True, rf_count := \<lambda>_. 1\<rparr>) =
     pos_sem_take_freertos ref_hw ref_freertos_sem 0 False 0
      (\<lparr>fs_handle = Some 0\<rparr>, ref_freertos0\<lparr>rf_isr := True, rf_count := \<lambda>_. 1\<rparr>)"
    by (rule freertos_isr_blocking [OF isr(2), THEN conjunct2, THEN conjunct2, THEN conjunct2, THEN conjunct2, THEN conjunct1])
  moreover have "pos_sem_take_freertos ref_hw ref_freertos_sem 0 False 5
      (\<lparr>fs_handle = Some 0\<rparr>, ref_freertos0\<lparr>rf_isr := True\<rparr>) = Stops Assert_Failure"
    by (rule freertos_isr_blocking [OF isr(1), THEN conjunct2, THEN conjunct2, THEN conjunct1, rule_format])
      simp
  moreover have "pos_mutex_lock_freertos ref_hw ref_freertos_mutex False 1 0
      (\<lparr>fm_handle = Some 0\<rparr>, ref_freertos0\<lparr>rf_isr := True\<rparr>) = Stops Assert_Failure"
    by (rule freertos_isr_blocking [OF isr(1), THEN conjunct1])
  ultimately show ?thesis by simp
qed

end
