(* ===== verification/Os_Wrappers.thy ===== *)
theory Os_Wrappers
  imports Posix_Queue Posix_Sem Posix_Mutex Zephyr_Task
begin

text \<open>
  The C++ classes over the OSAL interface: \<^verbatim>\<open>OsMutex.h\<close>, \<^verbatim>\<open>OsSemaphore.h\<close>, \<^verbatim>\<open>OsQueue.h\<close>,
  \<^verbatim>\<open>OsTask.h\<close>, \<^verbatim>\<open>OsTimer.h\<close> and \<^verbatim>\<open>OsTime.h\<close> under \<^verbatim>\<open>include/poski\<close>.  The functions of the
  port they call are arguments; the world is the object's own fields and the world of the
  port.  The lemmas about mutexes, semaphores and queues rest on the contracts of the
  interfaces only, so they hold for every port that meets them.
\<close>

section \<open>Definitions\<close>

subsection \<open>OsMutex\<close>

record OsMutex =
  lock_depth :: u32

definition OsMutex_Lock ::
    "('t \<Rightarrow> pos_time \<Rightarrow> (pos_error, 'w) prog) \<Rightarrow> 't \<Rightarrow> pos_time \<Rightarrow> (pos_error, OsMutex \<times> 'w) prog" where
  "OsMutex_Lock pos_mutex_lock t timeout =
     c_bind (kcall (pos_mutex_lock t timeout)) (\<lambda>err.
     c_then (upd_obj (\<lambda>m. if err = POS_OK then m\<lparr>lock_depth := lock_depth m + 1\<rparr> else m))
       (c_return err))"

definition OsMutex_Unlock ::
    "('t \<Rightarrow> (pos_error, 'w) prog) \<Rightarrow> 't \<Rightarrow> (pos_error, OsMutex \<times> 'w) prog" where
  "OsMutex_Unlock pos_mutex_unlock t =
     c_bind (get_obj lock_depth) (\<lambda>d.
     c_then (c_assert (0 < d))
     (c_then (upd_obj (\<lambda>m. m\<lparr>lock_depth := lock_depth m - 1\<rparr>))
     (c_bind (kcall (pos_mutex_unlock t)) (\<lambda>err.
      c_then (upd_obj (\<lambda>m. if err \<noteq> POS_OK then m\<lparr>lock_depth := lock_depth m + 1\<rparr> else m))
        (c_return err)))))"

definition OsMutex_new ::
    "(pos_error, 'w) prog \<Rightarrow> ('t \<Rightarrow> pos_time \<Rightarrow> (pos_error, 'w) prog) \<Rightarrow> 't \<Rightarrow> bool \<Rightarrow> pos_time \<Rightarrow>
     (unit, OsMutex \<times> 'w) prog" where
  "OsMutex_new pos_mutex_init pos_mutex_lock t lock_on_construction timeout =
     c_then (upd_obj (\<lambda>m. m\<lparr>lock_depth := 0\<rparr>))
     (c_bind (kcall pos_mutex_init) (\<lambda>err.
      c_then (c_assert (err = POS_OK))
        (if lock_on_construction then
           c_bind (kcall (pos_mutex_lock t timeout)) (\<lambda>err.
           c_then (c_assert (err = POS_OK)) (upd_obj (\<lambda>m. m\<lparr>lock_depth := 1\<rparr>)))
         else c_return ())))"

text \<open>The destructor's loop; \<open>fuel\<close> bounds its rounds, and \<open>Blocked\<close> means it has not ended yet.\<close>

fun OsMutex_delete :: "nat \<Rightarrow> ('t \<Rightarrow> (pos_error, 'w) prog) \<Rightarrow> 't \<Rightarrow> (unit, OsMutex \<times> 'w) prog" where
  "OsMutex_delete 0 pos_mutex_unlock t = c_stop Blocked"
| "OsMutex_delete (Suc fuel) pos_mutex_unlock t =
     c_bind (get_obj lock_depth) (\<lambda>d.
       if 0 < d then
         c_bind (kcall (pos_mutex_unlock t)) (\<lambda>err.
         c_then (c_assert (err = POS_OK))
         (c_then (upd_obj (\<lambda>m. m\<lparr>lock_depth := lock_depth m - 1\<rparr>))
           (OsMutex_delete fuel pos_mutex_unlock t)))
       else c_return ())"

fun OsMutex_run ::
    "('t \<Rightarrow> pos_time \<Rightarrow> (pos_error, 'w) prog) \<Rightarrow> ('t \<Rightarrow> (pos_error, 'w) prog) \<Rightarrow> 't mutex_call list \<Rightarrow>
     (unit, OsMutex \<times> 'w) prog" where
  "OsMutex_run lock unlock [] = c_return ()"
| "OsMutex_run lock unlock (MLock t tmo # cs) = c_then (OsMutex_Lock lock t tmo) (OsMutex_run lock unlock cs)"
| "OsMutex_run lock unlock (MUnlock t # cs) = c_then (OsMutex_Unlock unlock t) (OsMutex_run lock unlock cs)"

subsection \<open>OsSemaphore\<close>

text \<open>\<open>take_depth_\<close> is an atomic \<open>int32_t\<close>, which wraps.\<close>

record OsSemaphore =
  take_depth :: u32

definition OsSemaphore_Take ::
    "(pos_time \<Rightarrow> (pos_error, 'w) prog) \<Rightarrow> pos_time \<Rightarrow> (pos_error, OsSemaphore \<times> 'w) prog" where
  "OsSemaphore_Take pos_sem_take timeout =
     c_bind (kcall (pos_sem_take timeout)) (\<lambda>err.
     c_then (upd_obj (\<lambda>s. if err = POS_OK then s\<lparr>take_depth := take_depth s + 1\<rparr> else s))
       (c_return err))"

definition OsSemaphore_Give :: "(pos_error, 'w) prog \<Rightarrow> (pos_error, OsSemaphore \<times> 'w) prog" where
  "OsSemaphore_Give pos_sem_give =
     c_bind (kcall pos_sem_give) (\<lambda>err.
     c_then (upd_obj (\<lambda>s. if err = POS_OK then s\<lparr>take_depth := take_depth s - 1\<rparr> else s))
       (c_return err))"

definition OsSemaphore_new ::
    "(u16 \<Rightarrow> (pos_error, 'w) prog) \<Rightarrow> (pos_time \<Rightarrow> (pos_error, 'w) prog) \<Rightarrow> u16 \<Rightarrow> bool \<Rightarrow> pos_time \<Rightarrow>
     (unit, OsSemaphore \<times> 'w) prog" where
  "OsSemaphore_new pos_sem_init pos_sem_take initialTokens take_on_construction timeout =
     c_then (upd_obj (\<lambda>s. s\<lparr>take_depth := 0\<rparr>))
     (c_bind (kcall (pos_sem_init initialTokens)) (\<lambda>err.
      c_then (c_assert (err = POS_OK))
        (if take_on_construction then
           c_bind (kcall (pos_sem_take timeout)) (\<lambda>err.
           c_then (c_assert (err = POS_OK)) (upd_obj (\<lambda>s. s\<lparr>take_depth := 1\<rparr>)))
         else c_return ())))"

fun OsSemaphore_delete :: "nat \<Rightarrow> (pos_error, 'w) prog \<Rightarrow> (unit, OsSemaphore \<times> 'w) prog" where
  "OsSemaphore_delete 0 pos_sem_give = c_stop Blocked"
| "OsSemaphore_delete (Suc fuel) pos_sem_give =
     c_bind (get_obj take_depth) (\<lambda>d.
       if 0 < sint d then
         c_bind (kcall pos_sem_give) (\<lambda>err.
         c_then (c_assert (err = POS_OK))
         (c_then (upd_obj (\<lambda>s. s\<lparr>take_depth := take_depth s - 1\<rparr>))
           (OsSemaphore_delete fuel pos_sem_give)))
       else c_return ())"

fun OsSemaphore_run ::
    "(pos_error, 'w) prog \<Rightarrow> (pos_time \<Rightarrow> (pos_error, 'w) prog) \<Rightarrow> sem_call list \<Rightarrow>
     (unit, OsSemaphore \<times> 'w) prog" where
  "OsSemaphore_run sem_give sem_take [] = c_return ()"
| "OsSemaphore_run sem_give sem_take (SGive # cs) =
     c_then (OsSemaphore_Give sem_give) (OsSemaphore_run sem_give sem_take cs)"
| "OsSemaphore_run sem_give sem_take (STake tmo # cs) =
     c_then (OsSemaphore_Take sem_take tmo) (OsSemaphore_run sem_give sem_take cs)"

subsection \<open>OsQueue\<close>

record OsQueue =
  initialized :: bool
  init_status :: pos_error

definition OsQueue_new ::
    "(u32 \<Rightarrow> u32 \<Rightarrow> (pos_error, 'w) prog) \<Rightarrow> u32 \<Rightarrow> u32 \<Rightarrow> (unit, OsQueue \<times> 'w) prog" where
  "OsQueue_new pos_queue_init sizeof_T QueueSize =
     c_then (upd_obj (\<lambda>_. \<lparr>initialized = False, init_status = POS_EINVAL\<rparr>))
     (c_bind (kcall (pos_queue_init sizeof_T QueueSize)) (\<lambda>err.
      c_then (upd_obj (\<lambda>q. q\<lparr>init_status := err\<rparr>))
      (c_then (upd_obj (\<lambda>q. q\<lparr>initialized := (init_status q = POS_OK)\<rparr>))
        (c_assert (err = POS_OK)))))"

definition OsQueue_delete :: "(pos_error, 'w) prog \<Rightarrow> (unit, OsQueue \<times> 'w) prog" where
  "OsQueue_delete pos_queue_deinit =
     c_bind (get_obj initialized) (\<lambda>ini.
       if \<not> ini then c_return ()
       else
         c_bind (kcall pos_queue_deinit) (\<lambda>err.
         c_then (c_assert (err = POS_OK))
           (upd_obj (\<lambda>q. if err = POS_OK then q\<lparr>initialized := False\<rparr> else q))))"

definition OsQueue_Pop ::
    "(bytes \<Rightarrow> pos_time \<Rightarrow> (pos_error \<times> bytes, 'w) prog) \<Rightarrow> bytes \<Rightarrow> pos_time \<Rightarrow>
     (pos_error \<times> bytes, OsQueue \<times> 'w) prog" where
  "OsQueue_Pop pos_queue_get item timeout =
     c_bind (get_obj initialized) (\<lambda>ini.
       if \<not> ini then c_return (POS_EINVAL, item) else kcall (pos_queue_get item timeout))"

definition OsQueue_Push ::
    "(bytes \<Rightarrow> (pos_error, 'w) prog) \<Rightarrow> bytes \<Rightarrow> (pos_error, OsQueue \<times> 'w) prog" where
  "OsQueue_Push pos_queue_put item =
     c_bind (get_obj initialized) (\<lambda>ini.
       if \<not> ini then c_return POS_EINVAL else kcall (pos_queue_put item))"

definition OsQueue_IsEmpty :: "(bool, 'w) prog \<Rightarrow> (bool, OsQueue \<times> 'w) prog" where
  "OsQueue_IsEmpty pos_queue_is_empty =
     c_bind (get_obj initialized) (\<lambda>ini. if \<not> ini then c_return False else kcall pos_queue_is_empty)"

definition OsQueue_Inited :: "(int, 'w) prog \<Rightarrow> (bool, OsQueue \<times> 'w) prog" where
  "OsQueue_Inited pos_queue_inited =
     c_bind (get_obj initialized) (\<lambda>ini.
       if ini then c_bind (kcall pos_queue_inited) (\<lambda>r. c_return (r \<noteq> 0)) else c_return False)"

definition OsQueue_SetSignalCallback ::
    "('f option \<Rightarrow> 'p option \<Rightarrow> (unit, 'w) prog) \<Rightarrow> 'f option \<Rightarrow> 'p option \<Rightarrow> (unit, OsQueue \<times> 'w) prog" where
  "OsQueue_SetSignalCallback pos_queue_set_signal_cb signal_cb data =
     c_bind (get_obj initialized) (\<lambda>ini.
       if \<not> ini then c_return () else kcall (pos_queue_set_signal_cb signal_cb data))"

subsection \<open>OsTask\<close>

record OsTask =
  inited :: bool

definition OsTask_new :: OsTask where
  "OsTask_new = \<lparr>inited = False\<rparr>"

text \<open>\<open>pos_task_init\<close> is the port's function applied to the arguments of \<open>Start\<close>.\<close>

definition OsTask_Start :: "(pos_error, 'w) prog \<Rightarrow> (pos_error, OsTask \<times> 'w) prog" where
  "OsTask_Start pos_task_init =
     c_bind (kcall pos_task_init) (\<lambda>err.
     c_then (upd_obj (\<lambda>t. if err = POS_OK then t\<lparr>inited := True\<rparr> else t)) (c_return err))"

definition OsTask_Remove :: "(pos_error, 'w) prog \<Rightarrow> (pos_error, OsTask \<times> 'w) prog" where
  "OsTask_Remove pos_task_remove =
     c_bind (get_obj inited) (\<lambda>ini.
       if ini then
         c_bind (kcall pos_task_remove) (\<lambda>err.
         c_then (upd_obj (\<lambda>t. if err = POS_OK then t\<lparr>inited := False\<rparr> else t)) (c_return err))
       else c_return POS_ERROR)"

text \<open>The static members pass on to the port.\<close>

definition OsTask_Yield :: "(unit, 'k) prog \<Rightarrow> (unit, 'k) prog" where
  "OsTask_Yield pos_task_yield = pos_task_yield"

definition OsTask_Sleep :: "(pos_time \<Rightarrow> (unit, 'k) prog) \<Rightarrow> pos_time \<Rightarrow> (unit, 'k) prog" where
  "OsTask_Sleep pos_task_sleep_ms ms = pos_task_sleep_ms ms"

definition OsTask_SleepTicks :: "(pos_time \<Rightarrow> (unit, 'k) prog) \<Rightarrow> pos_time \<Rightarrow> (unit, 'k) prog" where
  "OsTask_SleepTicks pos_task_sleep ticks = pos_task_sleep ticks"

definition OsTask_SleepMs :: "(pos_time \<Rightarrow> (unit, 'k) prog) \<Rightarrow> pos_time \<Rightarrow> (unit, 'k) prog" where
  "OsTask_SleepMs pos_task_sleep_ms ms = pos_task_sleep_ms ms"

definition OsTask_SchedStart :: "(unit, 'k) prog \<Rightarrow> (unit, 'k) prog" where
  "OsTask_SchedStart pos_sched_start = pos_sched_start"

definition OsTask_SchedStarted :: "(bool, 'k) prog \<Rightarrow> (bool, 'k) prog" where
  "OsTask_SchedStarted pos_sched_started = pos_sched_started"

definition OsTask_GetCurrentTaskId :: "('h, 'k) prog \<Rightarrow> ('h, 'k) prog" where
  "OsTask_GetCurrentTaskId pos_get_current_task_id = pos_get_current_task_id"

subsection \<open>OsTimer\<close>

text \<open>The object has no field of its own; every member passes on to the port.\<close>

definition OsTimer_new :: "('f option \<Rightarrow> 'p option \<Rightarrow> (pos_error, 'w) prog) \<Rightarrow> 'f option \<Rightarrow> 'p option \<Rightarrow> (unit, 'w) prog" where
  "OsTimer_new pos_timer_init cb arg = c_bind (pos_timer_init cb arg) (\<lambda>err. c_assert (err = POS_OK))"

definition OsTimer_Start :: "(pos_time \<Rightarrow> (pos_error, 'w) prog) \<Rightarrow> pos_time \<Rightarrow> (pos_error, 'w) prog" where
  "OsTimer_Start pos_timer_start ticks = pos_timer_start ticks"

definition OsTimer_StartMs :: "(pos_time \<Rightarrow> (pos_error, 'w) prog) \<Rightarrow> pos_time \<Rightarrow> (pos_error, 'w) prog" where
  "OsTimer_StartMs pos_timer_start_ms ms = pos_timer_start_ms ms"

definition OsTimer_Stop :: "(pos_error, 'w) prog \<Rightarrow> (pos_error, 'w) prog" where
  "OsTimer_Stop pos_timer_stop = pos_timer_stop"

definition OsTimer_IsActive :: "(bool, 'w) prog \<Rightarrow> (bool, 'w) prog" where
  "OsTimer_IsActive pos_timer_is_active = pos_timer_is_active"

definition OsTimer_GetTicks :: "(pos_time, 'w) prog \<Rightarrow> (pos_time, 'w) prog" where
  "OsTimer_GetTicks pos_timer_get_ticks = pos_timer_get_ticks"

definition OsTimer_RemainingTicks :: "(pos_time \<Rightarrow> (pos_time, 'w) prog) \<Rightarrow> pos_time \<Rightarrow> (pos_time, 'w) prog" where
  "OsTimer_RemainingTicks pos_timer_remaining_ticks time = pos_timer_remaining_ticks time"

definition OsTimer_ArgSet :: "('p option \<Rightarrow> (unit, 'w) prog) \<Rightarrow> 'p option \<Rightarrow> (unit, 'w) prog" where
  "OsTimer_ArgSet pos_timer_arg_set arg = pos_timer_arg_set arg"

definition OsTimer_ArgGet :: "('p option, 'w) prog \<Rightarrow> ('p option, 'w) prog" where
  "OsTimer_ArgGet pos_timer_arg_get = pos_timer_arg_get"

subsection \<open>OsTime\<close>

definition OsTime_Get :: "(pos_time, 'k) prog \<Rightarrow> (pos_time, 'k) prog" where
  "OsTime_Get pos_time_get = pos_time_get"

definition OsTime_GetMs :: "(pos_time, 'k) prog \<Rightarrow> (pos_time, 'k) prog" where
  "OsTime_GetMs pos_time_get_ms = pos_time_get_ms"

definition OsTime_MsToTicks :: "(pos_time \<Rightarrow> pos_time) \<Rightarrow> pos_time \<Rightarrow> pos_time" where
  "OsTime_MsToTicks pos_time_ms_to_ticks ms = pos_time_ms_to_ticks ms"

definition OsTime_TicksToMs :: "(pos_time \<Rightarrow> pos_time) \<Rightarrow> pos_time \<Rightarrow> pos_time" where
  "OsTime_TicksToMs pos_time_ticks_to_ms ticks = pos_time_ticks_to_ms ticks"

section \<open>OsMutex over any mutex that meets the contract\<close>

definition depth_of :: "'t mutex_state \<Rightarrow> nat" where
  "depth_of st = (case st of None \<Rightarrow> 0 | Some (_, n) \<Rightarrow> n)"

context osal_mutex
begin

lemma OsMutex_Lock_depth:
  assumes "ready w" and "unat (lock_depth m) = depth_of (own w)" and "depth_of (own w) + 1 < 2 ^ 32"
    and "OsMutex_Lock lock t tmo (m, w) = Returns e (m', w')"
  shows "ready w' \<and> unat (lock_depth m') = depth_of (own w') \<and> depth_of (own w') \<le> depth_of (own w) + 1"
proof -
  have l: "lock t tmo w = Returns e w'"
    and m': "m' = (if e = POS_OK then m\<lparr>lock_depth := lock_depth m + 1\<rparr> else m)"
    using assms(4) by (auto simp: OsMutex_Lock_def prog_defs split: outcome.splits)
  have "unat (lock_depth m + 1) = unat (lock_depth m) + 1"
    using assms(2,3) by (simp add: unat_word_ariths)
  moreover have "ready w' \<and> depth_of (own w') = (if e = POS_OK then depth_of (own w) + 1 else depth_of (own w))"
  proof (cases "own w")
    case None
    then show ?thesis using lock_free [of w t tmo] assms(1) l by (auto simp: depth_of_def)
  next
    case (Some p)
    obtain u n where p: "p = (u, n)" by (cases p)
    show ?thesis
      using lock_again [of w t n tmo] lock_other [of w u n t tmo] assms(1) l Some p
      by (cases "u = t") (auto simp: depth_of_def)
  qed
  ultimately show ?thesis using assms(2) m' by auto
qed

lemma OsMutex_Unlock_depth:
  assumes "ready w" and "unat (lock_depth m) = depth_of (own w)"
    and "OsMutex_Unlock unlock t (m, w) = Returns e (m', w')"
  shows "ready w' \<and> unat (lock_depth m') = depth_of (own w') \<and> depth_of (own w') \<le> depth_of (own w)"
proof -
  have d: "0 < lock_depth m" and u: "unlock t w = Returns e w'"
    and m': "m' = (if e \<noteq> POS_OK then m\<lparr>lock_depth := lock_depth m - 1 + 1\<rparr> else m\<lparr>lock_depth := lock_depth m - 1\<rparr>)"
    using assms(3) by (auto simp: OsMutex_Unlock_def prog_defs split: outcome.splits if_splits)
  have "unat (lock_depth m - 1) = unat (lock_depth m) - 1" using d by (simp add: unat_minus_one word_gt_0)
  moreover have "ready w' \<and> depth_of (own w') = (if e = POS_OK then depth_of (own w) - 1 else depth_of (own w))"
  proof (cases "held (own w) t")
    case 0
    then show ?thesis using unlock_other [OF assms(1) 0] u by auto
  next
    case (Suc n)
    then have "own w = Some (t, Suc n)" by (cases "own w") (auto split: if_splits)
    then show ?thesis using unlock_own [OF assms(1), of t n] u by (auto simp: depth_of_def released_def)
  qed
  ultimately show ?thesis using assms(2) m' by auto
qed

lemma OsMutex_run_depth:
  assumes "ready w" and "unat (lock_depth m) = depth_of (own w)" and "depth_of (own w) + length cs < 2 ^ 32"
    and "OsMutex_run lock unlock cs (m, w) = Returns () (m', w')"
  shows "ready w' \<and> unat (lock_depth m') = depth_of (own w') \<and> depth_of (own w') < 2 ^ 32"
  using assms
proof (induction cs arbitrary: m w)
  case Nil
  then show ?case by (simp add: c_return_def)
next
  case (Cons c cs)
  show ?case
  proof (cases c)
    case (MLock t tmo)
    then obtain e m1 w1 where 1: "OsMutex_Lock lock t tmo (m, w) = Returns e (m1, w1)"
        "OsMutex_run lock unlock cs (m1, w1) = Returns () (m', w')"
      using Cons.prems(4) by (auto simp: c_then_def elim!: c_bind_ReturnsE)
    have "ready w1 \<and> unat (lock_depth m1) = depth_of (own w1) \<and> depth_of (own w1) \<le> depth_of (own w) + 1"
      using OsMutex_Lock_depth [OF Cons.prems(1,2) _ 1(1)] Cons.prems(3) by simp
    then show ?thesis using Cons.IH [OF _ _ _ 1(2)] Cons.prems(3) by simp
  next
    case (MUnlock t)
    then obtain e m1 w1 where 1: "OsMutex_Unlock unlock t (m, w) = Returns e (m1, w1)"
        "OsMutex_run lock unlock cs (m1, w1) = Returns () (m', w')"
      using Cons.prems(4) by (auto simp: c_then_def elim!: c_bind_ReturnsE)
    have "ready w1 \<and> unat (lock_depth m1) = depth_of (own w1) \<and> depth_of (own w1) \<le> depth_of (own w)"
      by (rule OsMutex_Unlock_depth [OF Cons.prems(1,2) 1(1)])
    then show ?thesis using Cons.IH [OF _ _ _ 1(2)] Cons.prems(3) by simp
  qed
qed

lemma OsMutex_delete_releases:
  assumes "ready w" and "unat (lock_depth m) = n" and "own w = released t n" and "n < fuel"
  shows "\<exists>m' w'. OsMutex_delete fuel unlock t (m, w) = Returns () (m', w') \<and> own w' = None \<and> lock_depth m' = 0"
  using assms
proof (induction fuel arbitrary: n m w)
  case 0
  then show ?case by simp
next
  case (Suc fuel)
  show ?case
  proof (cases n)
    case 0
    then have "lock_depth m = 0" using Suc.prems(2) by (simp add: unat_eq_zero)
    then show ?thesis using Suc.prems(3) 0 by (simp add: prog_defs released_def)
  next
    case (Suc j)
    then have d: "lock_depth m \<noteq> 0" using Suc.prems(2) by auto
    obtain w1 where w1: "unlock t w = Returns POS_OK w1" "ready w1" "own w1 = released t j"
      using unlock_own [of w t j] Suc.prems(1,3) Suc by (auto simp: released_def)
    let ?m1 = "m\<lparr>lock_depth := lock_depth m - 1\<rparr>"
    have "unat (lock_depth ?m1) = j" using Suc.prems(2) Suc d by (simp add: unat_minus_one)
    then obtain m' w' where "OsMutex_delete fuel unlock t (?m1, w1) = Returns () (m', w')"
        "own w' = None" "lock_depth m' = 0"
      using Suc.IH [of w1 ?m1 j] w1 Suc.prems(4) Suc by auto
    then show ?thesis using w1(1) d by (simp add: prog_defs word_gt_0)
  qed
qed

end

section \<open>OsSemaphore over any semaphore that meets the contract\<close>

context osal_sem
begin

lemma OsSemaphore_run_depth:
  assumes "ready w" and "tokens w + length (filter (\<lambda>c. c = SGive) cs) \<le> limit"
    and "take_depth s = word_of_int d"
    and "OsSemaphore_run sem_give sem_take cs (s, w) = Returns () (s', w')"
  shows "ready w' \<and> (\<exists>d'. take_depth s' = word_of_int d' \<and> int (tokens w') + d' = int (tokens w) + d \<and>
           \<bar>d' - d\<bar> \<le> int (length cs))"
  using assms
proof (induction cs arbitrary: s w d)
  case Nil
  then show ?case by (auto simp: c_return_def)
next
  case (Cons c cs)
  show ?case
  proof (cases c)
    case SGive
    then obtain e s1 w1 where 1: "OsSemaphore_Give sem_give (s, w) = Returns e (s1, w1)"
        "OsSemaphore_run sem_give sem_take cs (s1, w1) = Returns () (s', w')"
      using Cons.prems(4) by (auto simp: c_then_def elim!: c_bind_ReturnsE)
    let ?d = "if e = POS_OK then d - 1 else d"
    have g: "sem_give w = Returns e w1" and s1: "take_depth s1 = word_of_int ?d"
      using 1(1) Cons.prems(3) by (auto simp: OsSemaphore_Give_def prog_defs split: outcome.splits)
    have "ready w1" "tokens w1 = (if e = POS_OK then Suc (tokens w) else tokens w)"
      using give_returns [OF Cons.prems(1) g] Cons.prems(2) SGive by auto
    then show ?thesis using Cons.IH [OF _ _ s1 1(2)] Cons.prems(2) SGive by (fastforce split: if_splits)
  next
    case (STake tmo)
    then obtain e s1 w1 where 1: "OsSemaphore_Take sem_take tmo (s, w) = Returns e (s1, w1)"
        "OsSemaphore_run sem_give sem_take cs (s1, w1) = Returns () (s', w')"
      using Cons.prems(4) by (auto simp: c_then_def elim!: c_bind_ReturnsE)
    let ?d = "if e = POS_OK then d + 1 else d"
    have t: "sem_take tmo w = Returns e w1" and s1: "take_depth s1 = word_of_int ?d"
      using 1(1) Cons.prems(3) by (auto simp: OsSemaphore_Take_def prog_defs split: outcome.splits)
    have "ready w1" "tokens w = (if e = POS_OK then Suc (tokens w1) else tokens w1)"
      using take_returns [OF Cons.prems(1) t] by auto
    then show ?thesis using Cons.IH [OF _ _ s1 1(2)] Cons.prems(2) STake by (fastforce split: if_splits)
  qed
qed

lemma OsSemaphore_delete_gives:
  assumes "ready w" and "take_depth s = word_of_nat n" and "n < 2 ^ 31" and "tokens w + n \<le> limit"
    and "n < fuel"
  shows "\<exists>s' w'. OsSemaphore_delete fuel sem_give (s, w) = Returns () (s', w') \<and> tokens w' = tokens w + n"
  using assms
proof (induction fuel arbitrary: n s w)
  case 0
  then show ?case by simp
next
  case (Suc fuel)
  have sn: "sint (word_of_nat n :: u32) = int n"
    using Suc.prems(3) by (simp add: signed_of_nat signed_take_bit_int_eq_self)
  show ?case
  proof (cases n)
    case 0
    then show ?thesis using Suc.prems(2) by (simp add: prog_defs)
  next
    case (Suc j)
    obtain w1 where w1: "sem_give w = Returns POS_OK w1" "ready w1" "tokens w1 = Suc (tokens w)"
      using give_room [OF Suc.prems(1)] Suc.prems(4) Suc by auto
    let ?s1 = "s\<lparr>take_depth := take_depth s - 1\<rparr>"
    have "take_depth ?s1 = word_of_nat j" using Suc.prems(2) Suc by simp
    then obtain s' w' where "OsSemaphore_delete fuel sem_give (?s1, w1) = Returns () (s', w')"
        "tokens w' = tokens w1 + j"
      using Suc.IH [of w1 ?s1 j] w1 Suc.prems(3-5) Suc by auto
    then show ?thesis using w1 sn Suc.prems(2) Suc by (auto simp: prog_defs)
  qed
qed

lemma OsSemaphore_raii:
  assumes "ready w" and "tokens w + length (filter (\<lambda>c. c = SGive) cs) \<le> limit" and "length cs < 2 ^ 31"
    and "OsSemaphore_run sem_give sem_take cs (\<lparr>take_depth = 0\<rparr>, w) = Returns () (s', w')"
  shows "int (tokens w') + sint (take_depth s') = int (tokens w) \<and>
         (0 \<le> sint (take_depth s') \<longrightarrow>
           (\<exists>s2 w2. OsSemaphore_delete (Suc (nat (sint (take_depth s')))) sem_give (s', w') = Returns () (s2, w2) \<and>
             tokens w2 = tokens w))"
proof -
  obtain d where d: "ready w'" "take_depth s' = word_of_int d" "int (tokens w') + d = int (tokens w)"
      "\<bar>d\<bar> \<le> int (length cs)"
    using OsSemaphore_run_depth [OF assms(1,2) _ assms(4), of 0] by auto
  have "int (length cs) < 2 ^ 31" using assms(3) by simp
  then have "\<bar>d\<bar> < 2 ^ 31" using d(4) by (rule le_less_trans [rotated])
  then have sd: "sint (take_depth s') = d"
    using d(2) by (simp add: signed_of_int signed_take_bit_int_eq_self_iff abs_less_iff)
  moreover have "\<exists>s2 w2. OsSemaphore_delete (Suc (nat d)) sem_give (s', w') = Returns () (s2, w2) \<and>
      tokens w2 = tokens w" if "0 \<le> d"
  proof -
    have "take_depth s' = word_of_nat (nat d)" using d(2) that by simp
    moreover have "nat d < 2 ^ 31" using \<open>\<bar>d\<bar> < 2 ^ 31\<close> that by simp
    moreover have "tokens w' + nat d = tokens w" using d(3) that by simp
    ultimately show ?thesis
      using OsSemaphore_delete_gives [OF d(1), of s' "nat d" "Suc (nat d)"] assms(2) by auto
  qed
  ultimately show ?thesis using d(3) by simp
qed

end

section \<open>OsQueue over any queue that meets the contract\<close>

context osal_queue
begin

lemma OsQueue_is_queue:
  "osal_queue (OsQueue_Push put) (OsQueue_Pop get) (\<lambda>(q, w). items w) (\<lambda>(q, w). cap w) (\<lambda>(q, w). width w)
     (\<lambda>(q, w). initialized q \<and> ok w)"
proof (unfold_locales, goal_cases)
  case (1 w x)
  then show ?case using put_room [of "snd w" x] by (cases w) (auto simp: OsQueue_Push_def prog_defs)
next
  case (2 w x)
  then show ?case using put_full [of "snd w" x] by (cases w) (auto simp: OsQueue_Push_def prog_defs)
next
  case (3 w y ys out tmo)
  then show ?case using get_item [of "snd w" y ys out tmo] by (cases w) (auto simp: OsQueue_Pop_def prog_defs)
next
  case (4 w)
  then show ?case using items_cap by (cases w) auto
next
  case (5 w y)
  then show ?case using items_width by (cases w) auto
next
  case (6 w out tmo)
  then show ?case using get_none [of "snd w" out tmo] by (cases w) (auto simp: OsQueue_Pop_def prog_defs)
qed

end

interpretation os_queue_posix: osal_queue "OsQueue_Push (pos_queue_put_posix run_cb)"
  "OsQueue_Pop pos_queue_get_posix" "\<lambda>(q, w). pq_items w" "\<lambda>(q, w). pq_cap w" "\<lambda>(q, w). pq_width w"
  "\<lambda>(q, w). initialized q \<and> pq_ok w"
  by (rule posix_queue.OsQueue_is_queue)

section \<open>Properties\<close>

text \<open>C25. \<open>OsMutex\<close> over any mutex that meets the OSAL contract: after any sequence of \<open>Lock\<close> and
  \<open>Unlock\<close> calls of any tasks on a free mutex, the object's counter is exactly the nesting depth of the
  owner, and the destructor, run by the owner, terminates and leaves the mutex free.\<close>

theorem os_mutex_raii:
  assumes "osal_mutex lock unlock own ready limit" and "ready w" and "own w = None" and "length cs < 2 ^ 32"
    and "OsMutex_run lock unlock cs (\<lparr>lock_depth = 0\<rparr>, w) = Returns () (m', w')"
  shows "unat (lock_depth m') = depth_of (own w') \<and>
         (own w' = released t n \<longrightarrow>
           (\<exists>m2 w2. OsMutex_delete (Suc n) unlock t (m', w') = Returns () (m2, w2) \<and> own w2 = None))"
proof -
  have r: "ready w'" "unat (lock_depth m') = depth_of (own w')"
    using osal_mutex.OsMutex_run_depth [OF assms(1,2) _ _ assms(5)] assms(3,4) by (auto simp: depth_of_def)
  moreover have "unat (lock_depth m') = n" if "own w' = released t n"
    using r(2) that by (auto simp: depth_of_def released_def split: if_splits)
  ultimately show ?thesis
    using osal_mutex.OsMutex_delete_releases [OF assms(1) r(1), of m' n t "Suc n"] by blast
qed

theorem os_mutex_raii_witness:
  "\<exists>m' w' m2 w2. OsMutex_run (pos_mutex_lock_posix ref_mutex_api) (pos_mutex_unlock_posix ref_mutex_api)
       [MLock 1 0, MLock 1 0, MLock 2 0] (\<lparr>lock_depth = 0\<rparr>, mutex0, ref_mutexes1) = Returns () (m', w') \<and>
     OsMutex_delete 3 (pos_mutex_unlock_posix ref_mutex_api) 1 (m', w') = Returns () (m2, w2) \<and>
     rm_own (snd w2) (pm_lock (fst w2)) = None"
proof -
  let ?own = "\<lambda>(mu, k). rm_own k (pm_lock mu)"
  obtain m' mu' k' where run: "OsMutex_run (pos_mutex_lock_posix ref_mutex_api) (pos_mutex_unlock_posix ref_mutex_api)
       [MLock 1 0, MLock 1 0, MLock 2 0] (\<lparr>lock_depth = 0\<rparr>, mutex0, ref_mutexes1) = Returns () (m', mu', k')"
      and own: "?own (mu', k') = released 1 2"
    by (simp add: OsMutex_Lock_def pos_mutex_lock_posix_def ref_mutex_simps mutex0_def ref_mutexes1_def
        ref_mutexes0_def POS_TIME_FOREVER_posix_def deadline_after_def timespec_of_ns_def valid_timespec_def)
  have rec: "case (mutex0, ref_mutexes1) of (mu, k) \<Rightarrow> rm_recursive k (pm_lock mu)"
    "?own (mutex0, ref_mutexes1) = None"
    by (simp_all add: rm_recursive_def mutex0_def ref_mutexes1_def ref_mutexes0_def)
  obtain m2 w2 where "OsMutex_delete (Suc 2) (pos_mutex_unlock_posix ref_mutex_api) 1 (m', mu', k') = Returns () (m2, w2)"
      "?own w2 = None"
    using os_mutex_raii [OF ref_posix_mutex.posix_mutex.osal_mutex_axioms rec _ run, of 1 2] own by auto
  moreover have "Suc 2 = (3 :: nat)" by simp
  ultimately show ?thesis using run by (metis (mono_tags, lifting) case_prod_unfold)
qed

text \<open>\<open>OsSemaphore\<close> over any semaphore that meets the OSAL contract: after any sequence of \<open>Take\<close> and
  \<open>Give\<close> calls, tokens plus the object's counter are the initial tokens; and when the counter is not
  negative the destructor terminates and gives every token back.\<close>

theorem os_semaphore_raii:
  assumes "osal_sem sem_give sem_take tokens limit ready" and "ready w"
    and "tokens w + length (filter (\<lambda>c. c = SGive) cs) \<le> limit" and "length cs < 2 ^ 31"
    and "OsSemaphore_run sem_give sem_take cs (\<lparr>take_depth = 0\<rparr>, w) = Returns () (s', w')"
  shows "int (tokens w') + sint (take_depth s') = int (tokens w) \<and>
         (0 \<le> sint (take_depth s') \<longrightarrow>
           (\<exists>s2 w2. OsSemaphore_delete (Suc (nat (sint (take_depth s')))) sem_give (s', w') = Returns () (s2, w2) \<and>
             tokens w2 = tokens w))"
  by (rule osal_sem.OsSemaphore_raii [OF assms])

theorem os_semaphore_raii_witness:
  "\<exists>s' w'. OsSemaphore_run (pos_sem_give_posix ref_sem_api) (pos_sem_take_posix ref_sem_api) [STake 1, STake 2, SGive]
       (\<lparr>take_depth = 0\<rparr>, \<lparr>ps_lock = 0\<rparr>, \<lparr>rs_count = \<lambda>_. 2, rs_live = \<lambda>_. True, rs_errno = 0, rs_now = 0\<rparr>) =
       Returns () (s', w') \<and>
     int (rs_count (snd w') (ps_lock (fst w'))) + sint (take_depth s') = 2"
proof -
  let ?w = "(\<lparr>ps_lock = 0\<rparr>, \<lparr>rs_count = \<lambda>_. 2, rs_live = \<lambda>_. True, rs_errno = 0, rs_now = 0\<rparr>)"
  obtain s' w' where run: "OsSemaphore_run (pos_sem_give_posix ref_sem_api) (pos_sem_take_posix ref_sem_api)
       [STake 1, STake 2, SGive] (\<lparr>take_depth = 0\<rparr>, ?w) = Returns () (s', w')"
    by (simp add: OsSemaphore_Take_def OsSemaphore_Give_def pos_sem_take_posix_def pos_sem_give_posix_def
        ref_sem_simps POS_TIME_FOREVER_posix_def numeral_2_eq_2)
  have "case ?w of (s, k) \<Rightarrow> s = \<lparr>ps_lock = 0\<rparr> \<and> rs_live_ok k (ps_lock s)"
    by (simp add: rs_live_ok_def SEM_VALUE_MAX_def)
  from os_semaphore_raii [OF ref_posix_sem.posix_sem.osal_sem_axioms this _ _ run] run
  show ?thesis by (auto simp: SEM_VALUE_MAX_def case_prod_unfold)
qed

text \<open>\<open>OsQueue\<close> over the POSIX queue is first in, first out: over any sequence of \<open>Push\<close> and \<open>Pop\<close>
  calls on an initialised object whose queue is empty, the accepted items are exactly the delivered
  ones, in order, followed by those still queued; an object that is not initialised refuses both.\<close>

theorem os_queue_posix_fifo:
  assumes "pq_ok w" and "pq_items w = []" and "initialized q"
    and "\<forall>c \<in> set cs. call_area_ok (pq_width w) c"
    and "queue_run (OsQueue_Push (pos_queue_put_posix run_cb)) (OsQueue_Pop pos_queue_get_posix) cs (q, w) =
           Returns (sent, got) (q', w')"
  shows "map (take (pq_width w)) sent = map (take (pq_width w)) got @ pq_items w' \<and>
         (\<not> initialized q2 \<longrightarrow>
           OsQueue_Push (pos_queue_put_posix run_cb) x (q2, w) = Returns POS_EINVAL (q2, w) \<and>
           OsQueue_Pop pos_queue_get_posix x tmo (q2, w) = Returns (POS_EINVAL, x) (q2, w))"
  using os_queue_posix.queue_run_fifo [of "(q, w)" cs run_cb sent got "(q', w')"] assms
  by (auto simp: OsQueue_Push_def OsQueue_Pop_def prog_defs)

theorem os_queue_posix_fifo_witness:
  "\<exists>sent got q' w'. queue_run
       (OsQueue_Push (pos_queue_put_posix (\<lambda>(f :: nat) (a :: nat option) (k :: unit). Returns () k)))
       (OsQueue_Pop pos_queue_get_posix) [QPut [7], QPut [8], QGet [0] 1]
       (\<lparr>initialized = True, init_status = POS_OK\<rparr>,
        \<lparr>pq_ring = Some ring_new_1_2, pq_sig_cb = None, pq_sig_arg = None\<rparr>, ()) = Returns (sent, got) (q', w') \<and>
     map (take 1) sent = map (take 1) got @ pq_items w' \<and> got = [[7]]"
proof -
  let ?cb = "\<lambda>(f :: nat) (a :: nat option) (k :: unit). Returns () k"
  let ?w = "(\<lparr>pq_ring = Some ring_new_1_2, pq_sig_cb = None :: nat option, pq_sig_arg = None :: nat option\<rparr>, ())"
  let ?q = "\<lparr>initialized = True, init_status = POS_OK\<rparr>"
  have ok: "pq_ok ?w" "pq_items ?w = []" "pq_cap ?w = 2" "pq_width ?w = 1"
    using ring_new_1_2_ok by (auto simp: pq_defs ring_new_1_2_def)
  obtain q1 w1 where w1: "OsQueue_Push (pos_queue_put_posix ?cb) [7] (?q, ?w) = Returns POS_OK (q1, w1)"
      "initialized q1" "pq_ok w1" "pq_items w1 = [[7]]" "pq_cap w1 = 2" "pq_width w1 = 1"
    using os_queue_posix.put_room [of "(?q, ?w)" "[7]" ?cb] ok by auto
  obtain q2 w2 where w2: "OsQueue_Push (pos_queue_put_posix ?cb) [8] (q1, w1) = Returns POS_OK (q2, w2)"
      "initialized q2" "pq_ok w2" "pq_items w2 = [[7], [8]]" "pq_width w2 = 1"
    using os_queue_posix.put_room [of "(q1, w1)" "[8]" ?cb] w1 by auto
  obtain q3 w3 where w3: "OsQueue_Pop pos_queue_get_posix [0] 1 (q2, w2) = Returns (POS_OK, [7]) (q3, w3)"
    using os_queue_posix.get_item [of "(q2, w2)" "[7]" "[[8]]" "[0]" 1] w2 by auto
  have run: "queue_run (OsQueue_Push (pos_queue_put_posix ?cb)) (OsQueue_Pop pos_queue_get_posix)
      [QPut [7], QPut [8], QGet [0] 1] (?q, ?w) = Returns ([[7], [8]], [[7]]) (q3, w3)"
    using w1(1) w2(1) w3 by (simp add: c_bind_def c_return_def)
  moreover have "map (take (pq_width ?w)) [[7], [8]] = map (take (pq_width ?w)) [[7]] @ pq_items w3"
    by (rule conjunct1 [OF os_queue_posix_fifo [OF ok(1,2) _ _ run]]) (simp_all only: ok(4), simp_all)
  then have "map (take 1) [[7], [8]] = map (take 1) [[7]] @ pq_items w3" by (simp only: ok(4))
  ultimately show ?thesis by blast
qed

text \<open>\<open>OsTask\<close> removes a task at most once: after a successful \<open>Remove\<close> a second one is refused with
  \<open>POS_ERROR\<close> and does not reach the port, on any port; so is a \<open>Remove\<close> before \<open>Start\<close>.\<close>

theorem os_task_remove_once:
  assumes "OsTask_Remove pos_task_remove (t, w) = Returns POS_OK (t', w')"
  shows "inited t \<and> OsTask_Remove pos_task_remove (t', w') = Returns POS_ERROR (t', w') \<and>
         OsTask_Remove pos_task_remove (OsTask_new, w) = Returns POS_ERROR (OsTask_new, w)"
  using assms by (auto simp: OsTask_Remove_def OsTask_new_def prog_defs split: if_splits outcome.splits)

theorem os_task_remove_once_witness:
  "\<exists>t' w'. OsTask_Remove (pos_task_remove_zephyr ref_zephyr_task)
       (\<lparr>inited = True\<rparr>, \<lparr>zt_tid = Some 0, zt_stack = Some 0\<rparr>, [True], 1) = Returns POS_OK (t', w') \<and>
     OsTask_Remove (pos_task_remove_zephyr ref_zephyr_task) (t', w') = Returns POS_ERROR (t', w')"
proof -
  obtain t' w' where r: "OsTask_Remove (pos_task_remove_zephyr ref_zephyr_task)
       (\<lparr>inited = True\<rparr>, \<lparr>zt_tid = Some 0, zt_stack = Some 0\<rparr>, [True], 1) = Returns POS_OK (t', w')"
    by (simp add: OsTask_Remove_def pos_task_remove_zephyr_def set_used_def ref_zephyr_task_def MAX_TASKS_def prog_defs)
  from os_task_remove_once [OF r] r show ?thesis by blast
qed

end
