(* ===== verification/Os_Mutex_Threads.thy ===== *)
theory Os_Mutex_Threads
  imports Os_Wrappers
begin

text \<open>
  \<open>OsMutex\<close> used by several threads at once.  The counter \<open>lock_depth_\<close> is an ordinary variable that
  \<open>Lock\<close> and \<open>Unlock\<close> read and write outside of any port function, so the members are executed
  here step by step: the port call, each load and each store of the counter, and the assertion are
  separate steps, interleaved arbitrarily.  The client keeps to the contract of
  \<open>pos_mutex_unlock\<close>: a thread unlocks only what it has locked, and nests less than \<open>nest\<close> deep.
  The lemmas hold for every port that meets the mutex contract.
\<close>

section \<open>Definitions\<close>

text \<open>Where a thread is: outside, or before the named step of \<open>Lock\<close> or \<open>Unlock\<close>.\<close>

datatype om_pc =
    Outside
  | Lock_Call pos_time
  | Lock_Load
  | Lock_Store u32
  | Unlock_Assert
  | Unlock_Load
  | Unlock_Store u32
  | Unlock_Call
  | Revert_Load
  | Revert_Store u32
  | Assert_Failed

text \<open>The object, the port, the threads, and how often each thread has locked without unlocking.\<close>

record ('t, 'w) om_sys =
  om_mutex :: OsMutex
  om_port :: 'w
  om_pcs :: "'t \<Rightarrow> om_pc"
  om_nest :: "'t \<Rightarrow> nat"

definition om_goto :: "'t \<Rightarrow> om_pc \<Rightarrow> ('t, 'w) om_sys \<Rightarrow> ('t, 'w) om_sys" where
  "om_goto t pc s = s\<lparr>om_pcs := (om_pcs s)(t := pc)\<rparr>"

definition om_set_depth :: "u32 \<Rightarrow> ('t, 'w) om_sys \<Rightarrow> ('t, 'w) om_sys" where
  "om_set_depth d s = s\<lparr>om_mutex := (om_mutex s)\<lparr>lock_depth := d\<rparr>\<rparr>"

text \<open>\<open>om_work\<close>: a step of a thread inside \<open>Lock\<close> or \<open>Unlock\<close>, or the entry into \<open>Unlock\<close>.\<close>

inductive om_work ::
    "('t \<Rightarrow> pos_time \<Rightarrow> (pos_error, 'w) prog) \<Rightarrow> ('t \<Rightarrow> (pos_error, 'w) prog) \<Rightarrow> 't \<Rightarrow>
     ('t, 'w) om_sys \<Rightarrow> ('t, 'w) om_sys \<Rightarrow> bool"
  for lock unlock where
  lock_returns_ok:
    "om_pcs s t = Lock_Call tmo \<Longrightarrow> lock t tmo (om_port s) = Returns POS_OK w' \<Longrightarrow>
     om_work lock unlock t s (om_goto t Lock_Load (s\<lparr>om_port := w'\<rparr>))"
| lock_returns_error:
    "om_pcs s t = Lock_Call tmo \<Longrightarrow> lock t tmo (om_port s) = Returns e w' \<Longrightarrow> e \<noteq> POS_OK \<Longrightarrow>
     om_work lock unlock t s (om_goto t Outside (s\<lparr>om_port := w'\<rparr>))"
| lock_load:
    "om_pcs s t = Lock_Load \<Longrightarrow>
     om_work lock unlock t s (om_goto t (Lock_Store (lock_depth (om_mutex s))) s)"
| lock_store:
    "om_pcs s t = Lock_Store d \<Longrightarrow>
     om_work lock unlock t s
       (om_goto t Outside ((om_set_depth (d + 1) s)\<lparr>om_nest := (om_nest s)(t := Suc (om_nest s t))\<rparr>))"
| unlock_enter:
    "om_pcs s t = Outside \<Longrightarrow> om_nest s t = Suc n \<Longrightarrow>
     om_work lock unlock t s (om_goto t Unlock_Assert (s\<lparr>om_nest := (om_nest s)(t := n)\<rparr>))"
| unlock_assert_ok:
    "om_pcs s t = Unlock_Assert \<Longrightarrow> 0 < lock_depth (om_mutex s) \<Longrightarrow>
     om_work lock unlock t s (om_goto t Unlock_Load s)"
| unlock_assert_fails:
    "om_pcs s t = Unlock_Assert \<Longrightarrow> \<not> 0 < lock_depth (om_mutex s) \<Longrightarrow>
     om_work lock unlock t s (om_goto t Assert_Failed s)"
| unlock_load:
    "om_pcs s t = Unlock_Load \<Longrightarrow>
     om_work lock unlock t s (om_goto t (Unlock_Store (lock_depth (om_mutex s))) s)"
| unlock_store:
    "om_pcs s t = Unlock_Store d \<Longrightarrow>
     om_work lock unlock t s (om_goto t Unlock_Call (om_set_depth (d - 1) s))"
| unlock_returns_ok:
    "om_pcs s t = Unlock_Call \<Longrightarrow> unlock t (om_port s) = Returns POS_OK w' \<Longrightarrow>
     om_work lock unlock t s (om_goto t Outside (s\<lparr>om_port := w'\<rparr>))"
| unlock_returns_error:
    "om_pcs s t = Unlock_Call \<Longrightarrow> unlock t (om_port s) = Returns e w' \<Longrightarrow> e \<noteq> POS_OK \<Longrightarrow>
     om_work lock unlock t s (om_goto t Revert_Load (s\<lparr>om_port := w'\<rparr>))"
| revert_load:
    "om_pcs s t = Revert_Load \<Longrightarrow>
     om_work lock unlock t s (om_goto t (Revert_Store (lock_depth (om_mutex s))) s)"
| revert_store:
    "om_pcs s t = Revert_Store d \<Longrightarrow>
     om_work lock unlock t s (om_goto t Outside (om_set_depth (d + 1) s))"

text \<open>Reachable states: the threads of \<open>T\<close> may also enter \<open>Lock\<close>.\<close>

inductive om_reach ::
    "('t \<Rightarrow> pos_time \<Rightarrow> (pos_error, 'w) prog) \<Rightarrow> ('t \<Rightarrow> (pos_error, 'w) prog) \<Rightarrow> 't set \<Rightarrow> nat \<Rightarrow> 'w \<Rightarrow>
     ('t, 'w) om_sys \<Rightarrow> bool"
  for lock unlock T nest w0 where
  om_start:
    "om_reach lock unlock T nest w0
       \<lparr>om_mutex = \<lparr>lock_depth = 0\<rparr>, om_port = w0, om_pcs = \<lambda>_. Outside, om_nest = \<lambda>_. 0\<rparr>"
| om_enter_lock:
    "om_reach lock unlock T nest w0 s \<Longrightarrow> t \<in> T \<Longrightarrow> om_pcs s t = Outside \<Longrightarrow> om_nest s t < nest \<Longrightarrow>
     om_reach lock unlock T nest w0 (om_goto t (Lock_Call tmo) s)"
| om_step:
    "om_reach lock unlock T nest w0 s \<Longrightarrow> om_work lock unlock t s s' \<Longrightarrow> om_reach lock unlock T nest w0 s'"

text \<open>The steps that load or store the counter or test it.\<close>

fun touches_depth :: "om_pc \<Rightarrow> bool" where
  "touches_depth Lock_Load = True"
| "touches_depth (Lock_Store d) = True"
| "touches_depth Unlock_Assert = True"
| "touches_depth Unlock_Load = True"
| "touches_depth (Unlock_Store d) = True"
| "touches_depth Revert_Load = True"
| "touches_depth (Revert_Store d) = True"
| "touches_depth _ = False"

text \<open>
  \<open>pc_in\<close> tells whether a thread is inside a call.  It holds the mutex once more than \<open>om_nest\<close> says while \<open>pc_holds\<close>, and the counter
  lags behind the depth while \<open>pc_lags\<close>.
\<close>

fun pc_holds :: "om_pc \<Rightarrow> nat" where
  "pc_holds Outside = 0"
| "pc_holds (Lock_Call tmo) = 0"
| "pc_holds Revert_Load = 0"
| "pc_holds (Revert_Store d) = 0"
| "pc_holds Assert_Failed = 0"
| "pc_holds _ = 1"

fun pc_lags :: "om_pc \<Rightarrow> nat" where
  "pc_lags Lock_Load = 1"
| "pc_lags (Lock_Store d) = 1"
| "pc_lags Unlock_Call = 1"
| "pc_lags _ = 0"

fun pc_in :: "om_pc \<Rightarrow> nat" where
  "pc_in Outside = 0"
| "pc_in _ = 1"

fun pc_ok :: "u32 \<Rightarrow> om_pc \<Rightarrow> bool" where
  "pc_ok d (Lock_Store e) \<longleftrightarrow> e = d"
| "pc_ok d (Unlock_Store e) \<longleftrightarrow> e = d"
| "pc_ok d Revert_Load \<longleftrightarrow> False"
| "pc_ok d (Revert_Store e) \<longleftrightarrow> False"
| "pc_ok d Assert_Failed \<longleftrightarrow> False"
| "pc_ok d _ \<longleftrightarrow> True"

definition om_inv ::
    "('w \<Rightarrow> 't mutex_state) \<Rightarrow> ('w \<Rightarrow> bool) \<Rightarrow> 't set \<Rightarrow> nat \<Rightarrow> ('t, 'w) om_sys \<Rightarrow> bool" where
  "om_inv own ready T nest s \<longleftrightarrow>
     ready (om_port s) \<and>
     (\<forall>t. held (own (om_port s)) t = om_nest s t + pc_holds (om_pcs s t)) \<and>
     (\<forall>t. pc_ok (lock_depth (om_mutex s)) (om_pcs s t)) \<and>
     (\<forall>t. om_nest s t + pc_in (om_pcs s t) \<le> nest) \<and>
     (\<forall>t. t \<notin> T \<longrightarrow> om_pcs s t = Outside \<and> om_nest s t = 0) \<and>
     (case own (om_port s) of
        None \<Rightarrow> lock_depth (om_mutex s) = 0
      | Some (t, n) \<Rightarrow> unat (lock_depth (om_mutex s)) + pc_lags (om_pcs s t) = n)"

text \<open>How much work is left before all threads are outside and hold nothing.\<close>

fun pc_work :: "om_pc \<Rightarrow> nat" where
  "pc_work Outside = 0"
| "pc_work (Lock_Call tmo) = 9"
| "pc_work Lock_Load = 8"
| "pc_work (Lock_Store d) = 7"
| "pc_work Unlock_Assert = 5"
| "pc_work Unlock_Load = 4"
| "pc_work (Unlock_Store d) = 3"
| "pc_work Unlock_Call = 2"
| "pc_work _ = 1"

definition om_left :: "'t set \<Rightarrow> ('t, 'w) om_sys \<Rightarrow> nat" where
  "om_left T s = (\<Sum>t\<in>T. pc_work (om_pcs s t) + 6 * om_nest s t)"

definition om_quiet :: "('w \<Rightarrow> 't mutex_state) \<Rightarrow> ('t, 'w) om_sys \<Rightarrow> bool" where
  "om_quiet own s \<longleftrightarrow>
     (\<forall>t. om_pcs s t = Outside \<and> om_nest s t = 0) \<and> own (om_port s) = None \<and> lock_depth (om_mutex s) = 0"

section \<open>The invariant\<close>

lemmas om_upd_defs = om_goto_def om_set_depth_def

lemma pc_outside:
  assumes "pc_ok d pc" and "pc_holds pc = 0"
  shows "pc = Outside \<or> (\<exists>tmo. pc = Lock_Call tmo)"
  using assms by (cases pc) simp_all

context osal_mutex
begin

text \<open>A thread that holds the mutex is alone with the counter: the others are outside or wait for the lock.\<close>

lemma om_holder:
  assumes inv: "om_inv own ready T nest s" and h: "0 < om_nest s t + pc_holds (om_pcs s t)"
  shows "own (om_port s) = Some (t, om_nest s t + pc_holds (om_pcs s t)) \<and>
         unat (lock_depth (om_mutex s)) + pc_lags (om_pcs s t) = om_nest s t + pc_holds (om_pcs s t) \<and>
         (\<forall>u. u \<noteq> t \<longrightarrow> om_nest s u = 0 \<and> pc_holds (om_pcs s u) = 0 \<and> pc_ok d (om_pcs s u))"
proof -
  have held: "held (own (om_port s)) u = om_nest s u + pc_holds (om_pcs s u)" for u
    using inv by (simp add: om_inv_def)
  obtain v n where own: "own (om_port s) = Some (v, n)"
    using h held [of t] by (cases "own (om_port s)") auto
  then have v: "v = t" "n = om_nest s t + pc_holds (om_pcs s t)" using held [of t] h by (auto split: if_splits)
  have "om_nest s u = 0 \<and> pc_holds (om_pcs s u) = 0 \<and> pc_ok d (om_pcs s u)" if "u \<noteq> t" for u
  proof -
    have z: "om_nest s u = 0" "pc_holds (om_pcs s u) = 0" using held [of u] own v(1) that by auto
    moreover have "pc_ok (lock_depth (om_mutex s)) (om_pcs s u)" using inv by (simp add: om_inv_def)
    ultimately show ?thesis using pc_outside by force
  qed
  then show ?thesis using own v inv by (auto simp: om_inv_def)
qed

text \<open>What a port call of the holder does.\<close>

lemma om_lock_ok:
  assumes inv: "om_inv own ready T nest s" and pc: "om_pcs s t = Lock_Call tmo"
    and ret: "lock t tmo (om_port s) = Returns POS_OK w'"
  shows "ready w' \<and> own w' = Some (t, Suc (om_nest s t)) \<and>
         (case own (om_port s) of None \<Rightarrow> om_nest s t = 0 | Some (u, n) \<Rightarrow> u = t \<and> n = om_nest s t)"
proof -
  have r: "ready (om_port s)" and held: "held (own (om_port s)) t = om_nest s t"
    using inv pc by (auto simp: om_inv_def)
  show ?thesis
  proof (cases "own (om_port s)")
    case None
    then show ?thesis using lock_free [OF r None, of t tmo] ret held by simp
  next
    case (Some p)
    obtain u n where own: "own (om_port s) = Some (u, n)" using Some by (cases p) auto
    show ?thesis
    proof (cases "u = t")
      case True
      then show ?thesis using lock_again [OF r, of t n tmo] own ret held by simp
    next
      case False
      then show ?thesis using lock_other [OF r own False, of tmo] ret by auto
    qed
  qed
qed

lemma om_lock_error:
  assumes inv: "om_inv own ready T nest s" and pc: "om_pcs s t = Lock_Call tmo"
    and ret: "lock t tmo (om_port s) = Returns e w'" and "e \<noteq> POS_OK"
  shows "ready w' \<and> own w' = own (om_port s)"
proof -
  have r: "ready (om_port s)" using inv by (simp add: om_inv_def)
  show ?thesis
  proof (cases "own (om_port s)")
    case None
    then show ?thesis using lock_free [OF r None, of t tmo] ret assms(4) by simp
  next
    case (Some p)
    obtain u n where own: "own (om_port s) = Some (u, n)" using Some by (cases p) auto
    show ?thesis
      using lock_again [OF r, of t n tmo] lock_other [OF r own, of t tmo] own ret assms(4)
      by (cases "u = t") auto
  qed
qed

text \<open>The invariant of a state in which \<open>t\<close> holds the mutex, and of one in which it is free.\<close>

lemma om_inv_bounds:
  assumes "om_inv own ready T nest s"
  shows "om_nest s t \<le> nest \<and> pc_in (om_pcs s t) \<le> nest"
proof -
  have "om_nest s t + pc_in (om_pcs s t) \<le> nest" using assms by (simp add: om_inv_def)
  then show ?thesis by simp
qed

lemma om_inv_pc: "om_inv own ready T nest s \<Longrightarrow> pc_ok (lock_depth (om_mutex s)) (om_pcs s t)"
  by (simp add: om_inv_def)

lemma om_inv_held: "om_inv own ready T nest s \<Longrightarrow> held (own (om_port s)) t = om_nest s t + pc_holds (om_pcs s t)"
  by (simp add: om_inv_def)

lemma om_inv_owned:
  assumes "om_inv own ready T nest s" and "t \<in> T"
    and "\<forall>u. u \<noteq> t \<longrightarrow> om_nest s u = 0 \<and> pc_holds (om_pcs s u) = 0 \<and> pc_ok d (om_pcs s u)"
    and "ready w'" and "own w' = Some (t, m + pc_holds pc)" and "pc_ok d pc"
    and "unat d + pc_lags pc = m + pc_holds pc" and "m + pc_in pc \<le> nest"
  shows "om_inv own ready T nest
           \<lparr>om_mutex = \<lparr>lock_depth = d\<rparr>, om_port = w', om_pcs = (om_pcs s)(t := pc), om_nest = (om_nest s)(t := m)\<rparr>"
proof -
  have "pc_in (om_pcs s u) \<le> nest" for u using om_inv_bounds [OF assms(1)] by blast
  with assms show ?thesis by (auto simp: om_inv_def)
qed

lemma om_inv_thread:
  "om_inv own ready T nest s \<Longrightarrow> om_pcs s t \<noteq> Outside \<or> 0 < om_nest s t \<Longrightarrow>
   t \<in> T \<and> om_nest s t + pc_in (om_pcs s t) \<le> nest"
  unfolding om_inv_def by (metis less_numeral_extra(3))

lemma om_inv_work_holder:
  assumes "om_inv own ready T nest s" and "0 < om_nest s t + pc_holds (om_pcs s t)"
    and "m + pc_holds pc = om_nest s t + pc_holds (om_pcs s t)" and "pc_ok d pc"
    and "unat d + pc_lags pc = m + pc_holds pc" and "m + pc_in pc \<le> nest"
  shows "om_inv own ready T nest
           \<lparr>om_mutex = \<lparr>lock_depth = d\<rparr>, om_port = om_port s, om_pcs = (om_pcs s)(t := pc), om_nest = (om_nest s)(t := m)\<rparr>"
proof (rule om_inv_owned [OF assms(1)])
  show "t \<in> T" using om_inv_thread [OF assms(1), of t] assms(2) by (cases "om_pcs s t") auto
  show "ready (om_port s)" using assms(1) by (simp add: om_inv_def)
qed (use om_holder [OF assms(1,2), of d] assms(3-6) in auto)

lemma om_sys_eqs:
  "om_goto t pc s =
     \<lparr>om_mutex = \<lparr>lock_depth = lock_depth (om_mutex s)\<rparr>, om_port = om_port s, om_pcs = (om_pcs s)(t := pc),
      om_nest = (om_nest s)(t := om_nest s t)\<rparr>"
  "om_goto t pc (om_set_depth d s) =
     \<lparr>om_mutex = \<lparr>lock_depth = d\<rparr>, om_port = om_port s, om_pcs = (om_pcs s)(t := pc),
      om_nest = (om_nest s)(t := om_nest s t)\<rparr>"
  "om_goto t pc ((om_set_depth d s)\<lparr>om_nest := f\<rparr>) =
     \<lparr>om_mutex = \<lparr>lock_depth = d\<rparr>, om_port = om_port s, om_pcs = (om_pcs s)(t := pc), om_nest = f\<rparr>"
  "om_goto t pc (s\<lparr>om_nest := f\<rparr>) =
     \<lparr>om_mutex = \<lparr>lock_depth = lock_depth (om_mutex s)\<rparr>, om_port = om_port s, om_pcs = (om_pcs s)(t := pc), om_nest = f\<rparr>"
  "om_goto t pc (s\<lparr>om_port := w\<rparr>) =
     \<lparr>om_mutex = \<lparr>lock_depth = lock_depth (om_mutex s)\<rparr>, om_port = w, om_pcs = (om_pcs s)(t := pc),
      om_nest = (om_nest s)(t := om_nest s t)\<rparr>"
  by (cases s; cases "om_mutex s"; simp add: om_upd_defs)+

lemma unat_depth_succ: "unat (d :: u32) = n \<Longrightarrow> Suc n < 2 ^ 32 \<Longrightarrow> unat (d + 1) = Suc n"
  by (simp add: unat_word_ariths)

lemma unat_depth_pred: "unat (d :: u32) = Suc n \<Longrightarrow> unat (d - 1) = n"
  by (simp add: unat_sub_if' word_le_nat_alt)

lemma om_inv_work:
  assumes "om_work lock unlock t s s'" and inv: "om_inv own ready T nest s" and nest: "nest < 2 ^ 32"
  shows "om_inv own ready T nest s'"
  using assms(1)
proof cases
  case (lock_returns_ok tmo w')
  note l = om_lock_ok [OF inv lock_returns_ok(2,3)]
  have held: "held (own (om_port s)) u = om_nest s u + pc_holds (om_pcs s u)" for u
    using inv by (simp add: om_inv_def)
  have others: "om_nest s u = 0 \<and> pc_holds (om_pcs s u) = 0 \<and> pc_ok (lock_depth (om_mutex s)) (om_pcs s u)" if "u \<noteq> t" for u
  proof -
    have "held (own (om_port s)) u = 0" using l that by (cases "own (om_port s)") auto
    with held [of u] inv show ?thesis by (simp add: om_inv_def)
  qed
  have d: "unat (lock_depth (om_mutex s)) = om_nest s t"
    using l inv lock_returns_ok(2) by (auto simp: om_inv_def split: option.splits)
  show ?thesis unfolding lock_returns_ok(1) om_sys_eqs(5)
    by (rule om_inv_owned [OF inv]) (use om_inv_thread [OF inv, of t] lock_returns_ok(2) others l d in auto)
next
  case (lock_returns_error tmo e w')
  from om_lock_error [OF inv lock_returns_error(2-4)] lock_returns_error(1,2) inv om_inv_bounds [OF inv] show ?thesis
    by (auto simp: om_inv_def om_goto_def split: option.splits)
next
  case lock_load
  with om_holder [OF inv, of t] om_inv_thread [OF inv, of t] show ?thesis
    unfolding lock_load(1) om_sys_eqs(1) by (intro om_inv_work_holder [OF inv]) auto
next
  case (lock_store d)
  have "d = lock_depth (om_mutex s)" using om_inv_pc [OF inv, of t] lock_store(2) by simp
  with om_holder [OF inv, of t] om_inv_thread [OF inv, of t] nest unat_depth_succ [of d "om_nest s t"] lock_store show ?thesis
    unfolding lock_store(1) om_sys_eqs(3) by (intro om_inv_work_holder [OF inv]) auto
next
  case (unlock_enter n)
  with om_holder [OF inv, of t] om_inv_thread [OF inv, of t] show ?thesis
    unfolding unlock_enter(1) om_sys_eqs(4) by (intro om_inv_work_holder [OF inv]) auto
next
  case unlock_assert_ok
  with om_holder [OF inv, of t] om_inv_thread [OF inv, of t] show ?thesis
    unfolding unlock_assert_ok(1) om_sys_eqs(1) by (intro om_inv_work_holder [OF inv]) auto
next
  case unlock_assert_fails
  with om_holder [OF inv, of t] show ?thesis by (auto simp: word_gt_0 unat_eq_0)
next
  case unlock_load
  with om_holder [OF inv, of t] om_inv_thread [OF inv, of t] show ?thesis
    unfolding unlock_load(1) om_sys_eqs(1) by (intro om_inv_work_holder [OF inv]) auto
next
  case (unlock_store d)
  have "d = lock_depth (om_mutex s)" using om_inv_pc [OF inv, of t] unlock_store(2) by simp
  with om_holder [OF inv, of t] om_inv_thread [OF inv, of t] unat_depth_pred [of d "om_nest s t"] unlock_store show ?thesis
    unfolding unlock_store(1) om_sys_eqs(2) by (intro om_inv_work_holder [OF inv]) auto
next
  case (unlock_returns_ok w')
  have r: "ready (om_port s)" using inv by (simp add: om_inv_def)
  note h = om_holder [OF inv, of t "lock_depth (om_mutex s)"]
  then have own: "own (om_port s) = Some (t, Suc (om_nest s t))" using unlock_returns_ok(2) by simp
  from unlock_own [OF r own] unlock_returns_ok(3) have w': "ready w'" "own w' = released t (om_nest s t)" by auto
  show ?thesis
  proof (cases "om_nest s t")
    case 0
    with w' h inv unlock_returns_ok om_inv_bounds [OF inv] show ?thesis
      by (auto simp: om_inv_def om_goto_def released_def unat_eq_0)
  next
    case (Suc n)
    with w' h unlock_returns_ok(2) om_inv_thread [OF inv, of t] show ?thesis
      unfolding unlock_returns_ok(1) om_sys_eqs(5) by (intro om_inv_owned [OF inv]) (auto simp: released_def)
  qed
next
  case (unlock_returns_error e w')
  have r: "ready (om_port s)" using inv by (simp add: om_inv_def)
  have "own (om_port s) = Some (t, Suc (om_nest s t))"
    using om_holder [OF inv, of t] unlock_returns_error(2) by simp
  from unlock_own [OF r this] unlock_returns_error(3,4) show ?thesis by auto
next
  case revert_load
  then show ?thesis using om_inv_pc [OF inv, of t] by simp
next
  case (revert_store d)
  then show ?thesis using om_inv_pc [OF inv, of t] by simp
qed

lemma om_reach_inv:
  assumes "om_reach lock unlock T nest w0 s" and "ready w0" and "own w0 = None" and "nest < 2 ^ 32"
  shows "om_inv own ready T nest s"
  using assms(1)
proof induction
  case om_start
  then show ?case using assms(2,3) by (simp add: om_inv_def)
next
  case (om_enter_lock s t tmo)
  then show ?case by (auto simp: om_inv_def om_goto_def split: option.splits)
next
  case (om_step s t s')
  then show ?case using om_inv_work assms(4) by blast
qed

text \<open>A step needs no new call to be possible unless everything is quiet.\<close>

lemma om_inside_steps:
  assumes inv: "om_inv own ready T nest s" and lim: "nest \<le> depth_limit"
    and "om_pcs s t \<noteq> Outside" and "\<And>tmo. om_pcs s t = Lock_Call tmo \<Longrightarrow> own (om_port s) = None \<or> 0 < om_nest s t"
  shows "\<exists>s'. om_work lock unlock t s s'"
proof -
  have r: "ready (om_port s)" using inv by (simp add: om_inv_def)
  show ?thesis
  proof (cases "om_pcs s t")
    case (Lock_Call tmo)
    have "\<exists>e w'. lock t tmo (om_port s) = Returns e w'"
    proof (cases "own (om_port s)")
      case None
      then show ?thesis using lock_free [OF r None, of t tmo] by blast
    next
      case (Some p)
      then have "own (om_port s) = Some (t, om_nest s t)"
        using om_holder [OF inv, of t] assms(4) [OF Lock_Call] Lock_Call by simp
      then show ?thesis using lock_again [OF r, of t "om_nest s t" tmo] by blast
    qed
    then obtain e w' where "lock t tmo (om_port s) = Returns e w'" by blast
    then show ?thesis
      using lock_returns_ok [OF Lock_Call, of lock w' unlock] lock_returns_error [OF Lock_Call, of lock e w' unlock]
      by (cases "e = POS_OK") blast+
  next
    case Unlock_Call
    then have "own (om_port s) = Some (t, Suc (om_nest s t))" using om_holder [OF inv, of t] by simp
    then show ?thesis using unlock_own [OF r] unlock_returns_ok [OF Unlock_Call] by blast
  next
    case Unlock_Assert
    then show ?thesis
      using unlock_assert_ok [OF Unlock_Assert] unlock_assert_fails [OF Unlock_Assert]
      by (cases "0 < lock_depth (om_mutex s)") blast+
  qed (use assms(3) om_inv_pc [OF inv, of t] in \<open>auto intro: om_work.intros\<close>)
qed

lemma om_progress:
  assumes inv: "om_inv own ready T nest s" and lim: "nest \<le> depth_limit" and "\<not> om_quiet own s"
  shows "\<exists>t s'. om_work lock unlock t s s'"
proof (cases "own (om_port s)")
  case None
  have "om_nest s t = 0" for t using inv None by (auto simp: om_inv_def)
  then obtain t where "om_pcs s t \<noteq> Outside"
    using assms(3) inv None by (auto simp: om_quiet_def om_inv_def)
  then show ?thesis using om_inside_steps [OF inv lim, of t] None by blast
next
  case (Some p)
  obtain t n where own: "own (om_port s) = Some (t, n)" using Some by (cases p) auto
  have "ready (om_port s)" using inv by (simp add: om_inv_def)
  then have n: "0 < n" using own_pos own by blast
  have held: "n = om_nest s t + pc_holds (om_pcs s t)" using om_inv_held [OF inv, of t] own by simp
  show ?thesis
  proof (cases "om_pcs s t = Outside")
    case True
    then obtain m where "om_nest s t = Suc m" using held n by (cases "om_nest s t") auto
    then show ?thesis using unlock_enter [OF True] by blast
  next
    case False
    then show ?thesis using om_inside_steps [OF inv lim False] held n by fastforce
  qed
qed

text \<open>Every step uses up work, so that without new calls to \<open>Lock\<close> the threads cannot run for ever.\<close>

lemma om_left_change:
  assumes "finite T" and "t \<in> T" and "\<forall>u. u \<noteq> t \<longrightarrow> om_pcs s' u = om_pcs s u \<and> om_nest s' u = om_nest s u"
    and "pc_work (om_pcs s' t) + 6 * om_nest s' t < pc_work (om_pcs s t) + 6 * om_nest s t"
  shows "om_left T s' < om_left T s"
proof -
  have "(\<Sum>u\<in>T - {t}. pc_work (om_pcs s' u) + 6 * om_nest s' u) = (\<Sum>u\<in>T - {t}. pc_work (om_pcs s u) + 6 * om_nest s u)"
    using assms(3) by (intro sum.cong) auto
  then show ?thesis
    using assms(4) by (simp add: om_left_def sum.remove [OF assms(1,2)])
qed

lemma om_work_uses:
  assumes "om_work lock unlock t s s'" and inv: "om_inv own ready T nest s" and "finite T"
  shows "om_left T s' < om_left T s"
proof (rule om_left_change [OF assms(3)])
  show "t \<in> T" using om_inv_thread [OF inv, of t] assms(1) by (auto elim: om_work.cases)
  show "\<forall>u. u \<noteq> t \<longrightarrow> om_pcs s' u = om_pcs s u \<and> om_nest s' u = om_nest s u"
    using assms(1) by cases (simp_all add: om_upd_defs)
  show "pc_work (om_pcs s' t) + 6 * om_nest s' t < pc_work (om_pcs s t) + 6 * om_nest s t"
    using assms(1) om_inv_pc [OF inv, of t] by cases (simp_all add: om_upd_defs)
qed

lemma om_completes:
  assumes "om_inv own ready T nest s" and "nest \<le> depth_limit" and "nest < 2 ^ 32" and "finite T"
  shows "\<exists>s'. (\<lambda>s s'. \<exists>t. om_work lock unlock t s s')\<^sup>*\<^sup>* s s' \<and> om_quiet own s'"
  using assms(1)
proof (induction "om_left T s" arbitrary: s rule: less_induct)
  case less
  show ?case
  proof (cases "om_quiet own s")
    case False
    then obtain t s1 where s1: "om_work lock unlock t s s1"
      using om_progress [OF less.prems assms(2)] by blast
    from less.hyps [OF om_work_uses [OF s1 less.prems assms(4)] om_inv_work [OF s1 less.prems assms(3)]]
    obtain s' where s': "(\<lambda>s s'. \<exists>t. om_work lock unlock t s s')\<^sup>*\<^sup>* s1 s'" "om_quiet own s'" by blast
    have "(\<lambda>s s'. \<exists>t. om_work lock unlock t s s')\<^sup>*\<^sup>* s s'"
      by (rule converse_rtranclp_into_rtranclp [OF _ s'(1)]) (use s1 in blast)
    with s'(2) show ?thesis by blast
  qed blast
qed

lemma om_touch_unique:
  assumes inv: "om_inv own ready T nest s" and "touches_depth (om_pcs s t)" and "touches_depth (om_pcs s u)"
  shows "t = u"
proof (rule ccontr)
  assume "t \<noteq> u"
  have h: "pc_holds (om_pcs s v) = 1" if "touches_depth (om_pcs s v)" for v
    using that om_inv_pc [OF inv, of v] by (cases "om_pcs s v") auto
  then have "0 < om_nest s t + pc_holds (om_pcs s t)" using assms(2) by simp
  from om_holder [OF inv this] h [OF assms(3)] \<open>t \<noteq> u\<close> show False by simp
qed

lemma om_quiet_depth:
  assumes "om_inv own ready T nest s" and "\<forall>t. om_pcs s t = Outside"
  shows "unat (lock_depth (om_mutex s)) = depth_of (own (om_port s))"
  using assms by (auto simp: om_inv_def depth_of_def split: option.splits)

end

section \<open>The steps of one thread are the member functions\<close>

text \<open>A thread that is not interrupted does what \<open>OsMutex_Lock\<close> and \<open>OsMutex_Unlock\<close> describe.\<close>

abbreviation om_alone where
  "om_alone lock unlock t \<equiv> (om_work lock unlock t)\<^sup>*\<^sup>*"

lemma om_alone_lock:
  assumes "OsMutex_Lock lock t tmo (om_mutex s, om_port s) = Returns e (m', w')" and "om_pcs s t = Lock_Call tmo"
  shows "\<exists>s'. om_alone lock unlock t s s' \<and> om_mutex s' = m' \<and> om_port s' = w' \<and> om_pcs s' t = Outside \<and>
              om_nest s' t = (if e = POS_OK then Suc (om_nest s t) else om_nest s t)"
proof (cases "e = POS_OK")
  case True
  let ?s1 = "om_goto t Lock_Load (s\<lparr>om_port := w'\<rparr>)"
  let ?s2 = "om_goto t (Lock_Store (lock_depth (om_mutex ?s1))) ?s1"
  let ?s3 = "om_goto t Outside ((om_set_depth (lock_depth (om_mutex ?s1) + 1) ?s2)\<lparr>om_nest := (om_nest ?s2)(t := Suc (om_nest ?s2 t))\<rparr>)"
  have l: "lock t tmo (om_port s) = Returns POS_OK w'" "m' = (om_mutex s)\<lparr>lock_depth := lock_depth (om_mutex s) + 1\<rparr>"
    using assms(1) True by (auto simp: OsMutex_Lock_def prog_defs split: outcome.splits if_splits)
  have "om_work lock unlock t s ?s1" by (rule lock_returns_ok) (rule assms(2), rule l(1))
  moreover have "om_work lock unlock t ?s1 ?s2" by (rule lock_load) (simp add: om_goto_def)
  moreover have "om_work lock unlock t ?s2 ?s3" by (rule lock_store) (simp add: om_goto_def)
  ultimately have "om_alone lock unlock t s ?s3" by (meson rtranclp.rtrancl_refl rtranclp.rtrancl_into_rtrancl)
  then show ?thesis using l True by (intro exI [of _ ?s3]) (simp add: om_upd_defs)
next
  case False
  have l: "lock t tmo (om_port s) = Returns e w'" "m' = om_mutex s"
    using assms(1) False by (auto simp: OsMutex_Lock_def prog_defs split: outcome.splits)
  have "om_work lock unlock t s (om_goto t Outside (s\<lparr>om_port := w'\<rparr>))"
    by (rule lock_returns_error) (rule assms(2), rule l(1), rule False)
  then show ?thesis using l False by (intro exI [of _ "om_goto t Outside (s\<lparr>om_port := w'\<rparr>)"]) (auto simp: om_goto_def)
qed

lemma om_alone_unlock:
  assumes "OsMutex_Unlock unlock t (om_mutex s, om_port s) = Returns e (m', w')" and "om_pcs s t = Unlock_Assert"
  shows "\<exists>s'. om_alone lock unlock t s s' \<and> om_mutex s' = m' \<and> om_port s' = w' \<and> om_pcs s' t = Outside \<and>
              om_nest s' t = om_nest s t"
proof -
  let ?d = "lock_depth (om_mutex s)"
  let ?s1 = "om_goto t Unlock_Load s"
  let ?s2 = "om_goto t (Unlock_Store ?d) ?s1"
  let ?s3 = "om_goto t Unlock_Call (om_set_depth (?d - 1) ?s2)"
  have l: "0 < ?d" "unlock t (om_port s) = Returns e w'"
      "m' = (if e = POS_OK then (om_mutex s)\<lparr>lock_depth := ?d - 1\<rparr> else om_mutex s)"
    using assms(1) by (auto simp: OsMutex_Unlock_def prog_defs split: outcome.splits if_splits)
  have "om_work lock unlock t s ?s1" by (rule unlock_assert_ok [OF assms(2) l(1)])
  moreover have "om_work lock unlock t ?s1 ?s2"
    using unlock_load [of ?s1 t lock unlock] by (simp add: om_goto_def)
  moreover have "om_work lock unlock t ?s2 ?s3" by (rule unlock_store) (simp add: om_goto_def)
  ultimately have a: "om_alone lock unlock t s ?s3" by (meson rtranclp.rtrancl_refl rtranclp.rtrancl_into_rtrancl)
  have pc: "om_pcs ?s3 t = Unlock_Call" and port: "om_port ?s3 = om_port s" by (simp_all add: om_upd_defs)
  show ?thesis
  proof (cases "e = POS_OK")
    case True
    let ?s4 = "om_goto t Outside (?s3\<lparr>om_port := w'\<rparr>)"
    have "om_work lock unlock t ?s3 ?s4" using unlock_returns_ok [OF pc] l(2) True port by simp
    with a have "om_alone lock unlock t s ?s4" by (meson rtranclp.rtrancl_into_rtrancl)
    then show ?thesis using l(3) True by (intro exI [of _ ?s4]) (simp add: om_upd_defs)
  next
    case False
    let ?s4 = "om_goto t Revert_Load (?s3\<lparr>om_port := w'\<rparr>)"
    let ?s5 = "om_goto t (Revert_Store (?d - 1)) ?s4"
    let ?s6 = "om_goto t Outside (om_set_depth (?d - 1 + 1) ?s5)"
    have "om_work lock unlock t ?s3 ?s4" using unlock_returns_error [OF pc] l(2) False port by simp
    moreover have "om_work lock unlock t ?s4 ?s5"
      using revert_load [of ?s4 t lock unlock] by (simp add: om_upd_defs)
    moreover have "om_work lock unlock t ?s5 ?s6" by (rule revert_store) (simp add: om_goto_def)
    ultimately have "om_alone lock unlock t s ?s6" using a by (meson rtranclp.rtrancl_into_rtrancl)
    then show ?thesis using l(3) False by (intro exI [of _ ?s6]) (simp add: om_upd_defs)
  qed
qed

text \<open>A state for the examples: thread 1 has just got the mutex of the POSIX port, thread 2 waits for it.\<close>

lemma om_reach_example:
  "\<exists>s. om_reach (pos_mutex_lock_posix ref_mutex_api) (pos_mutex_unlock_posix ref_mutex_api) {1, 2} 5
         (mutex0, ref_mutexes1) s \<and>
       om_pcs s 1 = Lock_Load \<and> om_pcs s 2 = Lock_Call 7"
proof -
  let ?lock = "pos_mutex_lock_posix ref_mutex_api" and ?unlock = "pos_mutex_unlock_posix ref_mutex_api"
  let ?reach = "om_reach ?lock ?unlock {1, 2} 5 (mutex0, ref_mutexes1)"
  let ?s0 = "\<lparr>om_mutex = \<lparr>lock_depth = 0\<rparr>, om_port = (mutex0, ref_mutexes1), om_pcs = \<lambda>_ :: nat. Outside, om_nest = \<lambda>_. 0\<rparr>"
  let ?s1 = "om_goto 1 (Lock_Call 0) ?s0"
  obtain w' where w': "?lock 1 0 (mutex0, ref_mutexes1) = Returns POS_OK w'"
    by (simp add: pos_mutex_lock_posix_def ref_mutex_simps mutex0_def ref_mutexes1_def
        ref_mutexes0_def POS_TIME_FOREVER_posix_def deadline_after_def timespec_of_ns_def valid_timespec_def)
  let ?s2 = "om_goto 1 Lock_Load (?s1\<lparr>om_port := w'\<rparr>)"
  have "?reach ?s0" by (rule om_start)
  then have "?reach ?s1" by (rule om_enter_lock) simp_all
  moreover have "om_work ?lock ?unlock 1 ?s1 ?s2"
  proof (rule lock_returns_ok)
    show "om_pcs ?s1 1 = Lock_Call 0" by (simp add: om_goto_def)
    show "?lock 1 0 (om_port ?s1) = Returns POS_OK w'" using w' by (simp add: om_goto_def)
  qed
  ultimately have "?reach ?s2" by (rule om_step)
  then have "?reach (om_goto 2 (Lock_Call 7) ?s2)" by (rule om_enter_lock) (simp_all add: om_goto_def)
  then show ?thesis by (intro exI [of _ "om_goto 2 (Lock_Call 7) ?s2"]) (simp add: om_goto_def)
qed

lemma ref_mutex_ready:
  "case (mutex0, ref_mutexes1) of (mu, k) \<Rightarrow> rm_recursive k (pm_lock mu)"
  "(case (mutex0, ref_mutexes1) of (mu, k) \<Rightarrow> rm_own k (pm_lock mu)) = None"
  by (simp_all add: rm_recursive_def mutex0_def ref_mutexes1_def ref_mutexes0_def)

section \<open>Properties\<close>

text \<open>C13. \<open>OsMutex\<close> is safe for concurrent use, on every port that meets the mutex contract: in every
  reachable interleaving of \<open>Lock\<close> and \<open>Unlock\<close>, with each load and store of the counter a step of its
  own, the assertion in \<open>Unlock\<close> has not failed, at most one thread is about to access the counter,
  at most one thread is between a successful \<open>Lock\<close> and its \<open>Unlock\<close>, and when no call is in progress the
  counter is the nesting depth of the mutex.\<close>

theorem os_mutex_threads_safe:
  assumes "osal_mutex lock unlock own ready limit" and "ready w0" and "own w0 = None" and "nest < 2 ^ 32"
    and "om_reach lock unlock T nest w0 s"
  shows "om_pcs s t \<noteq> Assert_Failed \<and>
         (touches_depth (om_pcs s t) \<and> touches_depth (om_pcs s u) \<longrightarrow> t = u) \<and>
         (0 < om_nest s t \<and> 0 < om_nest s u \<longrightarrow> t = u) \<and>
         ((\<forall>v. om_pcs s v = Outside) \<longrightarrow> unat (lock_depth (om_mutex s)) = depth_of (own (om_port s)))"
proof -
  note inv = osal_mutex.om_reach_inv [OF assms(1,5,2-4)]
  have "om_pcs s t \<noteq> Assert_Failed" using osal_mutex.om_inv_pc [OF assms(1) inv, of t] by auto
  moreover have "t = u" if "0 < om_nest s t" "0 < om_nest s u"
    using osal_mutex.om_holder [OF assms(1) inv, of t 0] that by auto
  ultimately show ?thesis
    using osal_mutex.om_touch_unique [OF assms(1) inv, of t u] osal_mutex.om_quiet_depth [OF assms(1) inv] by blast
qed

theorem os_mutex_threads_safe_witness:
  "\<exists>s. om_reach (pos_mutex_lock_posix ref_mutex_api) (pos_mutex_unlock_posix ref_mutex_api) {1, 2} 5
         (mutex0, ref_mutexes1) s \<and> om_pcs s 1 = Lock_Load \<and> \<not> touches_depth (om_pcs s 2) \<and>
       om_pcs s 2 \<noteq> Assert_Failed"
proof -
  obtain s where s: "om_reach (pos_mutex_lock_posix ref_mutex_api) (pos_mutex_unlock_posix ref_mutex_api) {1, 2} 5
         (mutex0, ref_mutexes1) s" "om_pcs s 1 = Lock_Load"
    using om_reach_example by blast
  from os_mutex_threads_safe [OF ref_posix_mutex.posix_mutex.osal_mutex_axioms ref_mutex_ready _ s(1), of 2 1] s
  show ?thesis by (intro exI [of _ s]) auto
qed

text \<open>C21. The threads of an \<open>OsMutex\<close> cannot deadlock or run for ever: from every reachable state, the steps
  of threads inside \<open>Lock\<close> and \<open>Unlock\<close> and the calls of \<open>Unlock\<close> by their holders lead to a state in which
  every thread is outside, the mutex is free and the counter is zero; and each such step decreases
  the work that is left, so every way of scheduling them ends.\<close>

theorem os_mutex_threads_complete:
  assumes "osal_mutex lock unlock own ready limit" and "ready w0" and "own w0 = None"
    and "nest < 2 ^ 32" and "nest \<le> limit" and "finite T" and "om_reach lock unlock T nest w0 s"
  shows "(\<exists>s'. (\<lambda>s s'. \<exists>t. om_work lock unlock t s s')\<^sup>*\<^sup>* s s' \<and> om_quiet own s') \<and>
         (om_work lock unlock t s s1 \<longrightarrow> om_left T s1 < om_left T s) \<and>
         (om_quiet own s \<or> (\<exists>u s2. om_work lock unlock u s s2))"
proof -
  note inv = osal_mutex.om_reach_inv [OF assms(1,7,2-4)]
  show ?thesis
    using osal_mutex.om_completes [OF assms(1) inv assms(5,4,6)] osal_mutex.om_work_uses [OF assms(1) _ inv assms(6)]
      osal_mutex.om_progress [OF assms(1) inv assms(5)]
    by blast
qed

theorem os_mutex_threads_complete_witness:
  "\<exists>s s'. om_reach (pos_mutex_lock_posix ref_mutex_api) (pos_mutex_unlock_posix ref_mutex_api) {1, 2} 5
         (mutex0, ref_mutexes1) s \<and> om_pcs s 2 = Lock_Call 7 \<and>
       (\<lambda>s s'. \<exists>t. om_work (pos_mutex_lock_posix ref_mutex_api) (pos_mutex_unlock_posix ref_mutex_api) t s s')\<^sup>*\<^sup>* s s' \<and>
       om_pcs s' 2 = Outside \<and> lock_depth (om_mutex s') = 0"
proof -
  obtain s where s: "om_reach (pos_mutex_lock_posix ref_mutex_api) (pos_mutex_unlock_posix ref_mutex_api) {1, 2} 5
         (mutex0, ref_mutexes1) s" "om_pcs s 2 = Lock_Call 7"
    using om_reach_example by blast
  have "5 \<le> rm_limit" by (simp add: rm_limit_def)
  from os_mutex_threads_complete [OF ref_posix_mutex.posix_mutex.osal_mutex_axioms ref_mutex_ready _ this _ s(1), of 1 s]
  have "\<exists>s'. (\<lambda>s s'. \<exists>t. om_work (pos_mutex_lock_posix ref_mutex_api) (pos_mutex_unlock_posix ref_mutex_api) t s s')\<^sup>*\<^sup>* s s' \<and>
      om_quiet (\<lambda>(mu, k). rm_own k (pm_lock mu)) s'"
    by simp
  with s show ?thesis unfolding om_quiet_def by blast
qed

end
