(* ===== verification/Os_Ports.thy ===== *)
theory Os_Ports
  imports Os_Wrappers Conform_Queue
begin

text \<open>
  The life of an \<open>OsQueue\<close> on the Zephyr and RT-Thread ports: constructor, any sequence of \<open>Push\<close> and
  \<open>Pop\<close>, destructor.  The lemmas about the class use the queue contract only; each port adds what its
  initialisation and deinitialisation do.
\<close>

section \<open>Construction and destruction\<close>

lemma OsQueue_new_Returns:
  assumes "OsQueue_new init sz n (q, w) = Returns () w'"
  shows "\<exists>w1. init sz n w = Returns POS_OK w1 \<and> w' = (\<lparr>initialized = True, init_status = POS_OK\<rparr>, w1)"
  using assms by (auto simp: OsQueue_new_def prog_defs split: outcome.splits if_splits)

lemma OsQueue_delete_Returns:
  assumes "OsQueue_delete deinit (q, w) = Returns () (q', w')" and "initialized q"
  shows "deinit w = Returns POS_OK w' \<and> \<not> initialized q'"
  using assms by (auto simp: OsQueue_delete_def prog_defs split: outcome.splits if_splits)

lemma OsQueue_Push_keeps:
  "OsQueue_Push put x (q, w) = Returns e w' \<Longrightarrow> fst w' = q"
  "OsQueue_Pop get x tmo (q, w) = Returns r w' \<Longrightarrow> fst w' = q"
  by (auto simp: OsQueue_Push_def OsQueue_Pop_def prog_defs split: outcome.splits if_splits)

lemma OsQueue_run_keeps:
  assumes "queue_run (OsQueue_Push put) (OsQueue_Pop get) cs (q, w) = Returns r w'"
  shows "fst w' = q"
  using assms
proof (induction cs arbitrary: w r)
  case Nil
  then show ?case by (auto simp: c_return_def)
next
  case (Cons c cs)
  obtain w1 r1 where w1: "queue_run (OsQueue_Push put) (OsQueue_Pop get) cs w1 = Returns r1 w'" "fst w1 = q"
    using Cons.prems
    by (cases c) (auto simp: c_return_def case_prod_unfold dest!: OsQueue_Push_keeps elim!: c_bind_ReturnsE)
  then show ?case using Cons.IH [of "snd w1" r1] by (cases w1) simp
qed

context osal_queue
begin

lemma OsQueue_run_fifo:
  assumes "initialized q" and "ok w" and "\<forall>c \<in> set cs. call_area_ok (width w) c"
    and "queue_run (OsQueue_Push put) (OsQueue_Pop get) cs (q, w) = Returns (sent, got) (q', w')"
  shows "q' = q \<and> ok w' \<and> items w @ map (take (width w)) sent = map (take (width w)) got @ items w'"
  using osal_queue.queue_run_fifo [OF OsQueue_is_queue, of "(q, w)" cs sent got "(q', w')"] assms
    OsQueue_run_keeps [OF assms(4)]
  by simp

end

section \<open>The ports\<close>

context zephyr_queue_kernel
begin

lemma OsQueue_life:
  assumes "OsQueue_new (pos_queue_init_zephyr api) sz n (q0, zq0, k0) = Returns () w0"
    and "unat sz * unat n < 2 ^ 32" and "\<forall>c \<in> set cs. call_area_ok (unat sz) c"
    and "queue_run (OsQueue_Push (pos_queue_put_zephyr api run_cb)) (OsQueue_Pop (pos_queue_get_zephyr api)) cs w0 =
           Returns (sent, got) (q, zq, k)"
  shows "map (take (unat sz)) sent = map (take (unat sz)) got @ items k (zq_msgq zq) \<and> initialized q \<and>
         (OsQueue_delete (pos_queue_deinit_zephyr api False) (q, zq, k) = Returns () (q', zq', k') \<longrightarrow>
            \<not> initialized q' \<and> pos_queue_inited_zephyr zq' = 0)"
proof -
  obtain zq1 k1 where w1: "pos_queue_init_zephyr api sz n (zq0, k0) = Returns POS_OK (zq1, k1)"
      "w0 = (\<lparr>initialized = True, init_status = POS_OK\<rparr>, zq1, k1)"
    using OsQueue_new_Returns [OF assms(1)] by (metis surj_pair)
  have init: "zq_msgq zq1 = zq_msgq zq0" "zq_sig_cb zq1 = None" "usable k1 (zq_msgq zq0)" "items k1 (zq_msgq zq0) = []"
      "width k1 (zq_msgq zq0) = unat sz"
    using init_usable [OF w1(1) assms(2)] by simp_all
  then have "case (zq1, k1) of (q, k) \<Rightarrow> q = zq1 \<and> zq_sig_cb q = None \<and> usable k (zq_msgq q)" by simp
  from zephyr_queue.OsQueue_run_fifo [OF _ this _ assms(4) [unfolded w1(2)]] init assms(3)
  have "q = \<lparr>initialized = True, init_status = POS_OK\<rparr>"
      "map (take (unat sz)) sent = map (take (unat sz)) got @ items k (zq_msgq zq)"
    by simp_all
  then show ?thesis
    using OsQueue_delete_Returns [of "pos_queue_deinit_zephyr api False" q "(zq, k)" q' "(zq', k')"]
      zephyr_queue_deinit [of api "(zq, k)" POS_OK "(zq', k')"]
    by simp
qed

end

context rtt_queue_kernel
begin

lemma OsQueue_life:
  assumes "OsQueue_new (pos_queue_init_rtt api False) sz n (q0, rq0, k0) = Returns () w0"
    and "align_up (unat sz) = unat sz" and "\<forall>c \<in> set cs. call_area_ok (unat sz) c"
    and "queue_run (OsQueue_Push (pos_queue_put_rtt api False)) (OsQueue_Pop (pos_queue_get_rtt api)) cs w0 =
           Returns (sent, got) (q, rq, k)"
  shows "(\<exists>h. rq_handle rq = Some h \<and>
            map (take (unat sz)) sent = map (take (unat sz)) got @ items k h) \<and> initialized q \<and>
         (OsQueue_delete (pos_queue_deinit_rtt api False) (q, rq, k) = Returns () (q', rq', k') \<longrightarrow>
            \<not> initialized q' \<and> pos_queue_inited_rtt rq' = 0)"
proof -
  obtain rq1 k1 where w1: "pos_queue_init_rtt api False sz n (rq0, k0) = Returns POS_OK (rq1, k1)"
      "w0 = (\<lparr>initialized = True, init_status = POS_OK\<rparr>, rq1, k1)"
    using OsQueue_new_Returns [OF assms(1)] by (metis surj_pair)
  then obtain h where h: "rq_handle rq1 = Some h" "usable k1 h" "items k1 h = []" "mq_msg_size api k1 h = unat sz"
    using init_handle [OF w1(1)] assms(2) by auto
  then have "case (rq1, k1) of (q, k) \<Rightarrow> rq_handle q = Some h \<and> usable k h" by simp
  from rtt_queue.OsQueue_run_fifo [OF _ this _ assms(4) [unfolded w1(2)]] h assms(3)
  have "q = \<lparr>initialized = True, init_status = POS_OK\<rparr> \<and> rq_handle rq = Some h \<and>
      map (take (unat sz)) sent = map (take (unat sz)) got @ items k h"
    by simp
  then show ?thesis
    using OsQueue_delete_Returns [of "pos_queue_deinit_rtt api False" q "(rq, k)" q' "(rq', k')"]
      rtt_queue_deinit [of api "(rq, k)" POS_OK "(rq', k')"]
    by simp
qed

end

section \<open>Properties\<close>

text \<open>C27. The life of an \<open>OsQueue<T>\<close> on Zephyr and RT-Thread: once the constructor has returned, over any sequence of
  \<open>Push\<close> and \<open>Pop\<close> calls with items of type \<open>T\<close> the accepted items are exactly the delivered ones, in order, followed by those still
  queued, and the object stays initialised; the destructor leaves both the object and the port's queue invalid.  On Zephyr the
  buffer of \<open>sizeof(T) * n\<close> bytes is below \<open>2^32\<close>; on RT-Thread \<open>sizeof(T)\<close> is a multiple of the kernel's alignment, since for
  other types the port copies beyond the item.\<close>

theorem os_queue_life:
  assumes "zephyr_queue_kernel zapi zitems zcap zwidth heap_size zusable"
    and "OsQueue_new (pos_queue_init_zephyr zapi) sz n (q0, zq0, zk0) = Returns () zw0"
    and "unat sz * unat n < 2 ^ 32" and "\<forall>c \<in> set cs. call_area_ok (unat sz) c"
    and "queue_run (OsQueue_Push (pos_queue_put_zephyr zapi run_cb)) (OsQueue_Pop (pos_queue_get_zephyr zapi)) cs zw0 =
           Returns (sent, got) (q, zq, zk)"
    and "rtt_queue_kernel rapi ritems rcap rusable align_up"
    and "OsQueue_new (pos_queue_init_rtt rapi False) rsz rn (q0, rq0, rk0) = Returns () rw0"
    and "align_up (unat rsz) = unat rsz" and "\<forall>c \<in> set rcs. call_area_ok (unat rsz) c"
    and "queue_run (OsQueue_Push (pos_queue_put_rtt rapi False)) (OsQueue_Pop (pos_queue_get_rtt rapi)) rcs rw0 =
           Returns (rsent, rgot) (q2, rq, rk)"
  shows "(map (take (unat sz)) sent = map (take (unat sz)) got @ zitems zk (zq_msgq zq) \<and> initialized q \<and>
          (OsQueue_delete (pos_queue_deinit_zephyr zapi False) (q, zq, zk) = Returns () (q', zq', zk') \<longrightarrow>
             \<not> initialized q' \<and> pos_queue_inited_zephyr zq' = 0)) \<and>
         (\<exists>h. rq_handle rq = Some h \<and>
            map (take (unat rsz)) rsent = map (take (unat rsz)) rgot @ ritems rk h) \<and>
         initialized q2 \<and>
         (OsQueue_delete (pos_queue_deinit_rtt rapi False) (q2, rq, rk) = Returns () (q2', rq', rk') \<longrightarrow>
            \<not> initialized q2' \<and> pos_queue_inited_rtt rq' = 0)"
  using zephyr_queue_kernel.OsQueue_life [OF assms(1-5)] rtt_queue_kernel.OsQueue_life [OF assms(6-10)] by blast

lemma os_queue_life_example:
  obtains zw0 q zq zk sent rw0 q2 rq rk rsent where
    "OsQueue_new (pos_queue_init_zephyr ref_zephyr_queue) 2 4 (\<lparr>initialized = False, init_status = POS_OK\<rparr>,
       \<lparr>zq_msgq = 0, zq_buffer = None, zq_sig_cb = None :: nat option, zq_sig_arg = None :: nat option\<rparr>, ref_msgqs0) =
       Returns () zw0"
    "queue_run (OsQueue_Push (pos_queue_put_zephyr ref_zephyr_queue (\<lambda>_ _ k. Returns () k)))
       (OsQueue_Pop (pos_queue_get_zephyr ref_zephyr_queue)) [QPut [1, 2], QPut [3, 4], QGet [0, 0] 0] zw0 =
       Returns (sent, [[1, 2]]) (q, zq, zk)"
    "OsQueue_new (pos_queue_init_rtt ref_rtt_queue False) 4 4 (\<lparr>initialized = False, init_status = POS_OK\<rparr>,
       \<lparr>rq_handle = None\<rparr>, ref_mqs0) = Returns () rw0"
    "queue_run (OsQueue_Push (pos_queue_put_rtt ref_rtt_queue False)) (OsQueue_Pop (pos_queue_get_rtt ref_rtt_queue))
       [QPut [1, 2, 3, 4], QGet [0, 0, 0, 0] 0] rw0 = Returns (rsent, [[1, 2, 3, 4]]) (q2, rq, rk)"
  by (auto simp: OsQueue_new_def OsQueue_Push_def OsQueue_Pop_def pos_queue_init_zephyr_def pos_queue_put_zephyr_def
      pos_queue_get_zephyr_def pos_queue_init_rtt_def pos_queue_put_rtt_def pos_queue_get_rtt_def rtt_handle_def
      prog_defs ref_zephyr_queue_def ref_rtt_queue_def ref_msgqs0_def ref_mqs0_def wait_status_def align4_def)

theorem os_queue_life_witness:
  "\<exists>zw0 q zq zk sent. queue_run
       (OsQueue_Push (pos_queue_put_zephyr ref_zephyr_queue (\<lambda>(_ :: nat) (_ :: nat option) k. Returns () k)))
       (OsQueue_Pop (pos_queue_get_zephyr ref_zephyr_queue)) [QPut [1, 2], QPut [3, 4], QGet [0, 0] 0] zw0 =
       Returns (sent, [[1, 2]]) (q, zq, zk) \<and>
     map (take 2) sent = map (take 2) [[1, 2]] @ rmq_items zk (zq_msgq zq) \<and> initialized q \<and>
     (\<exists>rw0 q2 rq rk rsent. queue_run (OsQueue_Push (pos_queue_put_rtt ref_rtt_queue False))
         (OsQueue_Pop (pos_queue_get_rtt ref_rtt_queue)) [QPut [1, 2, 3, 4], QGet [0, 0, 0, 0] 0] rw0 =
         Returns (rsent, [[1, 2, 3, 4]]) (q2, rq, rk) \<and> initialized q2)"
proof -
  obtain zw0 q zq zk sent rw0 q2 rq rk rsent where e:
    "OsQueue_new (pos_queue_init_zephyr ref_zephyr_queue) 2 4 (\<lparr>initialized = False, init_status = POS_OK\<rparr>,
       \<lparr>zq_msgq = 0, zq_buffer = None, zq_sig_cb = None :: nat option, zq_sig_arg = None :: nat option\<rparr>, ref_msgqs0) =
       Returns () zw0"
    "queue_run (OsQueue_Push (pos_queue_put_zephyr ref_zephyr_queue (\<lambda>_ _ k. Returns () k)))
       (OsQueue_Pop (pos_queue_get_zephyr ref_zephyr_queue)) [QPut [1, 2], QPut [3, 4], QGet [0, 0] 0] zw0 =
       Returns (sent, [[1, 2]]) (q, zq, zk)"
    "OsQueue_new (pos_queue_init_rtt ref_rtt_queue False) 4 4 (\<lparr>initialized = False, init_status = POS_OK\<rparr>,
       \<lparr>rq_handle = None\<rparr>, ref_mqs0) = Returns () rw0"
    "queue_run (OsQueue_Push (pos_queue_put_rtt ref_rtt_queue False)) (OsQueue_Pop (pos_queue_get_rtt ref_rtt_queue))
       [QPut [1, 2, 3, 4], QGet [0, 0, 0, 0] 0] rw0 = Returns (rsent, [[1, 2, 3, 4]]) (q2, rq, rk)"
    by (rule os_queue_life_example)
  from os_queue_life [OF ref_zephyr_queue.zephyr_queue_kernel_axioms e(1) _ _ e(2)
      ref_rtt_queue.rtt_queue_kernel_axioms e(3) _ _ e(4)] e(2,4)
  show ?thesis
    by (intro exI [of _ zw0] exI [of _ q] exI [of _ zq] exI [of _ zk] exI [of _ sent] conjI exI [of _ rw0] exI [of _ q2]
        exI [of _ rq] exI [of _ rk] exI [of _ rsent]) (simp_all add: align4_def)
qed

end
