(* ===== verification/Os_Sem_Threads.thy ===== *)
theory Os_Sem_Threads
  imports Os_Wrappers
begin

text \<open>
  \<open>OsSemaphore\<close> used by several threads at once.  \<open>take_depth_\<close> is atomic, but \<open>Take\<close> and \<open>Give\<close>
  change it in a step of its own, after the port call has returned.  The members are executed
  here step by step and interleaved arbitrarily.  Any thread may give, whether or not it has taken before; the
  client keeps only to the limit of the semaphore: it does not enter \<open>Give\<close> when the tokens and the gives
  under way have reached it.  The lemmas hold for every port that meets the semaphore contract.
\<close>

section \<open>Definitions\<close>

text \<open>Where a thread is: outside, or before the named step of \<open>Take\<close> or \<open>Give\<close>.\<close>

datatype os_pc =
    At_Rest
  | Take_Call pos_time
  | Take_Inc
  | Give_Call
  | Give_Dec

record ('t, 'w) os_sys =
  os_sem :: OsSemaphore
  os_port :: 'w
  os_pcs :: "'t \<Rightarrow> os_pc"

definition os_goto :: "'t \<Rightarrow> os_pc \<Rightarrow> ('t, 'w) os_sys \<Rightarrow> ('t, 'w) os_sys" where
  "os_goto t pc s = s\<lparr>os_pcs := (os_pcs s)(t := pc)\<rparr>"

definition os_add_depth :: "u32 \<Rightarrow> ('t, 'w) os_sys \<Rightarrow> ('t, 'w) os_sys" where
  "os_add_depth d s = s\<lparr>os_sem := (os_sem s)\<lparr>take_depth := take_depth (os_sem s) + d\<rparr>\<rparr>"

text \<open>\<open>os_work\<close>: a step of a thread inside \<open>Take\<close> or \<open>Give\<close>.\<close>

inductive os_work ::
    "(pos_error, 'w) prog \<Rightarrow> (pos_time \<Rightarrow> (pos_error, 'w) prog) \<Rightarrow> 't \<Rightarrow> ('t, 'w) os_sys \<Rightarrow> ('t, 'w) os_sys \<Rightarrow> bool"
  for sem_give sem_take where
  take_returns_ok:
    "os_pcs s t = Take_Call tmo \<Longrightarrow> sem_take tmo (os_port s) = Returns POS_OK w' \<Longrightarrow>
     os_work sem_give sem_take t s (os_goto t Take_Inc (s\<lparr>os_port := w'\<rparr>))"
| take_returns_error:
    "os_pcs s t = Take_Call tmo \<Longrightarrow> sem_take tmo (os_port s) = Returns e w' \<Longrightarrow> e \<noteq> POS_OK \<Longrightarrow>
     os_work sem_give sem_take t s (os_goto t At_Rest (s\<lparr>os_port := w'\<rparr>))"
| take_inc:
    "os_pcs s t = Take_Inc \<Longrightarrow> os_work sem_give sem_take t s (os_goto t At_Rest (os_add_depth 1 s))"
| give_returns_ok:
    "os_pcs s t = Give_Call \<Longrightarrow> sem_give (os_port s) = Returns POS_OK w' \<Longrightarrow>
     os_work sem_give sem_take t s (os_goto t Give_Dec (s\<lparr>os_port := w'\<rparr>))"
| give_returns_error:
    "os_pcs s t = Give_Call \<Longrightarrow> sem_give (os_port s) = Returns e w' \<Longrightarrow> e \<noteq> POS_OK \<Longrightarrow>
     os_work sem_give sem_take t s (os_goto t At_Rest (s\<lparr>os_port := w'\<rparr>))"
| give_dec:
    "os_pcs s t = Give_Dec \<Longrightarrow> os_work sem_give sem_take t s (os_goto t At_Rest (os_add_depth (- 1) s))"

fun pc_giving :: "os_pc \<Rightarrow> nat" where
  "pc_giving Give_Call = 1"
| "pc_giving _ = 0"

fun pc_inc :: "os_pc \<Rightarrow> nat" where
  "pc_inc Take_Inc = 1"
| "pc_inc _ = 0"

fun pc_dec :: "os_pc \<Rightarrow> nat" where
  "pc_dec Give_Dec = 1"
| "pc_dec _ = 0"

definition os_count :: "'t set \<Rightarrow> (os_pc \<Rightarrow> nat) \<Rightarrow> ('t, 'w) os_sys \<Rightarrow> nat" where
  "os_count T f s = (\<Sum>t\<in>T. f (os_pcs s t))"

text \<open>Reachable states: the threads of \<open>T\<close> may also enter \<open>Take\<close>, and \<open>Give\<close> within the limit.\<close>

inductive os_reach ::
    "(pos_error, 'w) prog \<Rightarrow> (pos_time \<Rightarrow> (pos_error, 'w) prog) \<Rightarrow> ('w \<Rightarrow> nat) \<Rightarrow> nat \<Rightarrow> 't set \<Rightarrow> 'w \<Rightarrow>
     ('t, 'w) os_sys \<Rightarrow> bool"
  for sem_give sem_take tokens limit T w0 where
  os_start:
    "os_reach sem_give sem_take tokens limit T w0 \<lparr>os_sem = \<lparr>take_depth = 0\<rparr>, os_port = w0, os_pcs = \<lambda>_. At_Rest\<rparr>"
| os_enter_take:
    "os_reach sem_give sem_take tokens limit T w0 s \<Longrightarrow> t \<in> T \<Longrightarrow> os_pcs s t = At_Rest \<Longrightarrow>
     os_reach sem_give sem_take tokens limit T w0 (os_goto t (Take_Call tmo) s)"
| os_enter_give:
    "os_reach sem_give sem_take tokens limit T w0 s \<Longrightarrow> t \<in> T \<Longrightarrow> os_pcs s t = At_Rest \<Longrightarrow>
     tokens (os_port s) + os_count T pc_giving s < limit \<Longrightarrow>
     os_reach sem_give sem_take tokens limit T w0 (os_goto t Give_Call s)"
| os_step:
    "os_reach sem_give sem_take tokens limit T w0 s \<Longrightarrow> os_work sem_give sem_take t s s' \<Longrightarrow>
     os_reach sem_give sem_take tokens limit T w0 s'"

text \<open>
  The invariant: tokens are conserved, when the counter is corrected by the threads that are about to change it.
\<close>

definition os_inv :: "('w \<Rightarrow> nat) \<Rightarrow> nat \<Rightarrow> ('w \<Rightarrow> bool) \<Rightarrow> 't set \<Rightarrow> nat \<Rightarrow> ('t, 'w) os_sys \<Rightarrow> bool" where
  "os_inv tokens limit ready T n0 s \<longleftrightarrow>
     ready (os_port s) \<and> (\<forall>t. t \<notin> T \<longrightarrow> os_pcs s t = At_Rest) \<and>
     tokens (os_port s) + os_count T pc_giving s \<le> limit \<and>
     (\<exists>d. take_depth (os_sem s) = word_of_int d \<and>
        int (tokens (os_port s)) + d + int (os_count T pc_inc s) = int n0 + int (os_count T pc_dec s))"

text \<open>For the examples: a semaphore of the POSIX port with \<open>n\<close> tokens.\<close>

definition sem_world :: "nat \<Rightarrow> nat pos_sem_posix \<times> ref_sems" where
  "sem_world n = (\<lparr>ps_lock = 0\<rparr>, \<lparr>rs_count = (\<lambda>_. 0)(0 := n), rs_live = \<lambda>_. True, rs_errno = 0, rs_now = 0\<rparr>)"

section \<open>The invariant\<close>

lemma os_count_goto:
  assumes "finite T" and "t \<in> T"
  shows "os_count T f (os_goto t pc s) + f (os_pcs s t) = os_count T f s + f pc"
proof -
  have "(\<Sum>u\<in>T - {t}. f (((os_pcs s)(t := pc)) u)) = (\<Sum>u\<in>T - {t}. f (os_pcs s u))"
    by (rule sum.cong) auto
  then show ?thesis
    using sum.remove [OF assms, of "\<lambda>u. f (os_pcs s u)"] sum.remove [OF assms, of "\<lambda>u. f (((os_pcs s)(t := pc)) u)"]
    by (simp add: os_count_def os_goto_def)
qed

lemma os_count_upd [simp]:
  "os_count T f (s\<lparr>os_port := w\<rparr>) = os_count T f s" "os_count T f (os_add_depth d s) = os_count T f s"
  "os_count T f (os_goto t pc (s\<lparr>os_port := w\<rparr>)) = os_count T f (os_goto t pc s)"
  "os_count T f (os_goto t pc (os_add_depth d s)) = os_count T f (os_goto t pc s)"
  by (simp_all add: os_count_def os_add_depth_def os_goto_def)

lemma os_upd_simps [simp]:
  "os_port (os_goto t pc s) = os_port s" "os_sem (os_goto t pc s) = os_sem s"
  "os_pcs (os_goto t pc s) = (os_pcs s)(t := pc)"
  "os_port (os_add_depth d s) = os_port s" "os_pcs (os_add_depth d s) = os_pcs s"
  "take_depth (os_sem (os_add_depth d s)) = take_depth (os_sem s) + d"
  by (simp_all add: os_goto_def os_add_depth_def)

lemma os_work_inside: "os_work sem_give sem_take t s s' \<Longrightarrow> os_pcs s t \<noteq> At_Rest"
  by (cases rule: os_work.cases) auto

context osal_sem
begin

lemma os_inv_goto:
  assumes "os_inv tokens limit ready T n0 s" and "t \<in> T" and "ready w'"
    and "tokens w' + os_count T pc_giving (os_goto t pc s) \<le> limit"
    and "take_depth (os_sem s') = word_of_int d"
    and "int (tokens w') + d + int (os_count T pc_inc (os_goto t pc s)) = int n0 + int (os_count T pc_dec (os_goto t pc s))"
    and "os_port s' = w'" and "os_pcs s' = (os_pcs s)(t := pc)"
  shows "os_inv tokens limit ready T n0 s'"
proof -
  have "os_count T f s' = os_count T f (os_goto t pc s)" for f
    using assms(8) by (simp add: os_count_def os_goto_def)
  then show ?thesis using assms by (auto simp: os_inv_def)
qed

lemma os_work_inv:
  assumes "os_work sem_give sem_take t s s'" and inv: "os_inv tokens limit ready T n0 s" and fin: "finite T"
  shows "os_inv tokens limit ready T n0 s'"
proof -
  obtain d where d: "ready (os_port s)" "tokens (os_port s) + os_count T pc_giving s \<le> limit"
      "take_depth (os_sem s) = word_of_int d"
      "int (tokens (os_port s)) + d + int (os_count T pc_inc s) = int n0 + int (os_count T pc_dec s)"
    using inv by (auto simp: os_inv_def)
  have t: "t \<in> T" using os_work_inside [OF assms(1)] inv by (auto simp: os_inv_def)
  note c = os_count_goto [OF fin t, of pc_giving _ s] os_count_goto [OF fin t, of pc_inc _ s]
    os_count_goto [OF fin t, of pc_dec _ s]
  from assms(1) show ?thesis
  proof cases
    case (take_returns_ok tmo w')
    with c [of Take_Inc] take_returns [OF d(1) take_returns_ok(3)] d show ?thesis
      by (intro os_inv_goto [OF inv t, of w' Take_Inc _ d]) auto
  next
    case (take_returns_error tmo e w')
    with c [of At_Rest] take_returns [OF d(1) take_returns_error(3)] d show ?thesis
      by (intro os_inv_goto [OF inv t, of w' At_Rest _ d]) auto
  next
    case take_inc
    with c [of At_Rest] d show ?thesis
      by (intro os_inv_goto [OF inv t, of "os_port s" At_Rest _ "d + 1"]) auto
  next
    case (give_returns_ok w')
    with c [of Give_Dec] give_returns [OF d(1) give_returns_ok(3)] d show ?thesis
      by (intro os_inv_goto [OF inv t, of w' Give_Dec _ d]) auto
  next
    case (give_returns_error e w')
    with c [of At_Rest] give_returns [OF d(1) give_returns_error(3)] d show ?thesis
      by (intro os_inv_goto [OF inv t, of w' At_Rest _ d]) auto
  next
    case give_dec
    with c [of At_Rest] d show ?thesis
      by (intro os_inv_goto [OF inv t, of "os_port s" At_Rest _ "d - 1"]) auto
  qed
qed

lemma os_inv_enter:
  assumes inv: "os_inv tokens limit ready T n0 s" and "finite T" and "t \<in> T" and "os_pcs s t = At_Rest"
    and "pc_inc pc = 0" and "pc_dec pc = 0" and "tokens (os_port s) + os_count T pc_giving s + pc_giving pc \<le> limit"
  shows "os_inv tokens limit ready T n0 (os_goto t pc s)"
proof -
  have c: "os_count T f (os_goto t pc s) + f At_Rest = os_count T f s + f pc" for f
    using os_count_goto [OF assms(2,3), of f pc s] assms(4) by simp
  obtain d where "ready (os_port s)" "take_depth (os_sem s) = word_of_int d"
      "int (tokens (os_port s)) + d + int (os_count T pc_inc s) = int n0 + int (os_count T pc_dec s)"
    using inv by (auto simp: os_inv_def)
  then show ?thesis
    using c [of pc_inc] c [of pc_dec] c [of pc_giving] assms(5-7)
    by (intro os_inv_goto [OF inv assms(3), of "os_port s" pc _ d]) simp_all
qed

lemma os_reach_inv:
  assumes "os_reach sem_give sem_take tokens limit T w0 s" and "ready w0" and "tokens w0 \<le> limit" and "finite T"
  shows "os_inv tokens limit ready T (tokens w0) s"
  using assms(1)
proof (induction rule: os_reach.induct)
  case os_start
  then show ?case using assms(2,3) by (auto simp: os_inv_def os_count_def intro: exI [of _ 0])
next
  case (os_enter_take s t tmo)
  then show ?case
    using os_inv_enter [OF os_enter_take.IH assms(4), of t "Take_Call tmo"] by (auto simp: os_inv_def)
next
  case (os_enter_give s t)
  then show ?case
    using os_inv_enter [OF os_enter_give.IH assms(4), of t Give_Call] by simp
next
  case (os_step s t s')
  then show ?case by (intro os_work_inv [OF os_step.hyps(2) os_step.IH assms(4)])
qed

text \<open>In a reachable state the counter is exact as a signed number.\<close>

lemma os_depth:
  assumes inv: "os_inv tokens limit ready T n0 s" and "finite T" and "n0 \<le> limit" and "limit + card T < 2 ^ 31"
  shows "sint (take_depth (os_sem s)) + int (tokens (os_port s)) + int (os_count T pc_inc s) =
         int n0 + int (os_count T pc_dec s)"
proof -
  obtain d where d: "take_depth (os_sem s) = word_of_int d" "tokens (os_port s) \<le> limit"
      "int (tokens (os_port s)) + d + int (os_count T pc_inc s) = int n0 + int (os_count T pc_dec s)"
    using inv by (auto simp: os_inv_def)
  have le: "os_count T f s \<le> card T" if "\<And>pc. f pc \<le> 1" for f
    using sum_bounded_above [of T "\<lambda>t. f (os_pcs s t)" 1] that by (simp add: os_count_def)
  have "pc_inc pc \<le> 1" "pc_dec pc \<le> 1" for pc by (cases pc; simp)+
  then have c: "int (os_count T pc_inc s) \<le> int (card T)" "int (os_count T pc_dec s) \<le> int (card T)"
    using le by simp_all
  have "int limit + int (card T) < 2 ^ 31" using assms(4) by simp
  then have "\<bar>d\<bar> < 2 ^ 31" using c d(2,3) assms(3) by linarith
  then have "sint (take_depth (os_sem s)) = d"
    using d(1) by (simp add: signed_of_int signed_take_bit_int_eq_self_iff abs_less_iff)
  then show ?thesis using d(3) by simp
qed

text \<open>
  The destructor, once all threads have left, returns the tokens that are still taken.  After more gives than takes the
  counter is negative and it returns nothing.
\<close>

lemma os_quiet_delete:
  assumes inv: "os_inv tokens limit ready T n0 s" and "finite T" and "n0 \<le> limit" and "limit + card T < 2 ^ 31"
    and rest: "\<forall>t. os_pcs s t = At_Rest"
  shows "\<exists>x w. OsSemaphore_delete (Suc (nat (sint (take_depth (os_sem s))))) sem_give (os_sem s, os_port s) =
           Returns () (x, w) \<and> tokens w = max n0 (tokens (os_port s))"
proof -
  define d where "d = sint (take_depth (os_sem s))"
  have z: "os_count T pc_inc s = 0" "os_count T pc_dec s = 0" using rest by (simp_all add: os_count_def)
  have e: "d + int (tokens (os_port s)) = int n0" using os_depth [OF assms(1-4)] z by (simp add: d_def)
  show ?thesis
  proof (cases "0 \<le> d")
    case True
    then have "take_depth (os_sem s) = word_of_nat (nat d)" by (simp add: d_def)
    moreover have "nat d < 2 ^ 31" and "tokens (os_port s) + nat d = n0" and "max n0 (tokens (os_port s)) = n0"
      using e True assms(3,4) by simp_all
    moreover have "ready (os_port s)" using inv by (simp add: os_inv_def)
    ultimately show ?thesis
      using OsSemaphore_delete_gives [of "os_port s" "os_sem s" "nat d" "Suc (nat d)"] assms(3) by (simp add: d_def)
  next
    case False
    then show ?thesis using e by (simp add: d_def [symmetric] prog_defs)
  qed
qed

lemma below_limit: "lim \<le> limit \<Longrightarrow> osal_sem sem_give sem_take tokens lim ready"
proof (unfold_locales, goal_cases)
  case (1 w)
  then show ?case using give_room [of w] by simp
next
  case (2 w e w')
  then show ?case by (intro give_returns) auto
next
  case (3 w tmo)
  then show ?case by (intro take_token)
next
  case (4 w tmo)
  then show ?case by (intro take_none)
qed

end

section \<open>A thread alone\<close>

text \<open>Without interference the steps of a call are the member function of the class.\<close>

lemma take_alone:
  assumes "os_pcs s t = Take_Call tmo" and "OsSemaphore_Take sem_take tmo (os_sem s, os_port s) = Returns e (x, w)"
  shows "(os_work sem_give sem_take t)\<^sup>*\<^sup>* s (os_goto t At_Rest (s\<lparr>os_sem := x, os_port := w\<rparr>))"
proof -
  have p: "sem_take tmo (os_port s) = Returns e w"
      "x = (if e = POS_OK then (os_sem s)\<lparr>take_depth := take_depth (os_sem s) + 1\<rparr> else os_sem s)"
    using assms(2) by (auto simp: OsSemaphore_Take_def prog_defs split: outcome.splits)
  show ?thesis
  proof (cases "e = POS_OK")
    case True
    let ?s1 = "os_goto t Take_Inc (s\<lparr>os_port := w\<rparr>)"
    have "os_work sem_give sem_take t s ?s1" using take_returns_ok [OF assms(1)] p(1) True by blast
    moreover have "os_work sem_give sem_take t ?s1 (os_goto t At_Rest (os_add_depth 1 ?s1))" by (rule take_inc) simp
    moreover have "os_goto t At_Rest (os_add_depth 1 ?s1) = os_goto t At_Rest (s\<lparr>os_sem := x, os_port := w\<rparr>)"
      using True p(2) by (simp add: os_goto_def os_add_depth_def)
    ultimately show ?thesis by (metis converse_rtranclp_into_rtranclp r_into_rtranclp)
  next
    case False
    then show ?thesis using take_returns_error [where sem_take = sem_take, OF assms(1) p(1) False] p(2) by (simp add: os_goto_def r_into_rtranclp)
  qed
qed

lemma give_alone:
  assumes "os_pcs s t = Give_Call" and "OsSemaphore_Give sem_give (os_sem s, os_port s) = Returns e (x, w)"
  shows "(os_work sem_give sem_take t)\<^sup>*\<^sup>* s (os_goto t At_Rest (s\<lparr>os_sem := x, os_port := w\<rparr>))"
proof -
  have p: "sem_give (os_port s) = Returns e w"
      "x = (if e = POS_OK then (os_sem s)\<lparr>take_depth := take_depth (os_sem s) - 1\<rparr> else os_sem s)"
    using assms(2) by (auto simp: OsSemaphore_Give_def prog_defs split: outcome.splits)
  show ?thesis
  proof (cases "e = POS_OK")
    case True
    let ?s1 = "os_goto t Give_Dec (s\<lparr>os_port := w\<rparr>)"
    have "os_work sem_give sem_take t s ?s1" using give_returns_ok [OF assms(1)] p(1) True by blast
    moreover have "os_work sem_give sem_take t ?s1 (os_goto t At_Rest (os_add_depth (- 1) ?s1))" by (rule give_dec) simp
    moreover have "os_goto t At_Rest (os_add_depth (- 1) ?s1) = os_goto t At_Rest (s\<lparr>os_sem := x, os_port := w\<rparr>)"
      using True p(2) by (simp add: os_goto_def os_add_depth_def)
    ultimately show ?thesis by (metis converse_rtranclp_into_rtranclp r_into_rtranclp)
  next
    case False
    then show ?thesis using give_returns_error [where sem_give = sem_give, OF assms(1) p(1) False] p(2) by (simp add: os_goto_def r_into_rtranclp)
  qed
qed

section \<open>Properties\<close>

text \<open>For the examples: thread 1 waits in \<open>Take\<close>, thread 2 has given but not yet counted.\<close>

lemma os_reach_example:
  "os_reach (pos_sem_give_posix ref_sem_api) (pos_sem_take_posix ref_sem_api) (\<lambda>(s, k). rs_count k (ps_lock s)) 9 {1, 2 :: nat}
     (sem_world 0) \<lparr>os_sem = \<lparr>take_depth = 0\<rparr>, os_port = sem_world 1,
       os_pcs = (\<lambda>_. At_Rest)(1 := Take_Call POS_TIME_FOREVER_posix, 2 := Give_Dec)\<rparr>"
proof -
  let ?R = "os_reach (pos_sem_give_posix ref_sem_api) (pos_sem_take_posix ref_sem_api) (\<lambda>(s, k). rs_count k (ps_lock s)) 9
     {1, 2 :: nat} (sem_world 0)"
  let ?s0 = "\<lparr>os_sem = \<lparr>take_depth = 0\<rparr>, os_port = sem_world 0, os_pcs = \<lambda>_. At_Rest\<rparr>"
  let ?s2 = "os_goto 2 Give_Call (os_goto 1 (Take_Call POS_TIME_FOREVER_posix) ?s0)"
  have "?R ?s2"
    by (rule os_enter_give [OF os_enter_take [OF os_start]])
      (simp_all add: os_count_def os_goto_def sem_world_def)
  moreover have "pos_sem_give_posix ref_sem_api (os_port ?s2) = Returns POS_OK (sem_world 1)"
    by (simp add: pos_sem_give_posix_def ref_sem_simps sem_world_def fun_eq_iff)
  then have "os_work (pos_sem_give_posix ref_sem_api) (pos_sem_take_posix ref_sem_api) 2 ?s2
      (os_goto 2 Give_Dec (?s2\<lparr>os_port := sem_world 1\<rparr>))"
    by (intro give_returns_ok) simp_all
  ultimately show ?thesis using os_step by (fastforce simp: os_goto_def)
qed

lemma sem_world_ready:
  "case sem_world n of (s, k) \<Rightarrow> s = \<lparr>ps_lock = 0\<rparr> \<and> rs_live_ok k (ps_lock s)" if "n \<le> SEM_VALUE_MAX"
  using that by (simp add: sem_world_def rs_live_ok_def)

text \<open>C22. \<open>OsSemaphore\<close> used by any number of threads at once, over any semaphore that meets the OSAL contract, where no thread
  enters \<open>Give\<close> when the tokens and the gives under way have reached the limit: in every
  reachable state the tokens and the counter \<open>take_depth_\<close> add up to the tokens of the beginning, corrected by the threads that have
  returned from the port and not yet counted.  When all threads are outside, the destructor returns and leaves the tokens of the beginning if
  no more were given than taken; otherwise it leaves the tokens as they are, more than those of the beginning.\<close>

theorem os_sem_threads_conserve:
  assumes "osal_sem sem_give sem_take tokens limit ready" and "ready w0" and "tokens w0 \<le> lim" and "lim \<le> limit"
    and "finite T" and "lim + card T < 2 ^ 31" and "os_reach sem_give sem_take tokens lim T w0 s"
  shows "sint (take_depth (os_sem s)) + int (tokens (os_port s)) + int (os_count T pc_inc s) =
           int (tokens w0) + int (os_count T pc_dec s) \<and>
         ((\<forall>t. os_pcs s t = At_Rest) \<longrightarrow>
           (\<exists>x w. OsSemaphore_delete (Suc (nat (sint (take_depth (os_sem s))))) sem_give (os_sem s, os_port s) =
              Returns () (x, w) \<and> tokens w = max (tokens w0) (tokens (os_port s))))"
proof -
  note sem = osal_sem.below_limit [OF assms(1,4)]
  note inv = osal_sem.os_reach_inv [OF sem assms(7,2,3,5)]
  show ?thesis
    using osal_sem.os_depth [OF sem inv assms(5,3,6)] osal_sem.os_quiet_delete [OF sem inv assms(5,3,6)] by blast
qed

theorem os_sem_threads_conserve_witness:
  "\<exists>s. os_reach (pos_sem_give_posix ref_sem_api) (pos_sem_take_posix ref_sem_api) (\<lambda>(s, k). rs_count k (ps_lock s)) 9
         {1, 2 :: nat} (sem_world 0) s \<and> os_pcs s 2 = Give_Dec \<and> os_count {1, 2} pc_dec s = 1 \<and>
       sint (take_depth (os_sem s)) + int (rs_count (snd (os_port s)) 0) = 1"
proof -
  have "9 \<le> SEM_VALUE_MAX" by (simp add: SEM_VALUE_MAX_def)
  from os_sem_threads_conserve [OF ref_posix_sem.posix_sem.osal_sem_axioms sem_world_ready _ this _ _ os_reach_example]
  show ?thesis using os_reach_example by (intro exI conjI) (assumption, simp_all add: os_count_def sem_world_def)
qed

end
