(* ===== verification/Os_Task_Zephyr.thy ===== *)
theory Os_Task_Zephyr
  imports Os_Wrappers Zephyr_Task
begin

text \<open>
  \<open>OsTask\<close> over the Zephyr port.  The functions of the port free a stack that they do not own when a
  task is removed twice; the flag of the class rules that out.  A program may call \<open>Start\<close> and \<open>Remove\<close>
  on any objects in any order here.
\<close>

section \<open>Definitions\<close>

text \<open>A member of object \<open>i\<close> of a table of \<open>OsTask\<close> objects, each with its \<open>task_\<close>.\<close>

definition on_task ::
    "'i \<Rightarrow> ('r, OsTask \<times> ('h, 'k) ztask_world) prog \<Rightarrow>
     ('r, ('i \<Rightarrow> OsTask) \<times> ('i \<Rightarrow> 'h pos_task_zephyr) \<times> bool list \<times> 'k) prog" where
  "on_task i m w =
     (case w of (os, ts, rest) \<Rightarrow>
       (case m (os i, ts i, rest) of
          Stops s \<Rightarrow> Stops s
        | Returns r (o', t', rest') \<Rightarrow> Returns r (os(i := o'), ts(i := t'), rest')))"

inductive ot_reach ::
    "('h, 'f, 'p, 'k) zephyr_task_api \<Rightarrow> (nat \<Rightarrow> OsTask) \<times> (nat \<Rightarrow> 'h pos_task_zephyr) \<times> bool list \<times> 'k \<Rightarrow> bool"
  for api :: "('h, 'f, 'p, 'k) zephyr_task_api" where
  ot_new: "ot_reach api (\<lambda>_. OsTask_new, ts, replicate MAX_TASKS False, k)"
| ot_start: "ot_reach api w \<Longrightarrow>
    on_task i (OsTask_Start (pos_task_init_zephyr api name func arg prio stack_size)) w = Returns e w' \<Longrightarrow>
    ot_reach api w'"
| ot_remove: "ot_reach api w \<Longrightarrow> on_task i (OsTask_Remove (pos_task_remove_zephyr api)) w = Returns e w' \<Longrightarrow>
    ot_reach api w'"

definition started :: "(nat \<Rightarrow> OsTask) \<Rightarrow> nat set" where
  "started os = {i. inited (os i)}"

definition ot_inv :: "(nat \<Rightarrow> OsTask) \<times> (nat \<Rightarrow> 'h pos_task_zephyr) \<times> bool list \<times> 'k \<Rightarrow> bool" where
  "ot_inv w \<longleftrightarrow>
     (case w of (os, ts, used, k) \<Rightarrow>
        length used = MAX_TASKS \<and> inj_on (stack_of ts) (started os) \<and> stack_of ts ` started os \<subseteq> used_set used)"

text \<open>The kernel documents that \<open>k_thread_create\<close> returns the new thread.\<close>

definition creates_threads :: "('h, 'f, 'p, 'k) zephyr_task_api \<Rightarrow> bool" where
  "creates_threads api \<longleftrightarrow> (\<forall>s n f a p k. returned (k_thread_create api s n f a p k) \<noteq> Some None)"

text \<open>The same object started again and again.\<close>

fun starts :: "nat \<Rightarrow> (pos_error, (nat \<Rightarrow> OsTask) \<times> (nat \<Rightarrow> nat pos_task_zephyr) \<times> bool list \<times> nat) prog" where
  "starts 0 = on_task 0 (OsTask_Start (pos_task_init_zephyr ref_zephyr_task None (Some 1) None 1 512))"
| "starts (Suc n) =
     c_then (on_task 0 (OsTask_Start (pos_task_init_zephyr ref_zephyr_task None (Some 1) None 1 512))) (starts n)"

section \<open>The members\<close>

lemma on_task_returns:
  assumes "on_task i m (os, ts, rest) = Returns r w'"
  obtains o' t' rest' where "m (os i, ts i, rest) = Returns r (o', t', rest')"
    and "w' = (os(i := o'), ts(i := t'), rest')"
  using assms by (auto simp: on_task_def split: outcome.splits prod.splits)

lemma creates_threads_Some: "creates_threads api \<Longrightarrow> k_thread_create api s n f a p k \<noteq> Returns None k'"
  by (metis creates_threads_def returned_simps(1))

lemma OsTask_Start_returns:
  assumes "creates_threads api"
    and "OsTask_Start (pos_task_init_zephyr api name func arg prio stack_size) (ob, t, used, k) =
           Returns e (ob', t', used', k')"
  shows "if e = POS_OK then inited ob' \<and>
           (\<exists>s. find_unused used 0 = Some s \<and> zt_stack t' = Some s \<and> used' = used[s := True])
         else ob' = ob \<and> t' = t \<and> used' = used"
  using assms(2)
  by (auto simp: creates_threads_Some [OF assms(1)] OsTask_Start_def pos_task_init_zephyr_def set_used_def prog_defs
      split: if_splits option.splits outcome.splits)

lemma OsTask_Remove_returns:
  assumes "OsTask_Remove (pos_task_remove_zephyr api) (ob, t, used, k) = Returns e (ob', t', used', k')"
    and "length used = MAX_TASKS"
  shows "t' = t \<and> \<not> inited ob' \<and>
         used' = (case zt_stack t of Some s \<Rightarrow> if inited ob then used[s := False] else used | None \<Rightarrow> used)"
  using assms
  by (auto simp: OsTask_Remove_def pos_task_remove_zephyr_def set_used_def prog_defs list_update_beyond
      split: if_splits option.splits outcome.splits)

section \<open>The invariant\<close>

lemma ot_inv_start:
  assumes "creates_threads api" and inv: "ot_inv w"
    and r: "on_task i (OsTask_Start (pos_task_init_zephyr api name func arg prio stack_size)) w = Returns e w'"
  shows "ot_inv w'"
proof -
  obtain os ts used k where w: "w = (os, ts, used, k)" by (cases w) auto
  obtain ob' t' used' k' where m: "OsTask_Start (pos_task_init_zephyr api name func arg prio stack_size)
      (os i, ts i, used, k) = Returns e (ob', t', used', k')" and w': "w' = (os(i := ob'), ts(i := t'), used', k')"
    using on_task_returns [of i _ os ts "(used, k)" e w'] r w by (metis prod.exhaust_sel)
  have len: "length used = MAX_TASKS" and inj: "inj_on (stack_of ts) (started os)"
      and sub: "stack_of ts ` started os \<subseteq> used_set used"
    using inv by (auto simp: ot_inv_def w)
  show ?thesis
  proof (cases "e = POS_OK")
    case True
    then obtain s where s: "find_unused used 0 = Some s" "zt_stack t' = Some s" "used' = used[s := True]" "inited ob'"
      using OsTask_Start_returns [OF assms(1) m] by auto
    then have "s < length used" "s \<notin> used_set used" using find_unused_Some [OF s(1)] by (auto simp: used_set_def)
    moreover have "stack_of (ts(i := t')) j = (if j = i then s else stack_of ts j)" for j
      using s(2) by (simp add: stack_of_def)
    moreover have "started (os(i := ob')) = insert i (started os)" using s(4) by (auto simp: started_def)
    ultimately show ?thesis
      using inj sub s(3) len unfolding ot_inv_def w' by (auto simp: used_set_update inj_on_def image_subset_iff)
  next
    case False
    then show ?thesis using OsTask_Start_returns [OF assms(1) m] inv by (simp add: ot_inv_def w w')
  qed
qed

lemma ot_inv_remove:
  assumes inv: "ot_inv w" and r: "on_task i (OsTask_Remove (pos_task_remove_zephyr api)) w = Returns e w'"
  shows "ot_inv w'"
proof -
  obtain os ts used k where w: "w = (os, ts, used, k)" by (cases w) auto
  obtain ob' t' used' k' where m: "OsTask_Remove (pos_task_remove_zephyr api) (os i, ts i, used, k) =
      Returns e (ob', t', used', k')" and w': "w' = (os(i := ob'), ts(i := t'), used', k')"
    using on_task_returns [of i _ os ts "(used, k)" e w'] r w by (metis prod.exhaust_sel)
  have len: "length used = MAX_TASKS" and inj: "inj_on (stack_of ts) (started os)"
      and sub: "stack_of ts ` started os \<subseteq> used_set used"
    using inv by (auto simp: ot_inv_def w)
  have rem: "t' = ts i" "\<not> inited ob'"
      "used' = (case zt_stack (ts i) of Some s \<Rightarrow> if inited (os i) then used[s := False] else used | None \<Rightarrow> used)"
    using OsTask_Remove_returns [OF m len] by auto
  then have st: "started (os(i := ob')) = started os - {i}" "ts(i := t') = ts" by (auto simp: started_def)
  have "stack_of ts ` (started os - {i}) \<subseteq> used_set used'"
  proof (cases "inited (os i)")
    case True
    then have "i \<in> started os" by (simp add: started_def)
    then have "stack_of ts i \<in> used_set used" using sub by auto
    then obtain s where s: "zt_stack (ts i) = Some s" "s < length used" "stack_of ts i = s"
      using len by (auto simp: stack_of_def used_set_def split: option.splits)
    then have "used_set used' = used_set used - {stack_of ts i}" using rem(3) True by (simp add: used_set_update)
    then show ?thesis using sub inj \<open>i \<in> started os\<close> by (auto simp: inj_on_def)
  next
    case False
    then show ?thesis using rem(3) sub by (auto split: option.splits)
  qed
  moreover have "length used' = MAX_TASKS" using rem(3) len by (simp split: option.splits)
  ultimately show ?thesis using inj st by (auto simp: ot_inv_def w' intro: inj_on_subset)
qed

lemma ot_reach_inv:
  assumes "ot_reach api w" and "creates_threads api"
  shows "ot_inv w"
  using assms(1)
proof (induction rule: ot_reach.induct)
  case (ot_new ts k)
  then show ?case by (simp add: ot_inv_def started_def OsTask_new_def)
next
  case (ot_start w i name func arg prio stack_size e w')
  then show ?case using ot_inv_start [OF assms(2)] by blast
next
  case (ot_remove w i e w')
  then show ?case using ot_inv_remove by blast
qed

section \<open>Properties\<close>

text \<open>C26. \<open>OsTask\<close> keeps Zephyr tasks apart whatever its clients do: in every state reached by any sequence of
  \<open>Start\<close> and \<open>Remove\<close> calls on any objects, repeated and out of order, the started objects have
  pairwise different stacks, all of them marked as used, so that no new task gets one of them; and at most
  ten objects are started.\<close>

theorem os_task_zephyr_stacks:
  assumes "ot_reach api (os, ts, used, k)" and "creates_threads api"
  shows "inj_on (stack_of ts) {i. inited (os i)} \<and>
         (\<forall>i. inited (os i) \<longrightarrow> stack_of ts i < MAX_TASKS \<and> used ! stack_of ts i \<and>
            find_unused used 0 \<noteq> Some (stack_of ts i)) \<and>
         card {i. inited (os i)} \<le> MAX_TASKS"
proof -
  have "ot_inv (os, ts, used, k)" by (rule ot_reach_inv [OF assms])
  then have i: "length used = MAX_TASKS" "inj_on (stack_of ts) {i. inited (os i)}"
      "stack_of ts ` {i. inited (os i)} \<subseteq> used_set used"
    by (simp_all add: ot_inv_def started_def)
  have u: "used_set used \<subseteq> {..<MAX_TASKS}" using i(1) by (auto simp: used_set_def)
  have "card {i. inited (os i)} \<le> card {..<MAX_TASKS}"
    using i(2,3) u by (intro card_inj_on_le [of "stack_of ts"]) auto
  moreover have "stack_of ts j < MAX_TASKS \<and> used ! stack_of ts j \<and> find_unused used 0 \<noteq> Some (stack_of ts j)"
    if "inited (os j)" for j
    using that i(1,3) find_unused_Some [of used 0 "stack_of ts j"] by (auto simp: used_set_def)
  ultimately show ?thesis using i(2) by simp
qed

lemma ref_Start_step:
  "on_task i (OsTask_Start (pos_task_init_zephyr ref_zephyr_task name func arg prio 512)) (os, ts, used, k) =
     (case find_unused used 0 of
        None \<Rightarrow> Returns POS_ENOMEM (os, ts, used, k)
      | Some s \<Rightarrow> Returns POS_OK (os(i := (os i)\<lparr>inited := True\<rparr>),
          ts(i := (ts i)\<lparr>zt_stack := Some s, zt_tid := Some k\<rparr>), used[s := True], Suc k))"
  by (simp add: on_task_def OsTask_Start_def pos_task_init_zephyr_def set_used_def prog_defs ref_zephyr_task_def
      STACK_SIZE_def split: option.split)

lemma ref_Remove_step:
  "on_task i (OsTask_Remove (pos_task_remove_zephyr ref_zephyr_task)) (os, ts, used, k) =
     (if inited (os i) then Returns POS_OK (os(i := (os i)\<lparr>inited := False\<rparr>), ts, case zt_stack (ts i) of
       None \<Rightarrow> used | Some s \<Rightarrow> if s < MAX_TASKS then used[s := False] else used, k)
      else Returns POS_ERROR (os, ts, used, k))"
  by (simp add: on_task_def OsTask_Remove_def pos_task_remove_zephyr_def set_used_def prog_defs ref_zephyr_task_def
      split: option.split)

text \<open>Object 3 is started, removed twice, and object 4 gets its stack.\<close>

lemma ot_example:
  "\<exists>os ts used k. ot_reach ref_zephyr_task (os, ts, used, k) \<and> inited (os 4) \<and> \<not> inited (os 3) \<and> stack_of ts 4 = 0"
proof -
  let ?s = "\<lambda>i :: nat. on_task i (OsTask_Start (pos_task_init_zephyr ref_zephyr_task None (Some 1) None 1 512))"
  let ?r = "on_task (3 :: nat) (OsTask_Remove (pos_task_remove_zephyr ref_zephyr_task))"
  have m: "0 < MAX_TASKS" by (simp add: MAX_TASKS_def)
  obtain w1 where w1: "?s 3 (\<lambda>_. OsTask_new, \<lambda>_. \<lparr>zt_tid = None, zt_stack = None\<rparr>, replicate MAX_TASKS False, 0) =
      Returns POS_OK w1"
    by (simp add: ref_Start_step ten_unused)
  obtain w2 where w2: "?r w1 = Returns POS_OK w2" using w1 m by (auto simp: ref_Start_step ref_Remove_step ten_unused)
  obtain w3 where w3: "?r w2 = Returns POS_ERROR w3"
    using w1 w2 m by (auto simp: ref_Start_step ref_Remove_step ten_unused)
  obtain os ts used k where w4: "?s 4 w3 = Returns POS_OK (os, ts, used, k)" "inited (os 4)" "\<not> inited (os 3)"
      "stack_of ts 4 = 0"
    using w1 w2 w3 m by (auto simp: ref_Start_step ref_Remove_step ten_unused stack_of_def OsTask_new_def)
  have "ot_reach ref_zephyr_task (os, ts, used, k)"
    by (rule ot_start [OF ot_remove [OF ot_remove [OF ot_start [OF ot_new w1] w2] w3] w4(1)])
  then show ?thesis using w4 by blast
qed

lemma ref_creates_threads: "creates_threads ref_zephyr_task"
  by (simp add: creates_threads_def ref_zephyr_task_def)

theorem os_task_zephyr_stacks_witness:
  "\<exists>os ts used k. ot_reach ref_zephyr_task (os, ts, used, k) \<and> inited (os 4) \<and> stack_of ts 4 = 0 \<and>
     find_unused used 0 \<noteq> Some 0"
proof -
  obtain os ts used k where "ot_reach ref_zephyr_task (os, ts, used, k)" "inited (os 4)" "stack_of ts 4 = 0"
    using ot_example by blast
  moreover from this have "find_unused used 0 \<noteq> Some 0"
    using os_task_zephyr_stacks [OF _ ref_creates_threads, of os ts used k] by metis
  ultimately show ?thesis by blast
qed

text \<open>A second \<open>Start\<close> without \<open>Remove\<close> takes another stack and loses the first: ten of them exhaust the pool for
  one object.\<close>

lemma os_task_start_leaks:
  "returned (starts 10 (\<lambda>_. OsTask_new, \<lambda>_. \<lparr>zt_tid = None, zt_stack = None\<rparr>, replicate MAX_TASKS False, 0)) =
     Some POS_ENOMEM"
  by (simp add: eval_nat_numeral c_then_def c_bind_def ref_Start_step ten_unused)

end
