(* ===== verification/Posix_Heap.thy ===== *)
theory Posix_Heap
  imports Posix_Queue
begin

text \<open>
  The memory of the POSIX queues.  \<open>Posix_Queue\<close> treats the ring of a queue as a value inside the struct;
  in the program the struct holds a pointer to a \<open>RingPthread\<close> object on the heap, and the object a
  pointer to its byte array.  Here both are cells of an explicit store, with the constructors and
  destructors of \<^verbatim>\<open>OsRing.h\<close> and \<^verbatim>\<open>RingPthread.h\<close> and the functions of \<^verbatim>\<open>os_queue.cc\<close> over it, for any
  number of queues.  Access through a dangling pointer and a second \<open>delete\<close> are undefined behaviour.
  The allocator is a parameter; it may hand out freed addresses again.
\<close>

section \<open>Definitions\<close>

subsection \<open>The store\<close>

record ring_obj =
  ro_buffer :: "nat option"
  ro_itemSize :: u16
  ro_itemCount :: u16
  ro_readIndex :: u16
  ro_writeIndex :: u16
  ro_mutexAttr :: "bool option"
  ro_mutex :: bool
  ro_condv :: bool

record store =
  rings :: "nat \<Rightarrow> ring_obj option"
  buffers :: "nat \<Rightarrow> bytes option"

text \<open>
  \<open>place_ring\<close> and \<open>place_buffer\<close> choose the address of a new object or array, given the addresses in use;
  \<open>None\<close> when there is no memory.
\<close>

record allocator =
  place_ring :: "(nat \<Rightarrow> bool) \<Rightarrow> nat option"
  place_buffer :: "(nat \<Rightarrow> bool) \<Rightarrow> nat \<Rightarrow> nat option"

definition in_use :: "(nat \<Rightarrow> 'a option) \<Rightarrow> nat \<Rightarrow> bool" where
  "in_use m a \<longleftrightarrow> m a \<noteq> None"

definition places_fresh :: "allocator \<Rightarrow> bool" where
  "places_fresh al \<longleftrightarrow>
     (\<forall>use p. place_ring al use = Some p \<longrightarrow> \<not> use p) \<and>
     (\<forall>use n p. place_buffer al use n = Some p \<longrightarrow> \<not> use p)"

definition new_buffer :: "allocator \<Rightarrow> (nat \<Rightarrow> u8) \<Rightarrow> nat \<Rightarrow> (nat, store) prog" where
  "new_buffer al junk n h =
     (case place_buffer al (in_use (buffers h)) n of
        None \<Rightarrow> Stops Uncaught_Exception
      | Some b \<Rightarrow> Returns b (h\<lparr>buffers := (buffers h)(b := Some (map junk [0..<n]))\<rparr>))"

definition delete_buffer :: "nat \<Rightarrow> (unit, store) prog" where
  "delete_buffer b h =
     (if in_use (buffers h) b then Returns () (h\<lparr>buffers := (buffers h)(b := None)\<rparr>)
      else Stops Undefined_Behaviour)"

subsection \<open>Constructors and destructors\<close>

definition OsRing_construct :: "allocator \<Rightarrow> (nat \<Rightarrow> u8) \<Rightarrow> u16 \<Rightarrow> u16 \<Rightarrow> (ring_obj, store) prog" where
  "OsRing_construct al junk sz cnt =
     c_then (c_assert (ring_count_ok cnt))
       (case c_int_mul (uint sz) (uint cnt) of
          None \<Rightarrow> c_stop Undefined_Behaviour
        | Some n \<Rightarrow>
            c_bind (new_buffer al junk (nat n)) (\<lambda>b.
            c_return \<lparr>ro_buffer = Some b, ro_itemSize = sz, ro_itemCount = cnt,
                      ro_readIndex = 0, ro_writeIndex = 0, ro_mutexAttr = None, ro_mutex = False, ro_condv = False\<rparr>))"

definition OsRing_delete :: "ring_obj \<Rightarrow> (unit, store) prog" where
  "OsRing_delete ob = (case ro_buffer ob of None \<Rightarrow> c_return () | Some b \<Rightarrow> delete_buffer b)"

text \<open>
  The constructor of \<open>RingPthread\<close> initialises the attribute object (\<open>Some False\<close>), sets its type to recursive (\<open>Some True\<close>),
  then initialises the mutex and the condition variable.
\<close>

definition RingPthread_construct :: "allocator \<Rightarrow> (nat \<Rightarrow> u8) \<Rightarrow> u16 \<Rightarrow> u16 \<Rightarrow> (ring_obj, store) prog" where
  "RingPthread_construct al junk sz cnt =
     c_bind (OsRing_construct al junk sz cnt) (\<lambda>ob.
     c_return (ob\<lparr>ro_mutexAttr := Some False, ro_mutexAttr := Some True, ro_mutex := True, ro_condv := True\<rparr>))"

text \<open>\<open>~RingPthread\<close> destroys the mutex and the condition variable, not the attribute object; then the destructor of the base class runs.\<close>

definition RingPthread_delete :: "ring_obj \<Rightarrow> (unit, store) prog" where
  "RingPthread_delete ob =
     c_then (if ro_mutex ob then c_return () else c_stop Undefined_Behaviour)
     (c_then (if ro_condv ob then c_return () else c_stop Undefined_Behaviour)
       (OsRing_delete (ob\<lparr>ro_mutex := False, ro_condv := False\<rparr>)))"

text \<open>The expressions \<open>new ring_t(sz, cnt)\<close> and \<open>delete q\<close>.\<close>

definition new_ring :: "allocator \<Rightarrow> (nat \<Rightarrow> u8) \<Rightarrow> u16 \<Rightarrow> u16 \<Rightarrow> (nat, store) prog" where
  "new_ring al junk sz cnt h =
     (case place_ring al (in_use (rings h)) of
        None \<Rightarrow> Stops Uncaught_Exception
      | Some p \<Rightarrow>
          c_bind (RingPthread_construct al junk sz cnt) (\<lambda>ob.
          c_then (c_modify (\<lambda>h. h\<lparr>rings := (rings h)(p := Some ob)\<rparr>)) (c_return p)) h)"

definition delete_ring :: "nat \<Rightarrow> (unit, store) prog" where
  "delete_ring p h =
     (case rings h p of
        None \<Rightarrow> Stops Undefined_Behaviour
      | Some ob \<Rightarrow>
          c_then (RingPthread_delete ob) (c_modify (\<lambda>h. h\<lparr>rings := (rings h)(p := None)\<rparr>)) h)"

subsection \<open>Methods through a pointer\<close>

text \<open>The ring at an address, and the effect of a method on its fields and its array.\<close>

definition load :: "store \<Rightarrow> nat \<Rightarrow> OsRing option" where
  "load h p =
     Option.bind (rings h p) (\<lambda>ob.
     Option.bind (ro_buffer ob) (\<lambda>b.
     Option.bind (buffers h b) (\<lambda>bs.
       if ro_mutex ob \<and> ro_condv ob
       then Some \<lparr>ring_buffer = bs, itemSize = ro_itemSize ob, itemCount = ro_itemCount ob,
                  readIndex = ro_readIndex ob, writeIndex = ro_writeIndex ob\<rparr>
       else None)))"

definition save :: "nat \<Rightarrow> OsRing \<Rightarrow> store \<Rightarrow> store" where
  "save p r h =
     (case rings h p of
        None \<Rightarrow> h
      | Some ob \<Rightarrow>
          (case ro_buffer ob of
             None \<Rightarrow> h
           | Some b \<Rightarrow>
               h\<lparr>rings := (rings h)(p := Some (ob\<lparr>ro_itemSize := itemSize r, ro_itemCount := itemCount r,
                            ro_readIndex := readIndex r, ro_writeIndex := writeIndex r\<rparr>)),
                 buffers := (buffers h)(b := Some (ring_buffer r))\<rparr>))"

definition ring_method :: "nat option \<Rightarrow> ('a, OsRing) prog \<Rightarrow> ('a, store) prog" where
  "ring_method q m h =
     (case Option.bind q (load h) of
        None \<Rightarrow> Stops Undefined_Behaviour
      | Some r \<Rightarrow>
          (case m r of
             Stops s \<Rightarrow> Stops s
           | Returns a r' \<Rightarrow> Returns a (save (the q) r' h)))"

subsection \<open>The queue functions\<close>

record ('f, 'p) pos_queue_heap =
  ph_q :: "nat option"
  ph_sig_cb :: "'f option"
  ph_sig_arg :: "'p option"

text \<open>A program on the store, within the world of a queue function: the struct, the store and the rest \<open>'k\<close>.\<close>

definition on_store :: "('a, store) prog \<Rightarrow> ('a, 'o \<times> store \<times> 'k) prog" where
  "on_store m w =
     (case m (fst (snd w)) of
        Stops s \<Rightarrow> Stops s
      | Returns a h \<Rightarrow> Returns a (fst w, h, snd (snd w)))"

definition pos_queue_init_heap ::
    "allocator \<Rightarrow> (nat \<Rightarrow> u8) \<Rightarrow> 64 word \<Rightarrow> 64 word \<Rightarrow>
     (pos_error, ('f, 'p) pos_queue_heap \<times> store \<times> 'k) prog" where
  "pos_queue_init_heap al junk msg_size max_msgs =
     c_bind (on_store (new_ring al junk (ucast msg_size) (ucast max_msgs))) (\<lambda>q.
     c_then (upd_obj (\<lambda>msgq. msgq\<lparr>ph_q := Some q, ph_sig_cb := None, ph_sig_arg := None\<rparr>))
       (c_bind (get_obj ph_q) (\<lambda>q. c_return (if q \<noteq> None then POS_OK else POS_ENOMEM))))"

definition pos_queue_set_signal_cb_heap ::
    "'f option \<Rightarrow> 'p option \<Rightarrow> (unit, ('f, 'p) pos_queue_heap \<times> store \<times> 'k) prog" where
  "pos_queue_set_signal_cb_heap signal_cb data =
     upd_obj (\<lambda>msgq. msgq\<lparr>ph_sig_cb := signal_cb, ph_sig_arg := data\<rparr>)"

definition through :: "('a, OsRing) prog \<Rightarrow> ('a, ('f, 'p) pos_queue_heap \<times> store \<times> 'k) prog" where
  "through m = c_bind (get_obj ph_q) (\<lambda>q. on_store (ring_method q m))"

definition pos_queue_is_empty_heap :: "(bool, ('f, 'p) pos_queue_heap \<times> store \<times> 'k) prog" where
  "pos_queue_is_empty_heap = c_bind (through (c_gets RingPthread_size)) (\<lambda>n. c_return (n = 0))"

definition pos_queue_put_heap ::
    "('f \<Rightarrow> 'p option \<Rightarrow> (unit, 'k) prog) \<Rightarrow> bytes \<Rightarrow> (pos_error, ('f, 'p) pos_queue_heap \<times> store \<times> 'k) prog" where
  "pos_queue_put_heap run_cb data =
     c_then (through (RingPthread_put data))
       (c_bind (get_obj (\<lambda>msgq. (ph_sig_cb msgq, ph_sig_arg msgq))) (\<lambda>(sig_cb, sig_arg).
          case sig_cb of
            Some f \<Rightarrow> c_then (kcall (kcall (run_cb f sig_arg))) (c_return POS_OK)
          | None \<Rightarrow> c_return POS_OK))"

definition pos_queue_get_heap ::
    "bytes \<Rightarrow> pos_time \<Rightarrow> (pos_error \<times> bytes, ('f, 'p) pos_queue_heap \<times> store \<times> 'k) prog" where
  "pos_queue_get_heap data tmo =
     c_bind (through (RingPthread_get data tmo))
       (\<lambda>(success, data'). c_return (if success then POS_OK else POS_TIMEOUT, data'))"

definition pos_queue_deinit_heap :: "bool \<Rightarrow> (pos_error, ('f, 'p) pos_queue_heap \<times> store \<times> 'k) prog" where
  "pos_queue_deinit_heap msgq_null =
     (if msgq_null then c_return POS_OK
      else
        c_bind (get_obj ph_q) (\<lambda>q.
          case q of
            None \<Rightarrow> c_return POS_OK
          | Some p \<Rightarrow>
              c_then (on_store (delete_ring p))
              (c_then (upd_obj (\<lambda>msgq. msgq\<lparr>ph_q := None\<rparr>)) (c_return POS_OK))))"

subsection \<open>Programs with many queues\<close>

type_synonym ('f, 'p, 'k) queues = "(nat \<Rightarrow> ('f, 'p) pos_queue_heap) \<times> store \<times> 'k"

text \<open>
  The states that a program reaches from an empty store with null pointers, by any calls on any queues; a queue
  is initialised only while it is not.
\<close>

inductive ph_reach ::
    "allocator \<Rightarrow> ('f \<Rightarrow> 'p option \<Rightarrow> (unit, 'k) prog) \<Rightarrow> ('f, 'p, 'k) queues \<Rightarrow> bool"
  for al run_cb where
  ph_begin: "ph_reach al run_cb
     (\<lambda>_. \<lparr>ph_q = None, ph_sig_cb = None, ph_sig_arg = None\<rparr>, \<lparr>rings = \<lambda>_. None, buffers = \<lambda>_. None\<rparr>, k)"
| ph_init: "ph_reach al run_cb w \<Longrightarrow> ph_q (fst w i) = None \<Longrightarrow>
     on_obj i (pos_queue_init_heap al junk msg_size max_msgs) w = Returns e w' \<Longrightarrow> ph_reach al run_cb w'"
| ph_set_cb: "ph_reach al run_cb w \<Longrightarrow>
     on_obj i (pos_queue_set_signal_cb_heap cb data) w = Returns u w' \<Longrightarrow> ph_reach al run_cb w'"
| ph_is_empty: "ph_reach al run_cb w \<Longrightarrow>
     on_obj i pos_queue_is_empty_heap w = Returns b w' \<Longrightarrow> ph_reach al run_cb w'"
| ph_put: "ph_reach al run_cb w \<Longrightarrow>
     on_obj i (pos_queue_put_heap run_cb x) w = Returns e w' \<Longrightarrow> ph_reach al run_cb w'"
| ph_get: "ph_reach al run_cb w \<Longrightarrow>
     on_obj i (pos_queue_get_heap out tmo) w = Returns r w' \<Longrightarrow> ph_reach al run_cb w'"
| ph_deinit: "ph_reach al run_cb w \<Longrightarrow>
     on_obj i (pos_queue_deinit_heap msgq_null) w = Returns e w' \<Longrightarrow> ph_reach al run_cb w'"

subsection \<open>What the store stands for\<close>

definition abs_queue :: "store \<Rightarrow> ('f, 'p) pos_queue_heap \<Rightarrow> ('f, 'p) pos_queue_posix" where
  "abs_queue h s =
     \<lparr>pq_ring = Option.bind (ph_q s) (load h), pq_sig_cb = ph_sig_cb s, pq_sig_arg = ph_sig_arg s\<rparr>"

definition abs_world :: "('f, 'p, 'k) queues \<Rightarrow> (nat \<Rightarrow> ('f, 'p) pos_queue_posix) \<times> 'k" where
  "abs_world w = (case w of (qs, h, k) \<Rightarrow> (\<lambda>i. abs_queue h (qs i), k))"

fun abs_outcome :: "('a, ('f, 'p, 'k) queues) outcome \<Rightarrow> ('a, (nat \<Rightarrow> ('f, 'p) pos_queue_posix) \<times> 'k) outcome" where
  "abs_outcome (Returns a w) = Returns a (abs_world w)"
| "abs_outcome (Stops s) = Stops s"

text \<open>
  The invariant: every queue pointer leads to a live ring with its array, no two queues share a ring and no two
  rings an array, and nothing else is allocated.
\<close>

definition buffer_of :: "store \<Rightarrow> nat \<Rightarrow> nat option" where
  "buffer_of h p = Option.bind (rings h p) ro_buffer"

definition store_ok :: "(nat \<Rightarrow> ('f, 'p) pos_queue_heap) \<Rightarrow> store \<Rightarrow> bool" where
  "store_ok qs h \<longleftrightarrow>
     (\<forall>i p. ph_q (qs i) = Some p \<longrightarrow> load h p \<noteq> None) \<and>
     (\<forall>i j p. ph_q (qs i) = Some p \<and> ph_q (qs j) = Some p \<longrightarrow> i = j) \<and>
     (\<forall>p p' b. buffer_of h p = Some b \<and> buffer_of h p' = Some b \<longrightarrow> p = p') \<and>
     (\<forall>p. rings h p \<noteq> None \<longrightarrow> (\<exists>i. ph_q (qs i) = Some p)) \<and>
     (\<forall>b. buffers h b \<noteq> None \<longrightarrow> (\<exists>p. buffer_of h p = Some b))"

text \<open>One call on one queue: same outcome as in the value model, and the store stays well formed.\<close>

definition refines ::
    "nat \<Rightarrow> ('a, ('f, 'p) pos_queue_heap \<times> store \<times> 'k) prog \<Rightarrow> ('a, ('f, 'p) pos_queue_posix \<times> 'k) prog \<Rightarrow>
     ('f, 'p, 'k) queues \<Rightarrow> bool" where
  "refines i m v w \<longleftrightarrow>
     abs_outcome (on_obj i m w) = on_obj i v (abs_world w) \<and>
     (\<forall>a w'. on_obj i m w = Returns a w' \<longrightarrow> store_ok (fst w') (fst (snd w')))"

text \<open>The value model of \<open>pos_queue_deinit\<close>, as a program.\<close>

definition deinit_prog :: "(pos_error, ('f, 'p) pos_queue_posix \<times> 'k) prog" where
  "deinit_prog w = (case pos_queue_deinit_posix (Some (fst w)) of (e, q') \<Rightarrow> Returns e (the q', snd w))"

text \<open>An allocator for examples, with two places of each kind.\<close>

definition ref_allocator :: allocator where
  "ref_allocator =
     \<lparr>place_ring = (\<lambda>use. if \<not> use 0 then Some 0 else if \<not> use 1 then Some 1 else None),
      place_buffer = (\<lambda>use n. if \<not> use 0 then Some 0 else if \<not> use 1 then Some 1 else None)\<rparr>"

section \<open>Loading and saving\<close>

lemma load_Some:
  "load h p = Some r \<longleftrightarrow>
     (\<exists>ob b bs. rings h p = Some ob \<and> ro_buffer ob = Some b \<and> buffers h b = Some bs \<and> ro_mutex ob \<and> ro_condv ob \<and>
        r = \<lparr>ring_buffer = bs, itemSize = ro_itemSize ob, itemCount = ro_itemCount ob,
             readIndex = ro_readIndex ob, writeIndex = ro_writeIndex ob\<rparr>)"
  by (auto simp: load_def split: bind_splits if_splits)

lemma load_buffer: "load h p = Some r \<Longrightarrow> \<exists>b. buffer_of h p = Some b \<and> buffers h b \<noteq> None"
  by (auto simp: load_Some buffer_of_def)

lemma buffer_of_save [simp]: "buffer_of (save p r h) p' = buffer_of h p'"
  by (auto simp: buffer_of_def save_def split: option.splits)

lemma load_save:
  assumes "load h p = Some r0" and "\<And>p' b. buffer_of h p = Some b \<Longrightarrow> buffer_of h p' = Some b \<Longrightarrow> p = p'"
  shows "load (save p r h) p' = (if p' = p then Some r else load h p')"
proof -
  obtain ob b where ob: "rings h p = Some ob" "ro_buffer ob = Some b" "ro_mutex ob" "ro_condv ob"
    using assms(1) by (auto simp: load_Some)
  have "buffer_of h p = Some b" using ob by (simp add: buffer_of_def)
  then have "ro_buffer ob' \<noteq> Some b" if "rings h p' = Some ob'" "p' \<noteq> p" for ob'
    using assms(2) [of b p'] that by (auto simp: buffer_of_def)
  with ob show ?thesis by (auto simp: load_def save_def split: bind_splits)
qed

lemma in_use_save: "load h p = Some r0 \<Longrightarrow> in_use (rings (save p r h)) = in_use (rings h)"
  "load h p = Some r0 \<Longrightarrow> in_use (buffers (save p r h)) = in_use (buffers h)"
  by (auto simp: load_Some save_def in_use_def fun_eq_iff split: if_splits)

lemma store_okD:
  assumes "store_ok qs h"
  shows "ph_q (qs i) = Some p \<Longrightarrow> \<exists>r. load h p = Some r"
    and "ph_q (qs i) = Some p \<Longrightarrow> ph_q (qs j) = Some p \<Longrightarrow> i = j"
    and "buffer_of h p = Some b \<Longrightarrow> buffer_of h p' = Some b \<Longrightarrow> p = p'"
    and "rings h p = Some ob \<Longrightarrow> \<exists>i. ph_q (qs i) = Some p"
    and "buffers h b = Some bs \<Longrightarrow> \<exists>p. buffer_of h p = Some b"
  using assms unfolding store_ok_def by fast+

lemma store_ok_save:
  assumes "store_ok qs h" and "load h p = Some r0"
  shows "store_ok qs (save p r h)"
proof -
  have u: "rings (save p r h) a \<noteq> None \<longleftrightarrow> rings h a \<noteq> None" "buffers (save p r h) a \<noteq> None \<longleftrightarrow> buffers h a \<noteq> None" for a
    using in_use_save [OF assms(2), of r] by (simp_all add: in_use_def fun_eq_iff)
  have l: "load (save p r h) p' = (if p' = p then Some r else load h p')" for p'
    using load_save [OF assms(2)] store_okD(3) [OF assms(1)] by blast
  show ?thesis using assms(1) unfolding store_ok_def u buffer_of_save l by auto
qed

section \<open>The functions refine those of the value model\<close>

text \<open>A method call on queue \<open>i\<close> is the same call on its ring as a value, and touches no other queue.\<close>

lemma through_refines:
  assumes "store_ok qs h"
  shows "case on_ring m (abs_queue h (qs i), k) of
           Stops s \<Rightarrow> through m (qs i, h, k) = Stops s
         | Returns a w' \<Rightarrow> snd w' = k \<and>
             (\<exists>h'. through m (qs i, h, k) = Returns a (qs i, h', k) \<and> store_ok qs h' \<and> abs_queue h' (qs i) = fst w' \<and>
                   (\<forall>j. j \<noteq> i \<longrightarrow> abs_queue h' (qs j) = abs_queue h (qs j)))"
proof (cases "ph_q (qs i)")
  case None
  then show ?thesis by (simp add: on_ring_def abs_queue_def through_def ring_method_def on_store_def prog_defs)
next
  case (Some p)
  then obtain r where r: "load h p = Some r" using store_okD(1) [OF assms] by blast
  have l: "load (save p r' h) p' = (if p' = p then Some r' else load h p')" for r' p'
    using load_save [OF r] store_okD(3) [OF assms] by blast
  have o: "ph_q (qs j) \<noteq> Some p" if "j \<noteq> i" for j using store_okD(2) [OF assms Some] that by blast
  show ?thesis
  proof (cases "m r")
    case (Returns a r')
    have "abs_queue (save p r' h) (qs j) = abs_queue h (qs j)" if "j \<noteq> i" for j
      using o [OF that] by (cases "ph_q (qs j)") (simp_all add: abs_queue_def l)
    with Returns r show ?thesis
      by (simp add: Some on_ring_def through_def ring_method_def on_store_def abs_queue_def l
          store_ok_save [OF assms r] prog_defs)
  next
    case (Stops s)
    with r show ?thesis
      by (simp add: Some on_ring_def through_def ring_method_def on_store_def abs_queue_def prog_defs)
  qed
qed

lemma refinesI:
  assumes "case v (abs_queue h (qs i), k) of
           Stops s \<Rightarrow> m (qs i, h, k) = Stops s
         | Returns a w' \<Rightarrow>
             (\<exists>s h'. m (qs i, h, k) = Returns a (s, h', snd w') \<and> store_ok (qs(i := s)) h' \<and> abs_queue h' s = fst w' \<and>
                   (\<forall>j. j \<noteq> i \<longrightarrow> abs_queue h' (qs j) = abs_queue h (qs j)))"
  shows "refines i m v (qs, h, k)"
proof (cases "v (abs_queue h (qs i), k)")
  case (Returns a w')
  with assms obtain s h' where "m (qs i, h, k) = Returns a (s, h', snd w')" "store_ok (qs(i := s)) h'"
      "abs_queue h' s = fst w'" "\<forall>j. j \<noteq> i \<longrightarrow> abs_queue h' (qs j) = abs_queue h (qs j)"
    by auto
  with Returns show ?thesis
    by (cases w') (auto simp: refines_def on_obj_def abs_world_def intro!: ext)
next
  case (Stops s)
  with assms show ?thesis by (simp add: refines_def on_obj_def abs_world_def)
qed

lemma through_refinesE:
  assumes "store_ok qs h"
  obtains
    (stops) s where "on_ring m (abs_queue h (qs i), k) = Stops s" and "through m (qs i, h, k) = Stops s"
  | (returns) a aq h' where "on_ring m (abs_queue h (qs i), k) = Returns a (aq, k)"
      and "through m (qs i, h, k) = Returns a (qs i, h', k)" and "store_ok qs h'" and "abs_queue h' (qs i) = aq"
      and "\<And>j. j \<noteq> i \<Longrightarrow> abs_queue h' (qs j) = abs_queue h (qs j)"
  using through_refines [OF assms, where m = m and i = i and k = k]
  by (cases "on_ring m (abs_queue h (qs i), k)") auto

lemma is_empty_refines:
  assumes "store_ok qs h"
  shows "refines i pos_queue_is_empty_heap pos_queue_is_empty_posix (qs, h, k)"
  by (rule refinesI, rule through_refinesE [OF assms, where m = "c_gets RingPthread_size" and i = i and k = k])
    (auto simp: pos_queue_is_empty_heap_def pos_queue_is_empty_posix_def c_bind_def c_return_def)

lemma get_refines:
  assumes "store_ok qs h"
  shows "refines i (pos_queue_get_heap out tmo) (pos_queue_get_posix out tmo) (qs, h, k)"
  by (rule refinesI, rule through_refinesE [OF assms, where m = "RingPthread_get out tmo" and i = i and k = k])
    (auto simp: pos_queue_get_heap_def pos_queue_get_posix_def c_bind_def c_return_def split: prod.splits)

lemma put_refines:
  assumes "store_ok qs h"
  shows "refines i (pos_queue_put_heap run_cb x) (pos_queue_put_posix run_cb x) (qs, h, k)"
proof (rule refinesI, rule through_refinesE [OF assms, where m = "RingPthread_put x" and i = i and k = k], goal_cases)
  case (1 s)
  then show ?case by (simp add: pos_queue_put_heap_def pos_queue_put_posix_def c_then_def c_bind_def)
next
  case (2 a aq h')
  then have "pq_sig_cb aq = ph_sig_cb (qs i)" "pq_sig_arg aq = ph_sig_arg (qs i)" by (auto simp: abs_queue_def)
  with 2 show ?case
    by (auto simp: pos_queue_put_heap_def pos_queue_put_posix_def prog_defs split: option.splits outcome.splits)
qed

lemma set_cb_refines:
  assumes "store_ok qs h"
  shows "refines i (pos_queue_set_signal_cb_heap cb data) (pos_queue_set_signal_cb_posix cb data) (qs, h, k)"
  using assms
  by (intro refinesI)
    (auto simp: pos_queue_set_signal_cb_heap_def pos_queue_set_signal_cb_posix_def upd_obj_def abs_queue_def store_ok_def)

lemma refines_ReturnsI:
  assumes "v (abs_queue h (qs i), k) = Returns a (aq, k')" and "m (qs i, h, k) = Returns a (s, h', k')"
    and "store_ok (qs(i := s)) h'" and "abs_queue h' s = aq"
    and "\<And>j. j \<noteq> i \<Longrightarrow> abs_queue h' (qs j) = abs_queue h (qs j)"
  shows "refines i m v (qs, h, k)"
  by (rule refinesI) (use assms in auto)

text \<open>Deleting the ring of a queue.\<close>

lemma delete_ring_effect:
  assumes "store_ok qs h" and "ph_q (qs i) = Some p"
  obtains b where "buffer_of h p = Some b"
    and "delete_ring p h = Returns () (h\<lparr>rings := (rings h)(p := None), buffers := (buffers h)(b := None)\<rparr>)"
proof -
  obtain r where "load h p = Some r" using store_okD(1) [OF assms] by blast
  then obtain ob b where ob: "rings h p = Some ob" "ro_buffer ob = Some b" "buffers h b \<noteq> None" "ro_mutex ob" "ro_condv ob"
    by (auto simp: load_Some)
  then have "delete_ring p h = Returns () (h\<lparr>rings := (rings h)(p := None), buffers := (buffers h)(b := None)\<rparr>)"
    by (simp add: delete_ring_def RingPthread_delete_def OsRing_delete_def delete_buffer_def in_use_def prog_defs)
  with ob that [of b] show thesis by (simp add: buffer_of_def)
qed

lemma load_delete:
  assumes "store_ok qs h" and "buffer_of h p = Some b" and "p' \<noteq> p"
  shows "load (h\<lparr>rings := (rings h)(p := None), buffers := (buffers h)(b := None)\<rparr>) p' = load h p'"
proof -
  have "buffer_of h p' \<noteq> Some b" using store_okD(3) [OF assms(1,2)] assms(3) by blast
  with assms(3) show ?thesis by (auto simp: load_def buffer_of_def split: bind_splits)
qed

lemma store_ok_delete:
  assumes ok: "store_ok qs h" and i: "ph_q (qs i) = Some p" and b: "buffer_of h p = Some b"
  defines "h' \<equiv> h\<lparr>rings := (rings h)(p := None), buffers := (buffers h)(b := None)\<rparr>"
  shows "store_ok (qs(i := (qs i)\<lparr>ph_q := None\<rparr>)) h'"
proof -
  have bo: "buffer_of h' p' = (if p' = p then None else buffer_of h p')" for p'
    by (simp add: buffer_of_def h'_def)
  have o: "ph_q (qs j) \<noteq> Some p" if "j \<noteq> i" for j using store_okD(2) [OF ok i] that by blast
  show ?thesis
    unfolding store_ok_def bo
  proof (intro conjI allI impI, goal_cases)
    case (1 j p')
    then show ?case
      using o [of j] load_delete [OF ok b, of p'] store_okD(1) [OF ok, of j p'] by (auto simp: h'_def split: if_splits)
  next
    case (2 j j' p')
    then show ?case using store_okD(2) [OF ok, of j p' j'] by (auto split: if_splits)
  next
    case (3 p' p'' b')
    then show ?case using store_okD(3) [OF ok, of p' b' p''] by (auto split: if_splits)
  next
    case (4 p')
    then obtain j where "ph_q (qs j) = Some p'" "p' \<noteq> p"
      using store_okD(4) [OF ok, of p'] by (auto simp: h'_def split: if_splits)
    then show ?case using i by (intro exI [of _ j]) auto
  next
    case (5 b')
    then obtain p' where "buffer_of h p' = Some b'" "b' \<noteq> b"
      using store_okD(5) [OF ok, of b'] by (auto simp: h'_def split: if_splits)
    then show ?case using b by (intro exI [of _ p']) auto
  qed
qed

lemma deinit_refines:
  assumes "store_ok qs h"
  shows "refines i (pos_queue_deinit_heap False) deinit_prog (qs, h, k)"
proof (cases "ph_q (qs i)")
  case None
  then show ?thesis
    using assms by (intro refines_ReturnsI [where s = "qs i" and h' = h])
      (simp_all add: deinit_prog_def pos_queue_deinit_heap_def pos_queue_deinit_posix_def prog_defs abs_queue_def)
next
  case (Some p)
  then obtain b where b: "buffer_of h p = Some b"
      "delete_ring p h = Returns () (h\<lparr>rings := (rings h)(p := None), buffers := (buffers h)(b := None)\<rparr>)"
    using delete_ring_effect [OF assms] by blast
  obtain r where r: "load h p = Some r" using store_okD(1) [OF assms Some] by blast
  show ?thesis
  proof (rule refines_ReturnsI [OF _ _ store_ok_delete [OF assms Some b(1)]])
    show "pos_queue_deinit_heap False (qs i, h, k) = Returns POS_OK ((qs i)\<lparr>ph_q := None\<rparr>,
        h\<lparr>rings := (rings h)(p := None), buffers := (buffers h)(b := None)\<rparr>, k)"
      using Some b(2) by (simp add: pos_queue_deinit_heap_def on_store_def prog_defs)
    show "deinit_prog (abs_queue h (qs i), k) = Returns POS_OK ((abs_queue h (qs i))\<lparr>pq_ring := None\<rparr>, k)"
      using Some r by (simp add: deinit_prog_def pos_queue_deinit_posix_def abs_queue_def)
  next
    fix j assume "j \<noteq> i"
    then have "ph_q (qs j) \<noteq> Some p" using store_okD(2) [OF assms Some] by blast
    then show "abs_queue (h\<lparr>rings := (rings h)(p := None), buffers := (buffers h)(b := None)\<rparr>) (qs j) =
        abs_queue h (qs j)"
      by (cases "ph_q (qs j)") (auto simp: abs_queue_def load_delete [OF assms b(1)])
  qed (simp add: abs_queue_def)
qed

text \<open>Creating a ring.\<close>

lemma new_ring_cases:
  "new_ring al junk sz cnt h =
     (case place_ring al (in_use (rings h)) of
        None \<Rightarrow> Stops Uncaught_Exception
      | Some p \<Rightarrow>
          (case OsRing_new (\<lambda>n. place_buffer al (in_use (buffers h)) n \<noteq> None) junk sz cnt of
             Inl s \<Rightarrow> Stops s
           | Inr r \<Rightarrow>
               Returns p
                 (let b = the (place_buffer al (in_use (buffers h)) (length (ring_buffer r))) in
                  h\<lparr>rings := (rings h)(p := Some \<lparr>ro_buffer = Some b, ro_itemSize = sz, ro_itemCount = cnt,
                      ro_readIndex = 0, ro_writeIndex = 0, ro_mutexAttr = Some True, ro_mutex = True, ro_condv = True\<rparr>),
                    buffers := (buffers h)(b := Some (ring_buffer r))\<rparr>)))"
  by (auto simp: new_ring_def RingPthread_construct_def OsRing_construct_def new_buffer_def OsRing_new_def prog_defs Let_def
      split: option.split)

lemma OsRing_new_fields:
  "OsRing_new heap_ok junk sz cnt = Inr r \<Longrightarrow>
     itemSize r = sz \<and> itemCount r = cnt \<and> readIndex r = 0 \<and> writeIndex r = 0 \<and> heap_ok (length (ring_buffer r))"
  by (auto simp: OsRing_new_def split: if_splits option.splits)

lemma live_buffer:
  assumes ok: "store_ok qs h" and c: "buffer_of h q = Some c"
  shows "buffers h c \<noteq> None"
proof -
  obtain ob where "rings h q = Some ob" using c by (auto simp: buffer_of_def split: bind_splits)
  then obtain j where "ph_q (qs j) = Some q" using store_okD(4) [OF ok] by blast
  then obtain r where "load h q = Some r" using store_okD(1) [OF ok] by blast
  then show ?thesis using load_buffer c by fastforce
qed

lemma store_ok_new:
  fixes bs :: bytes
  assumes ok: "store_ok qs h" and i: "ph_q (qs i) = None" and p: "rings h p = None" and b: "buffers h b = None"
    and ob: "ro_buffer ob = Some b" "ro_mutex ob" "ro_condv ob"
  defines "h' \<equiv> h\<lparr>rings := (rings h)(p := Some ob), buffers := (buffers h)(b := Some bs)\<rparr>"
  shows "ph_q s = Some p \<Longrightarrow> store_ok (qs(i := s)) h'" and "p' \<noteq> p \<Longrightarrow> ph_q (qs j) = Some p' \<Longrightarrow> load h' p' = load h p'"
    and "ph_q (qs j) \<noteq> Some p"
proof -
  have free: "ph_q (qs j) \<noteq> Some p" for j using store_okD(1) [OF ok, of j p] p by (auto simp: load_def)
  then show "ph_q (qs j) \<noteq> Some p" .
  have bo: "buffer_of h' p' = (if p' = p then Some b else buffer_of h p')" for p'
    using ob by (simp add: buffer_of_def h'_def)
  have nb: "buffer_of h q \<noteq> Some b" for q using live_buffer [OF ok] b by blast
  have l: "load h' q = load h q" if "q \<noteq> p" for q
    using nb [of q] that by (auto simp: load_def h'_def buffer_of_def split: bind_splits)
  then show "p' \<noteq> p \<Longrightarrow> ph_q (qs j) = Some p' \<Longrightarrow> load h' p' = load h p'" by blast
  have lp: "load h' p \<noteq> None" using ob by (simp add: load_def h'_def)
  show "store_ok (qs(i := s)) h'" if s: "ph_q s = Some p"
    unfolding store_ok_def bo
  proof (intro conjI allI impI, goal_cases)
    case (1 j q)
    then show ?case using lp l [of q] store_okD(1) [OF ok, of j q] by (cases "q = p") (auto simp: s split: if_splits)
  next
    case (2 j j' q)
    then show ?case using store_okD(2) [OF ok, of j q j'] free by (auto simp: s split: if_splits)
  next
    case (3 q q' c)
    then show ?case using store_okD(3) [OF ok, of q c q'] nb by (auto split: if_splits)
  next
    case (4 q)
    show ?case
    proof (cases "q = p")
      case False
      then obtain j where "ph_q (qs j) = Some q" using 4 store_okD(4) [OF ok, of q] by (auto simp: h'_def)
      then show ?thesis using i by (intro exI [of _ j]) auto
    qed (auto simp: s intro: exI [of _ i])
  next
    case (5 c)
    then show ?case
    proof (cases "c = b")
      case False
      then obtain q where q: "buffer_of h q = Some c" using 5 store_okD(5) [OF ok, of c] by (auto simp: h'_def)
      then have "q \<noteq> p" using p by (auto simp: buffer_of_def)
      with q show ?thesis by (intro exI [of _ q]) simp
    qed auto
  qed
qed

lemma init_refines:
  assumes "store_ok qs h" and "ph_q (qs i) = None" and "places_fresh al"
  shows "refines i (pos_queue_init_heap al junk msg_size max_msgs)
    (pos_queue_init_posix (place_ring al (in_use (rings h)) \<noteq> None)
       (\<lambda>n. place_buffer al (in_use (buffers h)) n \<noteq> None) junk msg_size max_msgs) (qs, h, k)"
proof (cases "place_ring al (in_use (rings h))")
  case None
  then show ?thesis
    by (intro refinesI) (simp add: pos_queue_init_heap_def pos_queue_init_posix_def on_store_def new_ring_cases prog_defs)
next
  case (Some p)
  let ?ok = "\<lambda>n. place_buffer al (in_use (buffers h)) n \<noteq> None"
  show ?thesis
  proof (cases "OsRing_new ?ok junk (ucast msg_size) (ucast max_msgs)")
    case (Inl s)
    with Some show ?thesis
      by (intro refinesI)
        (simp add: pos_queue_init_heap_def pos_queue_init_posix_def RingPthread_new_def on_store_def new_ring_cases prog_defs)
  next
    case (Inr r)
    note f = OsRing_new_fields [OF Inr]
    then obtain b where b: "place_buffer al (in_use (buffers h)) (length (ring_buffer r)) = Some b" by blast
    let ?ob = "\<lparr>ro_buffer = Some b, ro_itemSize = ucast msg_size, ro_itemCount = ucast max_msgs,
        ro_readIndex = 0, ro_writeIndex = 0, ro_mutexAttr = Some True, ro_mutex = True, ro_condv = True\<rparr>"
    let ?h = "h\<lparr>rings := (rings h)(p := Some ?ob), buffers := (buffers h)(b := Some (ring_buffer r))\<rparr>"
    have fresh: "rings h p = None" "buffers h b = None"
      using assms(3) Some b unfolding places_fresh_def in_use_def by blast+
    note new = store_ok_new(1,2) [OF assms(1,2) fresh, where ob = ?ob and bs = "ring_buffer r", simplified]
    note other = store_ok_new(3) [OF assms(1,2) fresh, where ob = ?ob, simplified]
    let ?q = "(qs i)\<lparr>ph_q := Some p, ph_sig_cb := None, ph_sig_arg := None\<rparr>"
    have "load ?h p = Some r" using f by (cases r) (simp add: load_def)
    then have v: "pos_queue_init_posix (place_ring al (in_use (rings h)) \<noteq> None) ?ok junk msg_size max_msgs
        (abs_queue h (qs i), k) = Returns POS_OK (abs_queue ?h ?q, k)"
      using Some Inr by (simp add: pos_queue_init_posix_def RingPthread_new_def prog_defs abs_queue_def)
    have m: "pos_queue_init_heap al junk msg_size max_msgs (qs i, h, k) = Returns POS_OK (?q, ?h, k)"
      using Some Inr b by (simp add: pos_queue_init_heap_def on_store_def new_ring_cases prog_defs)
    have o: "abs_queue ?h (qs j) = abs_queue h (qs j)" for j
      using new(2) [of _ j] other [of j] by (cases "ph_q (qs j)") (auto simp: abs_queue_def)
    show ?thesis
      by (rule refines_ReturnsI, rule v, rule m, rule new(1)) (simp, rule refl, rule o)
  qed
qed

section \<open>All reachable states\<close>

lemma refines_store_ok:
  "refines i m v w \<Longrightarrow> on_obj i m w = Returns a w' \<Longrightarrow> store_ok (fst w') (fst (snd w'))"
  unfolding refines_def by blast

lemma refines_outcome: "refines i m v w \<Longrightarrow> abs_outcome (on_obj i m w) = on_obj i v (abs_world w)"
  unfolding refines_def by blast

lemma ph_reach_ok:
  assumes "ph_reach al run_cb w" and "places_fresh al"
  shows "store_ok (fst w) (fst (snd w))"
  using assms(1)
proof (induction rule: ph_reach.induct)
  case (ph_begin k)
  then show ?case by (simp add: store_ok_def buffer_of_def)
next
  case (ph_init w i junk msg_size max_msgs e w')
  then show ?case
    using refines_store_ok [OF init_refines [OF _ _ assms(2)], of "fst w" "fst (snd w)" i junk msg_size max_msgs "snd (snd w)"]
    by simp
next
  case (ph_set_cb w i cb data u w')
  then show ?case
    using refines_store_ok [OF set_cb_refines, of "fst w" "fst (snd w)" i cb data "snd (snd w)"] by simp
next
  case (ph_is_empty w i b w')
  then show ?case
    using refines_store_ok [OF is_empty_refines, of "fst w" "fst (snd w)" i "snd (snd w)"] by simp
next
  case (ph_put w i x e w')
  then show ?case
    using refines_store_ok [OF put_refines, of "fst w" "fst (snd w)" i run_cb x "snd (snd w)"] by simp
next
  case (ph_get w i out tmo r w')
  then show ?case
    using refines_store_ok [OF get_refines, of "fst w" "fst (snd w)" i out tmo "snd (snd w)"] by simp
next
  case (ph_deinit w i msgq_null e w')
  show ?case
  proof (cases msgq_null)
    case True
    then have "w' = w" using ph_deinit.hyps(2)
      by (cases w) (auto simp: on_obj_def pos_queue_deinit_heap_def c_return_def)
    then show ?thesis using ph_deinit.IH by simp
  next
    case False
    then show ?thesis
      using ph_deinit refines_store_ok [OF deinit_refines, of "fst w" "fst (snd w)" i "snd (snd w)"] by simp
  qed
qed

section \<open>Properties\<close>

text \<open>A program for the examples: two queues of two one-byte messages, the first one freed again.\<close>

lemma ref_allocator_fresh: "places_fresh ref_allocator"
  by (simp add: places_fresh_def ref_allocator_def)

lemma ref_new_ring:
  "OsRing_new heap_ok (\<lambda>_. 0) 1 2 =
     (if heap_ok 2 then Inr ring_new_1_2 else Inl Uncaught_Exception)"
  by (simp add: OsRing_new_def ring_count_ok_def c_int_mul_def ring_new_1_2_def upt_rec)

lemma ref_init_heap:
  assumes "place_ring ref_allocator (in_use (rings h)) = Some p" and "\<And>n. place_buffer ref_allocator (in_use (buffers h)) n = Some b"
  shows "on_obj i (pos_queue_init_heap ref_allocator (\<lambda>_. 0) 1 2) (qs, h, k) =
     Returns POS_OK (qs(i := (qs i)\<lparr>ph_q := Some p, ph_sig_cb := None, ph_sig_arg := None\<rparr>),
       h\<lparr>rings := (rings h)(p := Some \<lparr>ro_buffer = Some b, ro_itemSize = 1, ro_itemCount = 2, ro_readIndex = 0,
            ro_writeIndex = 0, ro_mutexAttr = Some True, ro_mutex = True, ro_condv = True\<rparr>),
          buffers := (buffers h)(b := Some [0, 0])\<rparr>, k)"
  using assms
  by (simp add: on_obj_def pos_queue_init_heap_def on_store_def new_ring_cases ref_new_ring prog_defs Let_def
      ring_new_1_2_def)

lemma ph_example:
  "\<exists>qs h k. ph_reach ref_allocator (\<lambda>(_ :: nat) (_ :: nat option) (k :: unit). Returns () k) (qs, h, k) \<and>
     ph_q (qs 0) = None \<and> ph_q (qs 1) = Some 1 \<and> buffer_of h 1 = Some 1"
proof -
  let ?cb = "\<lambda>(_ :: nat) (_ :: nat option) (k :: unit). Returns () k"
  let ?q = "\<lambda>_ :: nat. \<lparr>ph_q = None, ph_sig_cb = None :: nat option, ph_sig_arg = None :: nat option\<rparr>"
  let ?init = "\<lambda>i. on_obj i (pos_queue_init_heap ref_allocator (\<lambda>_. 0) 1 2)"
  let ?ob = "\<lambda>b. \<lparr>ro_buffer = Some b, ro_itemSize = 1, ro_itemCount = 2, ro_readIndex = 0, ro_writeIndex = 0,
      ro_mutexAttr = Some True, ro_mutex = True, ro_condv = True\<rparr>"
  let ?h1 = "\<lparr>rings = (\<lambda>_. None)(0 := Some (?ob 0)), buffers = (\<lambda>_. None)(0 := Some [0, 0])\<rparr>"
  let ?h2 = "\<lparr>rings = (\<lambda>_. None)(0 := Some (?ob 0), 1 := Some (?ob 1)), buffers = (\<lambda>_. None)(0 := Some [0, 0], 1 := Some [0, 0])\<rparr>"
  have 1: "?init 0 (?q, \<lparr>rings = \<lambda>_. None, buffers = \<lambda>_. None\<rparr>, ()) = Returns POS_OK (?q(0 := (?q 0)\<lparr>ph_q := Some 0\<rparr>), ?h1, ())"
    by (subst ref_init_heap [where p = 0 and b = 0]) (simp_all add: ref_allocator_def in_use_def)
  have 2: "?init 1 (?q(0 := (?q 0)\<lparr>ph_q := Some 0\<rparr>), ?h1, ()) =
      Returns POS_OK (?q(0 := (?q 0)\<lparr>ph_q := Some 0\<rparr>, 1 := (?q 1)\<lparr>ph_q := Some 1\<rparr>), ?h2, ())"
    by (subst ref_init_heap [where p = 1 and b = 1]) (simp_all add: ref_allocator_def in_use_def)
  obtain qs h k where 3: "on_obj 0 (pos_queue_deinit_heap False)
      (?q(0 := (?q 0)\<lparr>ph_q := Some 0\<rparr>, 1 := (?q 1)\<lparr>ph_q := Some 1\<rparr>), ?h2, ()) = Returns POS_OK (qs, h, k)"
      "ph_q (qs 0) = None" "ph_q (qs 1) = Some 1" "buffer_of h 1 = Some 1"
    by (simp add: on_obj_def pos_queue_deinit_heap_def on_store_def delete_ring_def RingPthread_delete_def
        OsRing_delete_def delete_buffer_def in_use_def prog_defs buffer_of_def)
  have "ph_reach ref_allocator ?cb (qs, h, k)"
    by (rule ph_deinit [OF ph_init [OF ph_init [OF ph_begin _ 1] _ 2] 3(1)]) simp_all
  with 3 show ?thesis by blast
qed

text \<open>C9. The memory of the POSIX queues: in every state a program reaches with any number of queues by calls that return, where
  \<open>pos_queue_init\<close> is called only on a queue whose pointer is null (before its first use or after
  \<open>pos_queue_deinit\<close>; initialising a queue again would lose its ring), every initialised
  queue has a live ring with its own array, no two queues share memory, and exactly the rings and arrays of
  initialised queues are allocated, so that nothing remains allocated once all queues are deinitialised.
  This holds for every allocator that returns unused addresses, freed ones included.\<close>

theorem posix_queue_memory:
  assumes "ph_reach al run_cb (qs, h, k)" and "places_fresh al"
  shows "(\<forall>i p. ph_q (qs i) = Some p \<longrightarrow> load h p \<noteq> None) \<and>
         (\<forall>i j. i \<noteq> j \<and> ph_q (qs i) \<noteq> None \<longrightarrow>
            ph_q (qs i) \<noteq> ph_q (qs j) \<and> Option.bind (ph_q (qs i)) (buffer_of h) \<noteq> Option.bind (ph_q (qs j)) (buffer_of h)) \<and>
         {p. in_use (rings h) p} = {p. \<exists>i. ph_q (qs i) = Some p} \<and>
         {b. in_use (buffers h) b} = {b. \<exists>i. Option.bind (ph_q (qs i)) (buffer_of h) = Some b} \<and>
         ((\<forall>i. ph_q (qs i) = None) \<longrightarrow> rings h = (\<lambda>_. None) \<and> buffers h = (\<lambda>_. None))"
proof -
  have ok: "store_ok qs h" using ph_reach_ok [OF assms] by simp
  have b: "\<exists>c. buffer_of h p = Some c" if "ph_q (qs i) = Some p" for i p
    using store_okD(1) [OF ok that] load_buffer by blast
  have r: "in_use (rings h) p \<longleftrightarrow> (\<exists>i. ph_q (qs i) = Some p)" for p
    using store_okD(4) [OF ok, of p] store_okD(1) [OF ok, of _ p] by (fastforce simp: in_use_def load_Some)
  have u: "in_use (buffers h) c \<longleftrightarrow> (\<exists>i. Option.bind (ph_q (qs i)) (buffer_of h) = Some c)" for c
  proof
    assume "in_use (buffers h) c"
    then obtain p where p: "buffer_of h p = Some c" using store_okD(5) [OF ok] by (auto simp: in_use_def)
    then have "in_use (rings h) p" by (auto simp: buffer_of_def in_use_def split: bind_splits)
    then obtain i where "ph_q (qs i) = Some p" using r by blast
    then show "\<exists>i. Option.bind (ph_q (qs i)) (buffer_of h) = Some c" using p by (intro exI [of _ i]) simp
  next
    assume "\<exists>i. Option.bind (ph_q (qs i)) (buffer_of h) = Some c"
    then show "in_use (buffers h) c" using live_buffer [OF ok] by (auto simp: in_use_def split: bind_splits)
  qed
  have "ph_q (qs i) \<noteq> ph_q (qs j) \<and> Option.bind (ph_q (qs i)) (buffer_of h) \<noteq> Option.bind (ph_q (qs j)) (buffer_of h)"
    if ij: "i \<noteq> j" and ne: "ph_q (qs i) \<noteq> None" for i j
  proof -
    obtain p where p: "ph_q (qs i) = Some p" using ne by blast
    obtain c where c: "buffer_of h p = Some c" using b [OF p] by blast
    show ?thesis
    proof (cases "ph_q (qs j)")
      case (Some p')
      then have "p \<noteq> p'" using store_okD(2) [OF ok p, of j] ij by blast
      moreover from this have "buffer_of h p' \<noteq> Some c" using store_okD(3) [OF ok c] by blast
      ultimately show ?thesis using p c Some by simp
    qed (use p c in simp)
  qed
  moreover have "rings h = (\<lambda>_. None) \<and> buffers h = (\<lambda>_. None)" if "\<forall>i. ph_q (qs i) = None"
    using r u that by (auto simp: in_use_def fun_eq_iff)
  ultimately show ?thesis using store_okD(1) [OF ok] r u by blast
qed

theorem posix_queue_memory_witness:
  "\<exists>qs h k. ph_reach ref_allocator (\<lambda>(_ :: nat) (_ :: nat option) (k :: unit). Returns () k) (qs, h, k) \<and>
     ph_q (qs 0) = None \<and> ph_q (qs 1) = Some 1 \<and> load h 1 \<noteq> None \<and> in_use (buffers h) 1"
proof -
  obtain qs h k where e: "ph_reach ref_allocator (\<lambda>(_ :: nat) (_ :: nat option) (k :: unit). Returns () k) (qs, h, k)"
      "ph_q (qs 0) = None" "ph_q (qs 1) = Some 1" "buffer_of h 1 = Some 1"
    using ph_example by blast
  note m = posix_queue_memory [OF e(1) ref_allocator_fresh]
  from m e(3) have "load h 1 \<noteq> None" by blast
  moreover from m have "{b. in_use (buffers h) b} = {b. \<exists>i. Option.bind (ph_q (qs i)) (buffer_of h) = Some b}" by blast
  then have "in_use (buffers h) 1" using e(3,4) by (auto simp: set_eq_iff intro: exI [of _ 1])
  ultimately show ?thesis using e by blast
qed

text \<open>C10. The functions of the POSIX queue over the store do what the model with rings as values says, on any queue of any
  reachable state: same result, same effect on that queue, none on the others.  In particular no
  call follows a dangling pointer or frees memory twice.\<close>

theorem posix_queue_heap_refines:
  assumes "ph_reach al run_cb (qs, h, k)" and "places_fresh al"
  shows "abs_outcome (on_obj i (pos_queue_put_heap run_cb x) (qs, h, k)) =
           on_obj i (pos_queue_put_posix run_cb x) (abs_world (qs, h, k)) \<and>
         abs_outcome (on_obj i (pos_queue_get_heap out tmo) (qs, h, k)) =
           on_obj i (pos_queue_get_posix out tmo) (abs_world (qs, h, k)) \<and>
         abs_outcome (on_obj i pos_queue_is_empty_heap (qs, h, k)) =
           on_obj i pos_queue_is_empty_posix (abs_world (qs, h, k)) \<and>
         abs_outcome (on_obj i (pos_queue_set_signal_cb_heap cb data) (qs, h, k)) =
           on_obj i (pos_queue_set_signal_cb_posix cb data) (abs_world (qs, h, k)) \<and>
         abs_outcome (on_obj i (pos_queue_deinit_heap False) (qs, h, k)) = on_obj i deinit_prog (abs_world (qs, h, k)) \<and>
         (ph_q (qs i) = None \<longrightarrow>
            abs_outcome (on_obj i (pos_queue_init_heap al junk msg_size max_msgs) (qs, h, k)) =
              on_obj i (pos_queue_init_posix (place_ring al (in_use (rings h)) \<noteq> None)
                (\<lambda>n. place_buffer al (in_use (buffers h)) n \<noteq> None) junk msg_size max_msgs) (abs_world (qs, h, k)))"
proof -
  have ok: "store_ok qs h" using ph_reach_ok [OF assms] by simp
  show ?thesis
    by (intro conjI impI refines_outcome put_refines [OF ok] get_refines [OF ok] is_empty_refines [OF ok]
        set_cb_refines [OF ok] deinit_refines [OF ok] init_refines [OF ok _ assms(2)])
qed

theorem posix_queue_heap_refines_witness:
  "\<exists>qs h k. ph_q (qs (0 :: nat)) = None \<and> ph_q (qs 1) = Some 1 \<and>
     abs_outcome (on_obj 1 (pos_queue_put_heap (\<lambda>(_ :: nat) (_ :: nat option) (k :: unit). Returns () k) [7]) (qs, h, k)) =
       on_obj 1 (pos_queue_put_posix (\<lambda>(_ :: nat) (_ :: nat option) (k :: unit). Returns () k) [7]) (abs_world (qs, h, k))"
proof -
  obtain qs h k where e: "ph_reach ref_allocator (\<lambda>(_ :: nat) (_ :: nat option) (k :: unit). Returns () k) (qs, h, k)"
      "ph_q (qs 0) = None" "ph_q (qs 1) = Some 1"
    using ph_example by blast
  from posix_queue_heap_refines [OF e(1) ref_allocator_fresh] e(2,3) show ?thesis by blast
qed

end
