(* ===== verification/Conform_Task.thy ===== *)
theory Conform_Task
  imports Posix_Task Freertos_Timer Zephyr_Task Rtt_Port
begin

text \<open>
  The tasks of the four ports against the documentation of \<^verbatim>\<open>os_task.h\<close>: \<open>pos_task_init\<close> schedules
  a task for execution and \<open>pos_task_remove\<close> stops it for good.  A program creates and removes any number of tasks,
  and the results of its calls tell which tasks exist, until a task's function returns; the contract \<open>osal_tasks\<close> gives that
  exactly these are the threads of the kernel, each on the function and argument it was created with.
  FreeRTOS has no \<open>pos_task_remove\<close>; its programs only create tasks.
\<close>

section \<open>Definitions\<close>

subsection \<open>What the documentation says\<close>

text \<open>The documented state of a task is the function it executes with its argument, changed by the result of a call.\<close>

definition pos_task_init_doc :: "'f \<Rightarrow> 'p option \<Rightarrow> pos_error \<Rightarrow> ('f \<times> 'p option) option \<Rightarrow> ('f \<times> 'p option) option" where
  "pos_task_init_doc func arg e st = (if e = POS_OK then Some (func, arg) else st)"

definition pos_task_remove_doc :: "pos_error \<Rightarrow> ('f \<times> 'p option) option \<Rightarrow> ('f \<times> 'p option) option" where
  "pos_task_remove_doc e st = (if e = POS_OK then None else st)"

text \<open>
  The programs: a struct is initialised only when it is not in use (\<open>Pointer to uninitialized struct\<close>), with a function, and
  only an initialised task is removed.  Between the calls a task can end by itself (\<open>fin i\<close>), when its function returns; it is
  then not removed any more.
\<close>

inductive tk_reach ::
    "(('f, 'p) task_call \<Rightarrow> (pos_error, 'w) prog) \<Rightarrow> (nat \<Rightarrow> 'w \<Rightarrow> 'w \<Rightarrow> bool) \<Rightarrow> 'w \<Rightarrow>
     (nat \<Rightarrow> ('f \<times> 'p option) option) \<Rightarrow> 'w \<Rightarrow> bool"
  for step fin w0 where
  tk_begin: "tk_reach step fin w0 (\<lambda>_. None) w0"
| tk_init:
    "tk_reach step fin w0 s w \<Longrightarrow> s i = None \<Longrightarrow> step (TInit i name (Some func) arg prio stack_size) w = Returns e w' \<Longrightarrow>
     tk_reach step fin w0 (s(i := pos_task_init_doc func arg e (s i))) w'"
| tk_remove:
    "tk_reach step fin w0 s w \<Longrightarrow> s i \<noteq> None \<Longrightarrow> step (TRemove i) w = Returns e w' \<Longrightarrow>
     tk_reach step fin w0 (s(i := pos_task_remove_doc e (s i))) w'"
| tk_end:
    "tk_reach step fin w0 s w \<Longrightarrow> s i \<noteq> None \<Longrightarrow> fin i w w' \<Longrightarrow> tk_reach step fin w0 (s(i := None)) w'"

text \<open>
  The end of the thread of task \<open>i\<close>, seen in a world of structs and a kernel: \<open>handle\<close> reads the handle of a struct, and \<open>thr\<close> the threads of
  the kernel.
\<close>

definition thread_ends ::
    "('o \<Rightarrow> 'h option) \<Rightarrow> ('r \<Rightarrow> 'h \<Rightarrow> 'e option) \<Rightarrow> nat \<Rightarrow> (nat \<Rightarrow> 'o) \<times> 'r \<Rightarrow> (nat \<Rightarrow> 'o) \<times> 'r \<Rightarrow> bool" where
  "thread_ends handle thr i w w' \<longleftrightarrow>
     fst w' = fst w \<and> (\<exists>h. handle (fst w i) = Some h \<and> thr (snd w') = (thr (snd w))(h := None))"

text \<open>
  The threads are those of the documented tasks: every task has its thread, and every thread belongs to exactly one task.
  \<open>entry\<close> is how a port tells a thread what to execute.
\<close>

definition tasks_match ::
    "('w \<Rightarrow> nat \<Rightarrow> 'h option) \<Rightarrow> ('w \<Rightarrow> 'h \<Rightarrow> 'e option) \<Rightarrow> (nat \<Rightarrow> 'f \<Rightarrow> 'p option \<Rightarrow> 'e) \<Rightarrow>
     (nat \<Rightarrow> ('f \<times> 'p option) option) \<Rightarrow> 'w \<Rightarrow> bool" where
  "tasks_match handle threads entry s w \<longleftrightarrow>
     (\<forall>i f a. s i = Some (f, a) \<longrightarrow> (\<exists>h. handle w i = Some h \<and> threads w h = Some (entry i f a))) \<and>
     (\<forall>h e. threads w h = Some e \<longrightarrow> (\<exists>!i. s i \<noteq> None \<and> handle w i = Some h))"

subsection \<open>The calls of the ports\<close>

fun task_step_posix ::
    "('h, 'a, 'f, 'p, 'k) pthread_api \<Rightarrow> nat \<Rightarrow> ('f, 'p) task_call \<Rightarrow>
     (pos_error, (nat \<Rightarrow> ('h, 'a) pos_task_posix) \<times> int \<times> 'k) prog" where
  "task_step_posix api stack_min (TInit i name func arg prio stack_size) =
     on_obj i (pos_task_init_posix api stack_min False name func arg prio stack_size)"
| "task_step_posix api stack_min (TRemove i) = on_obj i (pos_task_remove_posix api False)"

text \<open>
  On FreeRTOS and Zephyr the kernel is given the address of the struct (as the parameter of the task, or as its
  control block); \<open>api i\<close> are the kernel functions called with the struct of task \<open>i\<close>.
\<close>

fun task_step_freertos ::
    "(nat \<Rightarrow> ('h, 'w::len word, 'k) freertos_task_api) \<Rightarrow> nat \<Rightarrow> ('f, 'p) task_call \<Rightarrow>
     (pos_error, (nat \<Rightarrow> ('h, 'f, 'p) pos_task_freertos) \<times> 'k) prog" where
  "task_step_freertos api sizeof_base (TInit i name func arg prio stack_size) =
     on_obj i (pos_task_init_freertos (api i) sizeof_base False name func arg prio stack_size)"
| "task_step_freertos api sizeof_base (TRemove i) = c_stop Undefined_Behaviour"

fun task_step_zephyr ::
    "(nat \<Rightarrow> ('h, 'f, 'p, 'k) zephyr_task_api) \<Rightarrow> ('f, 'p) task_call \<Rightarrow>
     (pos_error, (nat \<Rightarrow> 'h pos_task_zephyr) \<times> bool list \<times> 'k) prog" where
  "task_step_zephyr api (TInit i name func arg prio stack_size) =
     on_obj i (pos_task_init_zephyr (api i) name func arg prio stack_size)"
| "task_step_zephyr api (TRemove i) = on_obj i (pos_task_remove_zephyr (api i))"

fun task_step_rtt ::
    "('h, 'f, 'p, 'k) rtt_task_api \<Rightarrow> ('f, 'p) task_call \<Rightarrow>
     (pos_error, (nat \<Rightarrow> ('h, 'f, 'p) pos_task_rtt) \<times> 'k) prog" where
  "task_step_rtt api (TInit i name func arg prio stack_size) =
     on_obj i (pos_task_init_rtt api False name func arg prio stack_size)"
| "task_step_rtt api (TRemove i) = on_obj i (pos_task_remove_rtt api)"

subsection \<open>Reference kernels\<close>

text \<open>Threads numbered in the order of their creation, with what they execute; no thread is created on a number in use.\<close>

record 'e ref_threads =
  rth_next :: nat
  rth_made :: "nat \<Rightarrow> 'e option"
  rth_runs :: "nat \<Rightarrow> 'e option"

definition rth_add :: "'e \<Rightarrow> 'e ref_threads \<Rightarrow> 'e ref_threads" where
  "rth_add e k = k\<lparr>rth_next := Suc (rth_next k), rth_runs := (rth_runs k)(rth_next k \<mapsto> e)\<rparr>"

definition rth_end :: "nat \<Rightarrow> 'e ref_threads \<Rightarrow> 'e ref_threads" where
  "rth_end h k = k\<lparr>rth_runs := (rth_runs k)(h := None)\<rparr>"

definition rth_none :: "'e ref_threads" where
  "rth_none = \<lparr>rth_next = 0, rth_made = \<lambda>_. None, rth_runs = \<lambda>_. None\<rparr>"

definition ref_pthreads :: "(nat, nat, nat, nat, (nat \<times> nat option) ref_threads) pthread_api" where
  "ref_pthreads =
     \<lparr>pthread_attr_init = (\<lambda>a k. Returns 0 k),
      pthread_attr_getschedparam = (\<lambda>a k. Returns (0, \<lparr>sched_priority = 0\<rparr>) k),
      pthread_attr_setschedpolicy = (\<lambda>a p k. Returns 0 k),
      pthread_attr_setstacksize = (\<lambda>a n k. Returns (if n < 16384 then EINVAL else 0) k),
      pthread_attr_setschedparam = (\<lambda>a p k. Returns 0 k),
      pthread_create = (\<lambda>a f x k.
        if rth_runs k (rth_next k) = None then Returns (0, Some (rth_next k)) (rth_add (f, x) k) else Returns (ENOMEM, None) k),
      pthread_cancel = (\<lambda>h k. Returns 0 (rth_end h k)),
      pthread_self = (\<lambda>k. 0),
      sched_yield = (\<lambda>k. Returns 0 k)\<rparr>"

definition ref_ftasks :: "nat \<Rightarrow> (nat, u32, nat ref_threads) freertos_task_api" where
  "ref_ftasks i =
     \<lparr>xTaskCreate = (\<lambda>nm n p k.
        if rth_runs k (rth_next k) = None then Returns (pdPASS, Some (rth_next k)) (rth_add i k) else Returns (- 1, None) k),
      taskYIELD = c_return (), vTaskDelay = (\<lambda>n. c_return ()), xTaskGetCurrentTaskHandle = (\<lambda>k. 0),
      vTaskStartScheduler = c_stop Blocked, scheduler_not_started = (\<lambda>k. False)\<rparr>"

definition ref_zthreads :: "nat \<Rightarrow> (nat, nat, nat, (nat \<times> nat option) ref_threads) zephyr_task_api" where
  "ref_zthreads i =
     \<lparr>k_thread_create = (\<lambda>s sz f a p k. Returns (Some i) (k\<lparr>rth_runs := (rth_runs k)(i := map_option (\<lambda>f. (f, a)) f)\<rparr>)),
      k_thread_name_set = (\<lambda>h nm k. Returns 0 k),
      k_thread_abort = (\<lambda>h k. Returns () (case h of None \<Rightarrow> k | Some h \<Rightarrow> rth_end h k)),
      k_yield = c_return (), k_sleep = (\<lambda>t. c_return 0), k_current_get = (\<lambda>k. 0)\<rparr>"

definition ref_rthreads :: "(nat, nat, nat, (nat \<times> nat option) ref_threads) rtt_task_api" where
  "ref_rthreads =
     \<lparr>rt_thread_create = (\<lambda>nm f a sz p n k.
        if rth_runs k (rth_next k) = None
        then Returns (Some (rth_next k)) (k\<lparr>rth_next := Suc (rth_next k), rth_made := (rth_made k)(rth_next k \<mapsto> (f, a))\<rparr>)
        else Returns None k),
      rt_thread_startup = (\<lambda>h k. Returns RT_EOK (k\<lparr>rth_runs := (rth_runs k)(h := rth_made k h)\<rparr>)),
      rt_thread_yield = c_return RT_EOK, rt_thread_delay = (\<lambda>n. c_return RT_EOK),
      rt_thread_mdelay = (\<lambda>n. c_return RT_EOK), rt_thread_self = (\<lambda>k. 0),
      rt_thread_delete = (\<lambda>h k. case h of None \<Rightarrow> Stops Undefined_Behaviour | Some h \<Rightarrow> Returns RT_EOK (rth_end h k))\<rparr>"

section \<open>The contract\<close>

lemma tasks_match_owner:
  assumes "tasks_match handle threads entry s w" and "threads w x = Some e"
  shows "\<exists>j. s j \<noteq> None \<and> handle w j = Some x \<and> (\<forall>j'. s j' \<noteq> None \<longrightarrow> handle w j' = Some x \<longrightarrow> j' = j)"
proof -
  have "\<exists>!j. s j \<noteq> None \<and> handle w j = Some x" using assms unfolding tasks_match_def by blast
  then show ?thesis by blast
qed

text \<open>
  \<open>ready s w\<close> is what a port maintains beyond the match of tasks and threads.
\<close>

locale osal_tasks =
  fixes step :: "('f, 'p) task_call \<Rightarrow> (pos_error, 'w) prog"
    and fin :: "nat \<Rightarrow> 'w \<Rightarrow> 'w \<Rightarrow> bool"
    and handle :: "'w \<Rightarrow> nat \<Rightarrow> 'h option"
    and threads :: "'w \<Rightarrow> 'h \<Rightarrow> 'e option"
    and entry :: "nat \<Rightarrow> 'f \<Rightarrow> 'p option \<Rightarrow> 'e"
    and ready :: "(nat \<Rightarrow> ('f \<times> 'p option) option) \<Rightarrow> 'w \<Rightarrow> bool"
  assumes init_ok:
      "ready s w \<Longrightarrow> tasks_match handle threads entry s w \<Longrightarrow> s i = None \<Longrightarrow>
       step (TInit i name (Some func) arg prio stack_size) w = Returns POS_OK w' \<Longrightarrow>
       ready (s(i \<mapsto> (func, arg))) w' \<and>
       (\<exists>h. threads w h = None \<and> threads w' = (threads w)(h \<mapsto> entry i func arg) \<and> handle w' = (handle w)(i \<mapsto> h))"
    and init_error:
      "ready s w \<Longrightarrow> tasks_match handle threads entry s w \<Longrightarrow> s i = None \<Longrightarrow>
       step (TInit i name (Some func) arg prio stack_size) w = Returns e w' \<Longrightarrow> e \<noteq> POS_OK \<Longrightarrow>
       ready s w' \<and> threads w' = threads w \<and> (\<forall>j. j \<noteq> i \<longrightarrow> handle w' j = handle w j)"
    and remove_ok:
      "ready s w \<Longrightarrow> s i \<noteq> None \<Longrightarrow> handle w i = Some h \<Longrightarrow> step (TRemove i) w = Returns POS_OK w' \<Longrightarrow>
       ready (s(i := None)) w' \<and> threads w' = (threads w)(h := None) \<and> handle w' = handle w"
    and remove_error:
      "ready s w \<Longrightarrow> s i \<noteq> None \<Longrightarrow> step (TRemove i) w = Returns e w' \<Longrightarrow> e \<noteq> POS_OK \<Longrightarrow>
       ready s w' \<and> threads w' = threads w \<and> handle w' = handle w"
    and fin_ok:
      "ready s w \<Longrightarrow> s i \<noteq> None \<Longrightarrow> handle w i = Some h \<Longrightarrow> fin i w w' \<Longrightarrow>
       ready (s(i := None)) w' \<and> threads w' = (threads w)(h := None) \<and> handle w' = handle w"
begin

abbreviation matched :: "(nat \<Rightarrow> ('f \<times> 'p option) option) \<Rightarrow> 'w \<Rightarrow> bool" where
  "matched \<equiv> tasks_match handle threads entry"

lemma has_thread: "matched s w \<Longrightarrow> s j = Some (g, b) \<Longrightarrow> \<exists>x. handle w j = Some x \<and> threads w x = Some (entry j g b)"
  unfolding tasks_match_def by blast

lemma matched_add:
  assumes "matched s w" and "s i = None" and "threads w h = None"
    and "threads w' = (threads w)(h \<mapsto> entry i f a)" and "handle w' = (handle w)(i \<mapsto> h)"
  shows "matched (s(i \<mapsto> (f, a))) w'"
proof -
  have no: "handle w j \<noteq> Some h" if "s j \<noteq> None" for j
    using assms(1,3) that by (fastforce simp: tasks_match_def)
  have "\<exists>!j. (s(i \<mapsto> (f, a))) j \<noteq> None \<and> handle w' j = Some x" if x: "threads w' x = Some e" for x e
  proof (cases "x = h")
    case True
    then show ?thesis using assms(2,5) no by (intro ex1I [of _ i]) (auto split: if_splits)
  next
    case False
    then have "threads w x = Some e" using x assms(4) by simp
    then obtain j where j: "s j \<noteq> None" "handle w j = Some x" "\<And>j'. s j' \<noteq> None \<Longrightarrow> handle w j' = Some x \<Longrightarrow> j' = j"
      using tasks_match_owner [OF assms(1)] by blast
    have ji: "j \<noteq> i" using j(1) assms(2) by metis
    show ?thesis
    proof (rule ex1I [of _ j])
      show "(s(i \<mapsto> (f, a))) j \<noteq> None \<and> handle w' j = Some x" using j(1,2) ji assms(5) by simp
      show "j' = j" if j': "(s(i \<mapsto> (f, a))) j' \<noteq> None \<and> handle w' j' = Some x" for j'
      proof -
        have "j' \<noteq> i" using j' assms(5) False by auto
        then show ?thesis using j' j(3) [of j'] assms(5) by simp
      qed
    qed
  qed
  moreover have "\<exists>x. handle w' j = Some x \<and> threads w' x = Some (entry j g b)" if "(s(i \<mapsto> (f, a))) j = Some (g, b)" for j g b
  proof (cases "j = i")
    case True
    then show ?thesis using that assms(4,5) by simp
  next
    case False
    then have "s j = Some (g, b)" using that by simp
    then obtain x where "handle w j = Some x" "threads w x = Some (entry j g b)"
      using has_thread [OF assms(1)] by blast
    then show ?thesis using False assms(3-5) by (intro exI [of _ x]) auto
  qed
  ultimately show ?thesis by (simp add: tasks_match_def)
qed

lemma matched_drop:
  assumes "matched s w" and "s i \<noteq> None" and "handle w i = Some h"
    and "threads w' = (threads w)(h := None)" and "handle w' = handle w"
  shows "matched (s(i := None)) w'"
proof -
  obtain e where e: "threads w h = Some e" using assms(1-3) by (fastforce simp: tasks_match_def)
  have only: "handle w j \<noteq> Some h" if "s j \<noteq> None" "j \<noteq> i" for j
    using tasks_match_owner [OF assms(1) e] that assms(2,3) by blast
  have "\<exists>!j. (s(i := None)) j \<noteq> None \<and> handle w' j = Some x" if x: "threads w' x = Some e'" for x e'
  proof -
    have xh: "x \<noteq> h" "threads w x = Some e'" using x assms(4) by (auto split: if_splits)
    then obtain j where j: "s j \<noteq> None" "handle w j = Some x" "\<And>j'. s j' \<noteq> None \<Longrightarrow> handle w j' = Some x \<Longrightarrow> j' = j"
      using tasks_match_owner [OF assms(1)] by blast
    have ji: "j \<noteq> i" using j(2) assms(3) xh(1) by auto
    show ?thesis
    proof (rule ex1I [of _ j])
      show "(s(i := None)) j \<noteq> None \<and> handle w' j = Some x" using j(1,2) ji assms(5) by simp
      show "j' = j" if "(s(i := None)) j' \<noteq> None \<and> handle w' j' = Some x" for j'
        using that j(3) [of j'] assms(5) by (simp split: if_splits)
    qed
  qed
  moreover have "\<exists>x. handle w' j = Some x \<and> threads w' x = Some (entry j g b)" if "(s(i := None)) j = Some (g, b)" for j g b
  proof -
    have j: "j \<noteq> i" "s j = Some (g, b)" using that by (auto split: if_splits)
    then obtain x where x: "handle w j = Some x" "threads w x = Some (entry j g b)"
      using has_thread [OF assms(1)] by blast
    then have "x \<noteq> h" using only [of j] j by auto
    with x show ?thesis using assms(4,5) by simp
  qed
  ultimately show ?thesis by (simp add: tasks_match_def)
qed

lemma tk_reach_matched:
  assumes "tk_reach step fin w0 s w" and "ready (\<lambda>_. None) w0" and "\<And>h. threads w0 h = None"
  shows "ready s w \<and> matched s w"
  using assms(1)
proof (induction rule: tk_reach.induct)
  case tk_begin
  then show ?case using assms(2,3) by (simp add: tasks_match_def)
next
  case (tk_init s w i name func arg prio stack_size e w')
  then have rm: "ready s w" "matched s w" by simp_all
  show ?case
  proof (cases "e = POS_OK")
    case True
    note ret = tk_init.hyps(3) [unfolded True]
    from init_ok [OF rm tk_init.hyps(2) ret] obtain h where
        h: "ready (s(i \<mapsto> (func, arg))) w'" "threads w h = None"
          "threads w' = (threads w)(h \<mapsto> entry i func arg)" "handle w' = (handle w)(i \<mapsto> h)" by blast
    have eq: "pos_task_init_doc func arg e (s i) = Some (func, arg)" using True by (simp add: pos_task_init_doc_def)
    show ?thesis unfolding eq using h(1) matched_add [OF rm(2) tk_init.hyps(2) h(2-4)] by blast
  next
    case False
    have "s(i := pos_task_init_doc func arg e (s i)) = s" using False by (simp add: pos_task_init_doc_def fun_upd_triv)
    moreover note er = init_error [OF rm tk_init.hyps(2,3) False]
    moreover have "\<And>j. s j \<noteq> None \<Longrightarrow> handle w' j = handle w j" using er tk_init.hyps(2) by metis
    then have "matched s w'" using rm(2) er unfolding tasks_match_def by (metis option.distinct(1))
    ultimately show ?thesis by simp
  qed
next
  case (tk_remove s w i e w')
  then have rm: "ready s w" "matched s w" by simp_all
  show ?case
  proof (cases "e = POS_OK")
    case True
    obtain h where h: "handle w i = Some h" using rm(2) tk_remove.hyps(2) by (fastforce simp: tasks_match_def)
    note r = remove_ok [OF rm(1) tk_remove.hyps(2) h tk_remove.hyps(3) [unfolded True]]
    have eq: "pos_task_remove_doc e (s i) = None" using True by (simp add: pos_task_remove_doc_def)
    show ?thesis unfolding eq using r matched_drop [OF rm(2) tk_remove.hyps(2) h] by blast
  next
    case False
    have "s(i := pos_task_remove_doc e (s i)) = s" using False by (simp add: pos_task_remove_doc_def fun_upd_triv)
    with remove_error [OF rm(1) tk_remove.hyps(2,3) False] rm show ?thesis by (simp add: tasks_match_def)
  qed
next
  case (tk_end s w i w')
  then have rm: "ready s w" "matched s w" by simp_all
  obtain h where h: "handle w i = Some h" using rm(2) tk_end.hyps(2) by (fastforce simp: tasks_match_def)
  note r = fin_ok [OF rm(1) tk_end.hyps(2) h tk_end.hyps(3)]
  show ?case using r matched_drop [OF rm(2) tk_end.hyps(2) h] by blast
qed

end

section \<open>The ports\<close>

subsection \<open>POSIX\<close>

text \<open>
  \<open>runs k h\<close> is what thread \<open>h\<close> executes, if it was created, has not ended and has not been asked to end.
  \<open>pthread_cancel\<close> only requests the end of a thread: when it returns zero the thread leaves this set, though it can go on to its next
  cancellation point.  The identifier of a new thread is that of no other in the set (the port never joins a thread, so that POSIX does not
  reuse its identifier).  After a failed \<open>pthread_create\<close> the identifier it wrote is not defined.
\<close>

locale posix_thread_kernel =
  fixes api :: "('h, 'a, 'f, 'p, 'k) pthread_api"
    and runs :: "'k \<Rightarrow> 'h \<Rightarrow> ('f \<times> 'p option) option"
  assumes attr_runs:
      "pthread_attr_init api a k = Returns r k' \<Longrightarrow> runs k' = runs k"
      "pthread_attr_getschedparam api a k = Returns (r, sp) k' \<Longrightarrow> runs k' = runs k"
      "pthread_attr_setschedpolicy api a pol k = Returns r k' \<Longrightarrow> runs k' = runs k"
      "pthread_attr_setstacksize api a sz k = Returns r k' \<Longrightarrow> runs k' = runs k"
      "pthread_attr_setschedparam api a sp k = Returns r k' \<Longrightarrow> runs k' = runs k"
    and create_runs:
      "pthread_create api a f x k = Returns (0, tid) k' \<Longrightarrow>
       \<exists>h'. tid = Some h' \<and> runs k h' = None \<and> runs k' = (runs k)(h' \<mapsto> (f, x))"
      "pthread_create api a f x k = Returns (r, tid) k' \<Longrightarrow> r \<noteq> 0 \<Longrightarrow> runs k' = runs k"
    and cancel_runs:
      "pthread_cancel api h k = Returns 0 k' \<Longrightarrow> runs k' = (runs k)(h := None)"
      "pthread_cancel api h k = Returns r k' \<Longrightarrow> r \<noteq> 0 \<Longrightarrow> runs k' = runs k"
begin

lemma init_runs:
  assumes "pos_task_init_posix api stack_min False name (Some f) arg prio stack_size (t, n, k) = Returns e (t', n', k')"
  shows "if e = POS_OK then \<exists>h. pt_handle t' = Some h \<and> runs k h = None \<and> runs k' = (runs k)(h \<mapsto> (f, arg))
         else runs k' = runs k"
  using assms
  by (auto simp: pos_task_init_posix_def task_prog_defs map_posix_to_osal_error_OK
      split: outcome.splits prod.splits if_splits dest!: attr_runs create_runs)

lemma remove_runs:
  assumes "pos_task_remove_posix api False (t, n, k) = Returns e (t', n', k')"
  shows "t' = t \<and> (if e = POS_OK then \<exists>h. pt_handle t = Some h \<and> runs k' = (runs k)(h := None) else runs k' = runs k)"
  using assms
  by (auto simp: pos_task_remove_posix_def task_prog_defs map_posix_to_osal_error_OK
      split: outcome.splits option.splits if_splits dest!: cancel_runs)

end

sublocale posix_thread_kernel \<subseteq> posix_tasks: osal_tasks "task_step_posix api stack_min"
  "thread_ends pt_handle (\<lambda>(n, k). runs k)"
  "\<lambda>(ts, n, k) i. pt_handle (ts i)" "\<lambda>(ts, n, k). runs k" "\<lambda>i f a. (f, a)" "\<lambda>s w. True" for stack_min
proof (unfold_locales, goal_cases)
  case (1 s w i name func arg prio stack_size w')
  from on_obj_returns [OF 1(4) [unfolded task_step_posix.simps]] init_runs show ?case
    by (cases w; cases w') fastforce
next
  case (2 s w i name func arg prio stack_size e w')
  from on_obj_returns [OF 2(4) [unfolded task_step_posix.simps]] init_runs 2(5) show ?case
    by (cases w; cases w') fastforce
next
  case (3 s w i h w')
  from on_obj_returns [OF 3(4) [unfolded task_step_posix.simps]] remove_runs 3(3) show ?case
    by (cases w; cases w') fastforce
next
  case (4 s w i e w')
  from on_obj_returns [OF 4(3) [unfolded task_step_posix.simps]] remove_runs 4(4) show ?case
    by (cases w; cases w') fastforce
next
  case (5 s w i h w')
  then show ?case by (cases w; cases w') (auto simp: thread_ends_def)
qed

subsection \<open>FreeRTOS\<close>

text \<open>\<open>runs k h\<close> is the struct whose address task \<open>h\<close> gets as its parameter; it executes \<open>pos_task_dispatch\<close> on it.\<close>

locale freertos_task_kernel =
  fixes api :: "nat \<Rightarrow> ('h, 'w::len word, 'k) freertos_task_api"
    and runs :: "'k \<Rightarrow> 'h \<Rightarrow> nat option"
  assumes xcreate_runs:
      "xTaskCreate (api i) nm depth p k = Returns (pdPASS, tid) k' \<Longrightarrow>
       \<exists>h. tid = Some h \<and> runs k h = None \<and> runs k' = (runs k)(h \<mapsto> i)"
      "xTaskCreate (api i) nm depth p k = Returns (r, tid) k' \<Longrightarrow> r \<noteq> pdPASS \<Longrightarrow> runs k' = runs k"
begin

lemma init_runs:
  assumes "pos_task_init_freertos (api i) sizeof_base False name (Some f) arg prio stack_size (t, k) = Returns e (t', k')"
  shows "if e = POS_OK
         then ftk_func t' = Some f \<and> ftk_arg t' = arg \<and>
           (\<exists>h. ftk_handle t' = Some h \<and> runs k h = None \<and> runs k' = (runs k)(h \<mapsto> i))
         else runs k' = runs k"
  using assms
  by (auto simp: pos_task_init_freertos_def prog_defs split: outcome.splits prod.splits if_splits dest!: xcreate_runs)

end

sublocale freertos_task_kernel \<subseteq> freertos_tasks: osal_tasks "task_step_freertos api sizeof_base"
  "thread_ends ftk_handle runs"
  "\<lambda>(ts, k) i. ftk_handle (ts i)" "\<lambda>(ts, k). runs k" "\<lambda>i f a. i"
  "\<lambda>s (ts, k). \<forall>i f a. s i = Some (f, a) \<longrightarrow> ftk_func (ts i) = Some f \<and> ftk_arg (ts i) = a" for sizeof_base
proof (unfold_locales, goal_cases)
  case (1 s w i name func arg prio stack_size w')
  from on_obj_returns [OF 1(4) [unfolded task_step_freertos.simps]] init_runs 1(1) show ?case
    by (cases w; cases w') fastforce
next
  case (2 s w i name func arg prio stack_size e w')
  from on_obj_returns [OF 2(4) [unfolded task_step_freertos.simps]] init_runs 2(1,3,5) show ?case
    by (cases w; cases w') fastforce
next
  case (3 s w i h w')
  then show ?case by (simp add: c_stop_def)
next
  case (4 s w i e w')
  then show ?case by (simp add: c_stop_def)
next
  case (5 s w i h w')
  then show ?case by (cases w; cases w') (auto simp: thread_ends_def)
qed

subsection \<open>Zephyr\<close>

text \<open>The identifier of a thread is the address of its control block, a field of the struct.\<close>

locale zephyr_thread_kernel =
  fixes api :: "nat \<Rightarrow> ('h, 'f, 'p, 'k) zephyr_task_api"
    and block :: "nat \<Rightarrow> 'h"
    and runs :: "'k \<Rightarrow> 'h \<Rightarrow> ('f \<times> 'p option) option"
  assumes blocks: "inj block"
    and kcreate_runs:
      "k_thread_create (api i) st sz (Some f) a p k = Returns tid k' \<Longrightarrow>
       tid = Some (block i) \<and> runs k' = (runs k)(block i \<mapsto> (f, a))"
    and kname_runs: "k_thread_name_set (api i) h nm k = Returns r k' \<Longrightarrow> runs k' = runs k"
    and kabort_runs: "k_thread_abort (api i) (Some h) k = Returns u k' \<Longrightarrow> runs k' = (runs k)(h := None)"
begin

lemma init_runs:
  assumes "pos_task_init_zephyr (api i) name (Some f) arg prio stack_size (t, used, k) = Returns e (t', used', k')"
  shows "if e = POS_OK then zt_tid t' = Some (block i) \<and> runs k' = (runs k)(block i \<mapsto> (f, arg)) else k' = k \<and> t' = t"
  using assms
  by (auto simp: pos_task_init_zephyr_def set_used_def prog_defs split: outcome.splits option.splits if_splits
      dest!: kcreate_runs kname_runs)

lemma remove_runs:
  assumes "pos_task_remove_zephyr (api i) (t, used, k) = Returns e (t', used', k')" and "zt_tid t = Some h"
  shows "e = POS_OK \<and> t' = t \<and> runs k' = (runs k)(h := None)"
  using assms
  by (auto simp: pos_task_remove_zephyr_def set_used_def prog_defs split: outcome.splits option.splits if_splits
      dest!: kabort_runs)

end

sublocale zephyr_thread_kernel \<subseteq> zephyr_tasks: osal_tasks "task_step_zephyr api"
  "thread_ends zt_tid (\<lambda>(used, k). runs k)"
  "\<lambda>(ts, used, k) i. zt_tid (ts i)" "\<lambda>(ts, used, k). runs k" "\<lambda>i f a. (f, a)"
  "\<lambda>s (ts, used, k). \<forall>i. s i \<noteq> None \<longrightarrow> zt_tid (ts i) = Some (block i)"
proof (unfold_locales, goal_cases)
  case (1 s w i name func arg prio stack_size w')
  obtain ts used k where w: "w = (ts, used, k)" by (cases w) auto
  have "runs k (block i) = None"
  proof (rule ccontr)
    assume "runs k (block i) \<noteq> None"
    then obtain e where "runs k (block i) = Some e" by blast
    then obtain j where j: "s j \<noteq> None" "zt_tid (ts j) = Some (block i)"
      using tasks_match_owner [OF 1(2), of "block i" e] w by auto
    then have "zt_tid (ts j) = Some (block j)" using 1(1) w by simp
    then have "j = i" using j(2) injD [OF blocks, of j i] by simp
    then show False using j(1) 1(3) by simp
  qed
  with on_obj_returns [OF 1(4) [unfolded task_step_zephyr.simps]] init_runs 1(1) show ?case
    by (cases w') (fastforce simp: w)
next
  case (2 s w i name func arg prio stack_size e w')
  from on_obj_returns [OF 2(4) [unfolded task_step_zephyr.simps]] init_runs 2(1,3,5) show ?case
    by (cases w; cases w') fastforce
next
  case (3 s w i h w')
  from on_obj_returns [OF 3(4) [unfolded task_step_zephyr.simps]] remove_runs 3(1,3) show ?case
    by (cases w; cases w') fastforce
next
  case (4 s w i e w')
  from on_obj_returns [OF 4(3) [unfolded task_step_zephyr.simps]] remove_runs 4(1,2,4) show ?case
    by (cases w; cases w') fastforce
next
  case (5 s w i h w')
  then show ?case by (cases w; cases w') (auto simp: thread_ends_def)
qed

subsection \<open>RT-Thread\<close>

text \<open>A thread is created suspended (\<open>made\<close>) and runs once it is started.\<close>

locale rtt_thread_kernel =
  fixes api :: "('h, 'f, 'p, 'k) rtt_task_api"
    and made :: "'k \<Rightarrow> 'h \<Rightarrow> ('f \<times> 'p option) option"
    and runs :: "'k \<Rightarrow> 'h \<Rightarrow> ('f \<times> 'p option) option"
  assumes rcreate_runs:
      "rt_thread_create api nm f a sz p n k = Returns tid k' \<Longrightarrow> runs k' = runs k"
      "rt_thread_create api nm f a sz p n k = Returns (Some h) k' \<Longrightarrow> runs k h = None \<and> made k' h = Some (f, a)"
    and rstartup_runs:
      "made k h = Some e \<Longrightarrow> rt_thread_startup api h k = Returns RT_EOK k' \<Longrightarrow> runs k' = (runs k)(h \<mapsto> e)"
      "rt_thread_startup api h k = Returns r k' \<Longrightarrow> r \<noteq> RT_EOK \<Longrightarrow> runs k' = runs k"
    and rdelete_runs:
      "rt_thread_delete api (Some h) k = Returns RT_EOK k' \<Longrightarrow> runs k' = (runs k)(h := None)"
      "rt_thread_delete api (Some h) k = Returns r k' \<Longrightarrow> r \<noteq> RT_EOK \<Longrightarrow> runs k' = runs k"
begin

lemma init_runs:
  assumes "pos_task_init_rtt api False name (Some f) arg prio stack_size (t, k) = Returns e (t', k')"
  shows "if e = POS_OK then \<exists>h. rtk_handle t' = Some h \<and> runs k h = None \<and> runs k' = (runs k)(h \<mapsto> (f, arg))
         else runs k' = runs k"
proof -
  obtain h k1 where c: "rt_thread_create api name f arg stack_size prio 10 k = Returns h k1"
    using assms by (auto simp: pos_task_init_rtt_def prog_defs split: outcome.splits)
  show ?thesis
  proof (cases h)
    case None
    then show ?thesis using assms c rcreate_runs(1) [OF c] by (auto simp: pos_task_init_rtt_def prog_defs)
  next
    case (Some x)
    note cr = rcreate_runs(1) [OF c] rcreate_runs(2) [OF c [unfolded Some]]
    obtain r k2 where st: "rt_thread_startup api x k1 = Returns r k2"
      using assms c Some by (auto simp: pos_task_init_rtt_def prog_defs split: outcome.splits)
    then show ?thesis
      using assms c Some cr rstartup_runs(1) [of k1 x "(f, arg)" k2] rstartup_runs(2) [OF st]
      by (cases "r = RT_EOK") (auto simp: pos_task_init_rtt_def prog_defs)
  qed
qed

lemma remove_runs:
  assumes "pos_task_remove_rtt api (t, k) = Returns e (t', k')" and "rtk_handle t = Some h"
  shows "t' = t \<and> runs k' = (if e = POS_OK then (runs k)(h := None) else runs k)"
  using assms
  by (auto simp: pos_task_remove_rtt_def prog_defs split: outcome.splits if_splits dest: rdelete_runs)

end

sublocale rtt_thread_kernel \<subseteq> rtt_tasks: osal_tasks "task_step_rtt api"
  "thread_ends rtk_handle runs"
  "\<lambda>(ts, k) i. rtk_handle (ts i)" "\<lambda>(ts, k). runs k" "\<lambda>i f a. (f, a)"
  "\<lambda>s (ts, k). \<forall>i. s i \<noteq> None \<longrightarrow> rtk_handle (ts i) \<noteq> None"
proof (unfold_locales, goal_cases)
  case (1 s w i name func arg prio stack_size w')
  from on_obj_returns [OF 1(4) [unfolded task_step_rtt.simps]] init_runs 1(1) show ?case
    by (cases w; cases w') fastforce
next
  case (2 s w i name func arg prio stack_size e w')
  from on_obj_returns [OF 2(4) [unfolded task_step_rtt.simps]] init_runs 2(1,3,5) show ?case
    by (cases w; cases w') fastforce
next
  case (3 s w i h w')
  from on_obj_returns [OF 3(4) [unfolded task_step_rtt.simps]] remove_runs 3(1,3) show ?case
    by (cases w; cases w') fastforce
next
  case (4 s w i e w')
  from on_obj_returns [OF 4(3) [unfolded task_step_rtt.simps]] remove_runs 4(1,2,4) show ?case
    by (cases w; cases w') fastforce
next
  case (5 s w i h w')
  then show ?case by (cases w; cases w') (auto simp: thread_ends_def)
qed

section \<open>The documented tasks are the threads\<close>

context posix_thread_kernel
begin

lemma tasks_documented:
  assumes "tk_reach (task_step_posix api stack_min) (thread_ends pt_handle (\<lambda>(n, k). runs k)) (ts0, n0, k0) s w" and "\<forall>h. runs k0 h = None"
  shows "tasks_match (\<lambda>(ts, n, k) i. pt_handle (ts i)) (\<lambda>(ts, n, k). runs k) (\<lambda>i f a. (f, a)) s w"
  using posix_tasks.tk_reach_matched [OF assms(1)] assms(2) by simp

end

context freertos_task_kernel
begin

lemma tasks_documented:
  assumes "tk_reach (task_step_freertos api sizeof_base) (thread_ends ftk_handle runs) (ts0, k0) s w" and "\<forall>h. runs k0 h = None"
  shows "(\<forall>i f a. s i = Some (f, a) \<longrightarrow> ftk_func (fst w i) = Some f \<and> ftk_arg (fst w i) = a) \<and>
         tasks_match (\<lambda>(ts, k) i. ftk_handle (ts i)) (\<lambda>(ts, k). runs k) (\<lambda>i f a. i) s w"
  using freertos_tasks.tk_reach_matched [OF assms(1)] assms(2) by (simp add: case_prod_unfold)

end

context zephyr_thread_kernel
begin

lemma tasks_documented:
  assumes "tk_reach (task_step_zephyr api) (thread_ends zt_tid (\<lambda>(used, k). runs k)) (ts0, used0, k0) s w" and "\<forall>h. runs k0 h = None"
  shows "tasks_match (\<lambda>(ts, used, k) i. zt_tid (ts i)) (\<lambda>(ts, used, k). runs k) (\<lambda>i f a. (f, a)) s w"
  using zephyr_tasks.tk_reach_matched [OF assms(1)] assms(2) by simp

end

context rtt_thread_kernel
begin

lemma tasks_documented:
  assumes "tk_reach (task_step_rtt api) (thread_ends rtk_handle runs) (ts0, k0) s w" and "\<forall>h. runs k0 h = None"
  shows "tasks_match (\<lambda>(ts, k) i. rtk_handle (ts i)) (\<lambda>(ts, k). runs k) (\<lambda>i f a. (f, a)) s w"
  using rtt_tasks.tk_reach_matched [OF assms(1)] assms(2) by simp

end

section \<open>Interpretations\<close>

lemmas rth_defs = rth_add_def rth_end_def rth_none_def

interpretation ref_pthreads: posix_thread_kernel ref_pthreads rth_runs
  by unfold_locales (auto simp: ref_pthreads_def rth_defs split: if_splits)

interpretation ref_ftasks: freertos_task_kernel ref_ftasks rth_runs
  by unfold_locales (auto simp: ref_ftasks_def rth_defs split: if_splits)

interpretation ref_zthreads: zephyr_thread_kernel ref_zthreads id rth_runs
  by unfold_locales (auto simp: ref_zthreads_def rth_defs)

interpretation ref_rthreads: rtt_thread_kernel ref_rthreads rth_made rth_runs
  by unfold_locales (auto simp: ref_rthreads_def rth_defs split: if_splits)

section \<open>Properties\<close>

lemma dispatch_runs:
  "ftk_func t = Some f \<Longrightarrow> ftk_arg t = a \<Longrightarrow>
   pos_task_dispatch_freertos run_func False (t, k) = kcall (run_func f a) (t, k)"
  by (simp add: pos_task_dispatch_freertos_def assert_handle_def prog_defs)

lemma rth_none_runs: "\<forall>h. rth_runs rth_none h = None"
  by (simp add: rth_none_def)

text \<open>A task of the reference kernels: created by an empty system.\<close>

lemma tk_reach_first:
  assumes "step (TInit i name (Some f) a p n) w0 = Returns POS_OK w"
  shows "tk_reach step fin w0 [i \<mapsto> (f, a)] w"
proof -
  have "tk_reach step fin w0 ((\<lambda>_. None)(i := pos_task_init_doc f a POS_OK None)) w"
    using tk_init [where s = "\<lambda>_. None" and step = step, OF tk_begin refl assms] by simp
  then show ?thesis by (simp add: pos_task_init_doc_def)
qed

lemma ref_tasks_created:
  "\<exists>w. tk_reach (task_step_posix ref_pthreads 16384) (thread_ends pt_handle (\<lambda>(n, k). rth_runs k)) (\<lambda>_. ref_task, 0, rth_none) [3 \<mapsto> (7, None)] w"
  "\<exists>w. tk_reach (task_step_freertos ref_ftasks 4) (thread_ends ftk_handle rth_runs)
     (\<lambda>_. \<lparr>ftk_handle = None, ftk_func = None, ftk_arg = None\<rparr>, rth_none) [3 \<mapsto> (7 :: nat, None :: nat option)] w"
  "\<exists>w. tk_reach (task_step_zephyr ref_zthreads) (thread_ends zt_tid (\<lambda>(used, k). rth_runs k))
     (\<lambda>_. \<lparr>zt_tid = None, zt_stack = None\<rparr>, False # replicate 9 False, rth_none) [3 \<mapsto> (7, None)] w"
  "\<exists>w. tk_reach (task_step_rtt ref_rthreads) (thread_ends rtk_handle rth_runs)
     (\<lambda>_. \<lparr>rtk_handle = None, rtk_func = None, rtk_arg = None\<rparr>, rth_none) [3 \<mapsto> (7, None)] w"
  subgoal
    by (rule exI, rule tk_reach_first [where name = None and p = 1 and n = 512])
      (simp add: on_obj_def pos_task_init_posix_def task_prog_defs ref_pthreads_def rth_defs clamp_stack_size_def ref_task_def)
  subgoal
    by (rule exI, rule tk_reach_first [where name = None and p = 1 and n = 512])
      (simp add: on_obj_def pos_task_init_freertos_def prog_defs ref_ftasks_def rth_defs)
  subgoal
    by (rule exI, rule tk_reach_first [where name = None and p = 1 and n = 512])
      (simp add: on_obj_def pos_task_init_zephyr_def set_used_def prog_defs ref_zthreads_def rth_defs STACK_SIZE_def)
  subgoal
    by (rule exI, rule tk_reach_first [where name = None and p = 1 and n = 512])
      (simp add: on_obj_def pos_task_init_rtt_def prog_defs ref_rthreads_def rth_defs)
  done

text \<open>C20. Tasks on the four ports, against the documentation of \<open>os_task.h\<close>.  Take any sequence of \<open>pos_task_init\<close> calls on structs not
  in use and, except on FreeRTOS, which has no such function, of \<open>pos_task_remove\<close> calls on tasks that exist; any call can fail,
  and tasks can end by themselves in between.  Then the threads of the kernel are exactly the
  tasks that the results of the calls report: each task whose initialisation succeeded, that was not
  removed and has not ended has one thread of its own, which executes its function with its argument, and there is no other
  thread.  The threads counted on POSIX are those not asked to end, since \<open>pthread_cancel\<close> only requests it.  On FreeRTOS the
  thread calls the function through \<open>pos_task_dispatch\<close>.\<close>

theorem osal_task_threads:
  assumes "posix_thread_kernel papi pruns" and "\<forall>h. pruns pk h = None"
    and "tk_reach (task_step_posix papi stack_min) (thread_ends pt_handle (\<lambda>(n, k). pruns k)) (pts, pn, pk) ps pw"
    and "freertos_task_kernel fapi fruns" and "\<forall>h. fruns fk h = None"
    and "tk_reach (task_step_freertos fapi sizeof_base) (thread_ends ftk_handle fruns) (fts, fk) fs fw"
    and "zephyr_thread_kernel zapi zblock zruns" and "\<forall>h. zruns zk h = None"
    and "tk_reach (task_step_zephyr zapi) (thread_ends zt_tid (\<lambda>(used, k). zruns k)) (zts, used, zk) zs zw"
    and "rtt_thread_kernel rapi made rruns" and "\<forall>h. rruns rk h = None"
    and "tk_reach (task_step_rtt rapi) (thread_ends rtk_handle rruns) (rts, rk) rs rw"
  shows "tasks_match (\<lambda>(ts, n, k) i. pt_handle (ts i)) (\<lambda>(ts, n, k). pruns k) (\<lambda>i f a. (f, a)) ps pw \<and>
         tasks_match (\<lambda>(ts, k) i. ftk_handle (ts i)) (\<lambda>(ts, k). fruns k) (\<lambda>i f a. i) fs fw \<and>
         (\<forall>i f a. fs i = Some (f, a) \<longrightarrow>
            pos_task_dispatch_freertos run_func False (fst fw i, snd fw) = kcall (run_func f a) (fst fw i, snd fw)) \<and>
         tasks_match (\<lambda>(ts, used, k) i. zt_tid (ts i)) (\<lambda>(ts, used, k). zruns k) (\<lambda>i f a. (f, a)) zs zw \<and>
         tasks_match (\<lambda>(ts, k) i. rtk_handle (ts i)) (\<lambda>(ts, k). rruns k) (\<lambda>i f a. (f, a)) rs rw"
proof -
  show ?thesis
    using posix_thread_kernel.tasks_documented [OF assms(1,3,2)] freertos_task_kernel.tasks_documented [OF assms(4,6,5)]
      zephyr_thread_kernel.tasks_documented [OF assms(7,9,8)] rtt_thread_kernel.tasks_documented [OF assms(10,12,11)]
      dispatch_runs [of "fst fw _" _ _ run_func "snd fw"]
    by blast
qed

theorem osal_task_threads_witness:
  "\<exists>pw fw zw rw.
     tk_reach (task_step_posix ref_pthreads 16384) (thread_ends pt_handle (\<lambda>(n, k). rth_runs k)) (\<lambda>_. ref_task, 0, rth_none) [3 \<mapsto> (7, None)] pw \<and>
     tasks_match (\<lambda>(ts, n, k) i. pt_handle (ts i)) (\<lambda>(ts, n, k). rth_runs k) (\<lambda>i f a. (f, a)) [3 \<mapsto> (7, None)] pw \<and>
     tk_reach (task_step_freertos ref_ftasks 4) (thread_ends ftk_handle rth_runs)
       (\<lambda>_. \<lparr>ftk_handle = None, ftk_func = None, ftk_arg = None\<rparr>, rth_none) [3 \<mapsto> (7 :: nat, None :: nat option)] fw \<and>
     tasks_match (\<lambda>(ts, k) i. ftk_handle (ts i)) (\<lambda>(ts, k). rth_runs k) (\<lambda>i f a. i) [3 \<mapsto> (7 :: nat, None :: nat option)] fw \<and>
     tk_reach (task_step_zephyr ref_zthreads) (thread_ends zt_tid (\<lambda>(used, k). rth_runs k))
       (\<lambda>_. \<lparr>zt_tid = None, zt_stack = None\<rparr>, False # replicate 9 False, rth_none) [3 \<mapsto> (7, None)] zw \<and>
     tasks_match (\<lambda>(ts, used, k) i. zt_tid (ts i)) (\<lambda>(ts, used, k). rth_runs k) (\<lambda>i f a. (f, a)) [3 \<mapsto> (7, None)] zw \<and>
     tk_reach (task_step_rtt ref_rthreads) (thread_ends rtk_handle rth_runs)
       (\<lambda>_. \<lparr>rtk_handle = None, rtk_func = None, rtk_arg = None\<rparr>, rth_none) [3 \<mapsto> (7, None)] rw \<and>
     tasks_match (\<lambda>(ts, k) i. rtk_handle (ts i)) (\<lambda>(ts, k). rth_runs k) (\<lambda>i f a. (f, a)) [3 \<mapsto> (7, None)] rw"
proof -
  obtain pw fw zw rw where
      p: "tk_reach (task_step_posix ref_pthreads 16384) (thread_ends pt_handle (\<lambda>(n, k). rth_runs k)) (\<lambda>_. ref_task, 0, rth_none) [3 \<mapsto> (7, None)] pw" and
      f: "tk_reach (task_step_freertos ref_ftasks 4) (thread_ends ftk_handle rth_runs)
        (\<lambda>_. \<lparr>ftk_handle = None, ftk_func = None, ftk_arg = None\<rparr>, rth_none) [3 \<mapsto> (7 :: nat, None :: nat option)] fw" and
      z: "tk_reach (task_step_zephyr ref_zthreads) (thread_ends zt_tid (\<lambda>(used, k). rth_runs k))
        (\<lambda>_. \<lparr>zt_tid = None, zt_stack = None\<rparr>, False # replicate 9 False, rth_none) [3 \<mapsto> (7, None)] zw" and
      r: "tk_reach (task_step_rtt ref_rthreads) (thread_ends rtk_handle rth_runs)
        (\<lambda>_. \<lparr>rtk_handle = None, rtk_func = None, rtk_arg = None\<rparr>, rth_none) [3 \<mapsto> (7, None)] rw"
    using ref_tasks_created by metis
  from osal_task_threads [OF ref_pthreads.posix_thread_kernel_axioms rth_none_runs p ref_ftasks.freertos_task_kernel_axioms rth_none_runs f
      ref_zthreads.zephyr_thread_kernel_axioms rth_none_runs z ref_rthreads.rtt_thread_kernel_axioms rth_none_runs r] p f z r
  show ?thesis by blast
qed

end
