(* ===== verification/Zephyr_Task_Threads.thy ===== *)
theory Zephyr_Task_Threads
  imports Zephyr_Task
begin

text \<open>
  \<open>pos_task_init\<close> and \<open>pos_task_remove\<close> of the Zephyr port called from several threads at once.  The stacks are handed
  out by the static array \<open>s_stack_used\<close>, which these functions read and write without a lock, so every access to it, to
  the struct and to the kernel is a step of its own here, and the steps of calls on different task objects are
  interleaved arbitrarily.  With \<open>serial\<close> a program makes one call of \<open>pos_task_init\<close> at a time, for example
  under a mutex of its own; removals run at any time.
\<close>

section \<open>Definitions\<close>

text \<open>Where the call on a task object is: before the named step.  \<open>Z_Live\<close>: the task exists and no call is under way.\<close>

datatype zt_pc =
    Z_None
  | Z_Search nat
  | Z_Mark nat
  | Z_Store nat
  | Z_Create nat
  | Z_Unmark nat
  | Z_Live
  | Z_Abort
  | Z_Free

text \<open>
  \<open>zp_used\<close> is \<open>s_stack_used\<close>, \<open>zp_stack\<close> the field \<open>stack\<close> of each struct, and \<open>zp_runs\<close> the stack on which the kernel
  runs the thread of a task.
\<close>

record zt_pool =
  zp_used :: "bool list"
  zp_stack :: "nat \<Rightarrow> nat option"
  zp_runs :: "nat \<Rightarrow> nat option"
  zp_pcs :: "nat \<Rightarrow> zt_pc"

definition zp_goto :: "nat \<Rightarrow> zt_pc \<Rightarrow> zt_pool \<Rightarrow> zt_pool" where
  "zp_goto i pc s = s\<lparr>zp_pcs := (zp_pcs s)(i := pc)\<rparr>"

text \<open>Inside \<open>pos_task_init\<close>.\<close>

fun in_init :: "zt_pc \<Rightarrow> bool" where
  "in_init (Z_Search n) = True"
| "in_init (Z_Mark n) = True"
| "in_init (Z_Store n) = True"
| "in_init (Z_Create n) = True"
| "in_init (Z_Unmark n) = True"
| "in_init _ = False"

text \<open>One step of the call on object \<open>i\<close>.  \<open>k_thread_create\<close> may succeed or return a null identifier.\<close>

inductive zp_step :: "nat \<Rightarrow> zt_pool \<Rightarrow> zt_pool \<Rightarrow> bool" where
  search_next:
    "zp_pcs s i = Z_Search n \<Longrightarrow> n < MAX_TASKS \<Longrightarrow> zp_used s ! n \<Longrightarrow> zp_step i s (zp_goto i (Z_Search (Suc n)) s)"
| search_found:
    "zp_pcs s i = Z_Search n \<Longrightarrow> n < MAX_TASKS \<Longrightarrow> \<not> zp_used s ! n \<Longrightarrow> zp_step i s (zp_goto i (Z_Mark n) s)"
| search_none:
    "zp_pcs s i = Z_Search n \<Longrightarrow> \<not> n < MAX_TASKS \<Longrightarrow> zp_step i s (zp_goto i Z_None s)"
| mark:
    "zp_pcs s i = Z_Mark n \<Longrightarrow> zp_step i s (zp_goto i (Z_Store n) (s\<lparr>zp_used := (zp_used s)[n := True]\<rparr>))"
| store_stack:
    "zp_pcs s i = Z_Store n \<Longrightarrow> zp_step i s (zp_goto i (Z_Create n) (s\<lparr>zp_stack := (zp_stack s)(i := Some n)\<rparr>))"
| create_ok:
    "zp_pcs s i = Z_Create n \<Longrightarrow> zp_step i s (zp_goto i Z_Live (s\<lparr>zp_runs := (zp_runs s)(i := zp_stack s i)\<rparr>))"
| create_fails:
    "zp_pcs s i = Z_Create n \<Longrightarrow> zp_step i s (zp_goto i (Z_Unmark n) s)"
| unmark:
    "zp_pcs s i = Z_Unmark n \<Longrightarrow> zp_step i s (zp_goto i Z_None (s\<lparr>zp_used := (zp_used s)[n := False]\<rparr>))"
| abort:
    "zp_pcs s i = Z_Abort \<Longrightarrow> zp_step i s (zp_goto i Z_Free (s\<lparr>zp_runs := (zp_runs s)(i := None)\<rparr>))"
| free:
    "zp_pcs s i = Z_Free \<Longrightarrow> zp_stack s i = Some n \<Longrightarrow>
     zp_step i s (zp_goto i Z_None (s\<lparr>zp_used := (zp_used s)[n := False]\<rparr>))"

text \<open>Reachable states; a task object is initialised only when it holds no task, and removed only when it holds one.\<close>

inductive zp_reach :: "bool \<Rightarrow> zt_pool \<Rightarrow> bool" for serial where
  zp_start:
    "zp_reach serial \<lparr>zp_used = replicate MAX_TASKS False, zp_stack = st, zp_runs = \<lambda>_. None, zp_pcs = \<lambda>_. Z_None\<rparr>"
| zp_enter_init:
    "zp_reach serial s \<Longrightarrow> zp_pcs s i = Z_None \<Longrightarrow> serial \<longrightarrow> (\<forall>j. \<not> in_init (zp_pcs s j)) \<Longrightarrow>
     zp_reach serial (zp_goto i (Z_Search 0) s)"
| zp_enter_remove:
    "zp_reach serial s \<Longrightarrow> zp_pcs s i = Z_Live \<Longrightarrow> zp_reach serial (zp_goto i Z_Abort s)"
| zp_work: "zp_reach serial s \<Longrightarrow> zp_step i s s' \<Longrightarrow> zp_reach serial s'"

text \<open>The stack that a task object claims.\<close>

fun claim :: "zt_pc \<Rightarrow> nat option \<Rightarrow> nat option" where
  "claim (Z_Store n) st = Some n"
| "claim (Z_Create n) st = Some n"
| "claim (Z_Unmark n) st = Some n"
| "claim Z_Live st = st"
| "claim Z_Abort st = st"
| "claim Z_Free st = st"
| "claim _ st = None"

fun holds_stack :: "zt_pc \<Rightarrow> bool" where
  "holds_stack Z_Live = True"
| "holds_stack Z_Abort = True"
| "holds_stack Z_Free = True"
| "holds_stack _ = False"

definition claims :: "zt_pool \<Rightarrow> nat \<Rightarrow> nat option" where
  "claims s i = claim (zp_pcs s i) (zp_stack s i)"

text \<open>Every claimed stack is marked, every marked one claimed, by one object only.\<close>

definition pool_ok :: "bool list \<Rightarrow> (nat \<Rightarrow> nat option) \<Rightarrow> bool" where
  "pool_ok used cl \<longleftrightarrow>
     length used = MAX_TASKS \<and> (\<forall>n. n < MAX_TASKS \<and> used ! n \<longleftrightarrow> (\<exists>i. cl i = Some n)) \<and>
     (\<forall>i j n. cl i = Some n \<and> cl j = Some n \<longrightarrow> i = j)"

definition obj_ok :: "bool list \<Rightarrow> zt_pc \<Rightarrow> nat option \<Rightarrow> nat option \<Rightarrow> bool" where
  "obj_ok used pc st run \<longleftrightarrow>
     (\<forall>n. pc = Z_Mark n \<longrightarrow> n < MAX_TASKS \<and> \<not> used ! n) \<and> (\<forall>n. pc = Z_Create n \<longrightarrow> st = Some n) \<and>
     (holds_stack pc \<longrightarrow> st \<noteq> None) \<and> (run \<noteq> None \<longrightarrow> run = st \<and> (pc = Z_Live \<or> pc = Z_Abort))"

definition zp_inv :: "zt_pool \<Rightarrow> bool" where
  "zp_inv s \<longleftrightarrow>
     pool_ok (zp_used s) (claims s) \<and> (\<forall>i j. in_init (zp_pcs s i) \<and> in_init (zp_pcs s j) \<longrightarrow> i = j) \<and>
     (\<forall>i. obj_ok (zp_used s) (zp_pcs s i) (zp_stack s i) (zp_runs s i))"

section \<open>The invariant\<close>

lemma zp_goto_simps [simp]:
  "zp_used (zp_goto i pc s) = zp_used s" "zp_stack (zp_goto i pc s) = zp_stack s" "zp_runs (zp_goto i pc s) = zp_runs s"
  "zp_pcs (zp_goto i pc s) = (zp_pcs s)(i := pc)"
  by (simp_all add: zp_goto_def)

lemma clear_nth: "us[n := False] ! m \<Longrightarrow> us ! m"
  by (cases "n < length us"; cases "m = n") (auto simp: list_update_beyond)

lemma pool_add:
  assumes "pool_ok used cl" and "cl i = None" and "n < MAX_TASKS" and "\<not> used ! n"
  shows "pool_ok (used[n := True]) (cl(i := Some n))"
proof -
  have len: "length used = MAX_TASKS" and use: "m < MAX_TASKS \<and> used ! m \<longleftrightarrow> (\<exists>j. cl j = Some m)" for m
    using assms(1) by (auto simp: pool_ok_def)
  have inj: "cl j = Some m \<Longrightarrow> cl j' = Some m \<Longrightarrow> j = j'" for j j' m using assms(1) unfolding pool_ok_def by blast
  have free: "cl j \<noteq> Some n" for j using use [of n] assms(4) by blast
  have "m < MAX_TASKS \<and> (used[n := True]) ! m \<longleftrightarrow> (\<exists>j. (cl(i := Some n)) j = Some m)" for m
  proof (cases "m = n")
    case True
    then show ?thesis using assms(3) len by auto
  next
    case False
    then have "(\<exists>j. (cl(i := Some n)) j = Some m) \<longleftrightarrow> (\<exists>j. cl j = Some m)"
      using assms(2) by (metis fun_upd_apply option.distinct(1) option.inject)
    then show ?thesis using use [of m] False by (simp add: nth_list_update)
  qed
  then show ?thesis using len inj free by (auto simp: pool_ok_def)
qed

lemma pool_drop:
  assumes "pool_ok used cl" and "cl i = Some n"
  shows "pool_ok (used[n := False]) (cl(i := None))"
proof -
  have len: "length used = MAX_TASKS" and use: "m < MAX_TASKS \<and> used ! m \<longleftrightarrow> (\<exists>j. cl j = Some m)" for m
    using assms(1) by (auto simp: pool_ok_def)
  have inj: "cl j = Some m \<Longrightarrow> cl j' = Some m \<Longrightarrow> j = j'" for j j' m using assms(1) unfolding pool_ok_def by blast
  have "m < MAX_TASKS \<and> (used[n := False]) ! m \<longleftrightarrow> (\<exists>j. (cl(i := None)) j = Some m)" for m
  proof (cases "m = n")
    case True
    then show ?thesis using len inj [OF _ assms(2)] by (auto simp: nth_list_update)
  next
    case False
    then have "(\<exists>j. (cl(i := None)) j = Some m) \<longleftrightarrow> (\<exists>j. cl j = Some m)"
      using assms(2) by (metis fun_upd_apply option.distinct(1) option.inject)
    then show ?thesis using use [of m] False by (simp add: nth_list_update)
  qed
  moreover have "j = j'" if "(cl(i := None)) j = Some m" "(cl(i := None)) j' = Some m" for j j' m
    using that inj by (auto split: if_splits)
  ultimately show ?thesis using len unfolding pool_ok_def length_list_update by blast
qed

text \<open>A step of object \<open>i\<close> changes only its own fields and the flags.\<close>

lemma zp_inv_frame:
  assumes inv: "zp_inv s" and pcs: "zp_pcs s' = (zp_pcs s)(i := pc)"
    and other: "\<And>j. j \<noteq> i \<Longrightarrow> zp_stack s' j = zp_stack s j \<and> zp_runs s' j = zp_runs s j"
    and pool: "pool_ok (zp_used s') ((claims s)(i := claim pc (zp_stack s' i)))"
    and obj: "obj_ok (zp_used s') pc (zp_stack s' i) (zp_runs s' i)"
    and init: "in_init pc \<Longrightarrow> \<forall>j. j \<noteq> i \<longrightarrow> \<not> in_init (zp_pcs s j)"
    and mark: "\<And>j n. j \<noteq> i \<Longrightarrow> zp_pcs s j = Z_Mark n \<Longrightarrow> \<not> zp_used s' ! n"
  shows "zp_inv s'"
proof -
  have "claims s' = (claims s)(i := claim pc (zp_stack s' i))"
    using pcs other by (auto simp: claims_def fun_eq_iff)
  moreover have "obj_ok (zp_used s') (zp_pcs s' j) (zp_stack s' j) (zp_runs s' j)" for j
  proof (cases "j = i")
    case False
    have "obj_ok (zp_used s) (zp_pcs s j) (zp_stack s j) (zp_runs s j)" using inv by (simp add: zp_inv_def)
    then show ?thesis using False pcs other [OF False] mark [OF False] by (simp add: obj_ok_def)
  qed (use pcs obj in simp)
  moreover have "j = j'" if "in_init (zp_pcs s' j)" "in_init (zp_pcs s' j')" for j j'
  proof -
    have "in_init (zp_pcs s j) \<Longrightarrow> in_init (zp_pcs s j') \<Longrightarrow> j = j'" using inv by (auto simp: zp_inv_def)
    then show ?thesis using that init pcs by (auto split: if_splits)
  qed
  ultimately show ?thesis using pool by (auto simp: zp_inv_def)
qed

lemma zp_step_inv:
  assumes st: "zp_step i s s'" and inv: "zp_inv s"
  shows "zp_inv s'"
proof -
  have pool: "pool_ok (zp_used s) (claims s)" and len: "length (zp_used s) = MAX_TASKS"
      and obj: "obj_ok (zp_used s) (zp_pcs s j) (zp_stack s j) (zp_runs s j)" for j
    using inv by (auto simp: zp_inv_def pool_ok_def)
  have alone: "\<not> in_init (zp_pcs s j)" if "in_init (zp_pcs s i)" "j \<noteq> i" for j
    using inv that by (auto simp: zp_inv_def)
  have m: "\<not> zp_used s ! n" if "zp_pcs s j = Z_Mark n" for j n using obj [of j] that by (simp add: obj_ok_def)
  have mi: False if "zp_pcs s j = Z_Mark n" "in_init (zp_pcs s i)" "j \<noteq> i" for j n using alone [OF that(2,3)] that(1) by simp
  have same: "(claims s)(i := c) = claims s" if "claims s i = c" for c using that by auto
  show ?thesis
    using st
  proof cases
    case (search_next n)
    then show ?thesis using pool obj [of i] alone m
      by (intro zp_inv_frame [OF inv, of s' i "Z_Search (Suc n)"]) (auto simp: same claims_def obj_ok_def)
  next
    case (search_found n)
    then show ?thesis using pool obj [of i] alone m
      by (intro zp_inv_frame [OF inv, of s' i "Z_Mark n"]) (auto simp: same claims_def obj_ok_def)
  next
    case (search_none n)
    then show ?thesis using pool obj [of i] alone m
      by (intro zp_inv_frame [OF inv, of s' i Z_None]) (auto simp: same claims_def obj_ok_def)
  next
    case (mark n)
    have "pool_ok ((zp_used s)[n := True]) ((claims s)(i := Some n))"
      using obj [of i] mark by (intro pool_add [OF pool]) (auto simp: obj_ok_def claims_def)
    then show ?thesis using mark obj [of i] alone
      by (intro zp_inv_frame [OF inv, of s' i "Z_Store n"]) (auto simp: obj_ok_def dest: mi)
  next
    case (store_stack n)
    then show ?thesis using pool obj [of i] alone m
      by (intro zp_inv_frame [OF inv, of s' i "Z_Create n"]) (auto simp: same claims_def obj_ok_def)
  next
    case (create_ok n)
    then show ?thesis using pool obj [of i] alone m
      by (intro zp_inv_frame [OF inv, of s' i Z_Live]) (auto simp: same claims_def obj_ok_def)
  next
    case (create_fails n)
    then show ?thesis using pool obj [of i] alone m
      by (intro zp_inv_frame [OF inv, of s' i "Z_Unmark n"]) (auto simp: same claims_def obj_ok_def)
  next
    case (unmark n)
    have "pool_ok ((zp_used s)[n := False]) ((claims s)(i := None))"
      using unmark by (intro pool_drop [OF pool]) (simp add: claims_def)
    then show ?thesis using unmark obj [of i] alone m
      by (intro zp_inv_frame [OF inv, of s' i Z_None]) (auto simp: obj_ok_def dest: clear_nth)
  next
    case abort
    then show ?thesis using pool obj [of i] alone m
      by (intro zp_inv_frame [OF inv, of s' i Z_Free]) (auto simp: same claims_def obj_ok_def)
  next
    case (free n)
    have "pool_ok ((zp_used s)[n := False]) ((claims s)(i := None))"
      using free by (intro pool_drop [OF pool]) (simp add: claims_def)
    then show ?thesis using free obj [of i] alone m
      by (intro zp_inv_frame [OF inv, of s' i Z_None]) (auto simp: obj_ok_def dest: clear_nth)
  qed
qed

lemma zp_reach_inv:
  assumes "zp_reach True s"
  shows "zp_inv s"
  using assms
proof (induction rule: zp_reach.induct)
  case (zp_start st)
  then show ?case by (simp add: zp_inv_def pool_ok_def obj_ok_def claims_def)
next
  case (zp_enter_init s i)
  have "obj_ok (zp_used s) (zp_pcs s j) (zp_stack s j) (zp_runs s j)" for j using zp_enter_init.IH by (simp add: zp_inv_def)
  note ob = this and pool = zp_enter_init.IH [unfolded zp_inv_def, THEN conjunct1]
  have "(claims s)(i := None) = claims s" using zp_enter_init.hyps(2) by (auto simp: claims_def)
  then show ?case
    using ob [of i] ob pool zp_enter_init.hyps(2,3)
    by (intro zp_inv_frame [OF zp_enter_init.IH, of _ i "Z_Search 0"]) (auto simp: obj_ok_def)
next
  case (zp_enter_remove s i)
  have "obj_ok (zp_used s) (zp_pcs s j) (zp_stack s j) (zp_runs s j)" for j using zp_enter_remove.IH by (simp add: zp_inv_def)
  note ob = this and pool = zp_enter_remove.IH [unfolded zp_inv_def, THEN conjunct1]
  have "(claims s)(i := zp_stack s i) = claims s" using zp_enter_remove.hyps(2) by (auto simp: claims_def)
  then show ?case
    using ob [of i] ob pool zp_enter_remove.hyps(2)
    by (intro zp_inv_frame [OF zp_enter_remove.IH, of _ i Z_Abort]) (auto simp: obj_ok_def)
next
  case (zp_work s i s')
  show ?case by (rule zp_step_inv [OF zp_work.hyps(2) zp_work.IH])
qed

section \<open>A call alone\<close>

text \<open>Without interference the search loop finds the stack that \<open>find_unused\<close> gives, and a call is the function of \<open>Zephyr_Task\<close>.\<close>

lemma search_alone:
  assumes "zp_pcs s i = Z_Search n" and "length (zp_used s) = MAX_TASKS" and "n \<le> MAX_TASKS"
  shows "(zp_step i)\<^sup>*\<^sup>* s (zp_goto i (case find_unused (drop n (zp_used s)) n of None \<Rightarrow> Z_None | Some m \<Rightarrow> Z_Mark m) s)"
  using assms
proof (induction "MAX_TASKS - n" arbitrary: n s)
  case 0
  then have "\<not> n < MAX_TASKS" "drop n (zp_used s) = []" by simp_all
  then show ?case using search_none [OF 0(2)] by (simp add: r_into_rtranclp)
next
  case (Suc d)
  then have n: "n < MAX_TASKS" by simp
  then have dr: "drop n (zp_used s) = zp_used s ! n # drop (Suc n) (zp_used s)" using Suc.prems(2) by (simp add: Cons_nth_drop_Suc)
  show ?case
  proof (cases "zp_used s ! n")
    case True
    let ?s = "zp_goto i (Z_Search (Suc n)) s"
    have gg: "zp_goto i pc ?s = zp_goto i pc s" for pc by (simp add: zp_goto_def)
    have "(zp_step i)\<^sup>*\<^sup>* ?s (zp_goto i (case find_unused (drop (Suc n) (zp_used s)) (Suc n) of None \<Rightarrow> Z_None | Some m \<Rightarrow> Z_Mark m) s)"
      using Suc.hyps(1) [of "Suc n" ?s] Suc.hyps(2) Suc.prems(2) n unfolding gg by simp
    then show ?thesis
      using search_next [OF Suc.prems(1) n True] dr True by (simp add: converse_rtranclp_into_rtranclp)
  next
    case False
    then show ?thesis using search_found [OF Suc.prems(1) n False] dr by (simp add: r_into_rtranclp)
  qed
qed

section \<open>Properties\<close>

text \<open>C5. Stacks under concurrency: when a program makes one call of \<open>pos_task_init\<close> at a time, calls it only on an object that holds no
  task, and calls \<open>pos_task_remove\<close> once for a task that was created (a second removal is not excluded by the code and can free the stack of
  another task), then in every interleaving of the steps of these calls two running threads never share a stack, every thread runs on a
  stack of the pool that is marked as used, and a stack is marked only while a task claims it.\<close>

theorem zephyr_stacks_serial_init:
  assumes "zp_reach True s"
  shows "(\<forall>i j n. zp_runs s i = Some n \<and> zp_runs s j = Some n \<longrightarrow> i = j) \<and>
         (\<forall>i n. zp_runs s i = Some n \<longrightarrow> n < MAX_TASKS \<and> zp_used s ! n) \<and>
         (\<forall>n < MAX_TASKS. zp_used s ! n \<longrightarrow> (\<exists>i. claims s i = Some n))"
proof -
  have inv: "zp_inv s" by (rule zp_reach_inv [OF assms])
  then have pool: "pool_ok (zp_used s) (claims s)" by (simp add: zp_inv_def)
  have c: "claims s i = Some n" if "zp_runs s i = Some n" for i n
  proof -
    have "obj_ok (zp_used s) (zp_pcs s i) (zp_stack s i) (zp_runs s i)" using inv by (simp add: zp_inv_def)
    then show ?thesis using that by (auto simp: obj_ok_def claims_def)
  qed
  show ?thesis using pool c unfolding pool_ok_def by blast
qed

text \<open>The steps of a call of \<open>pos_task_init\<close> that finds the first flag clear, up to the search's result, and from there to the end when
  the kernel creates the thread.\<close>

lemma zp_finds_first:
  assumes "zp_reach serial s" and "zp_pcs s i = Z_None" and "\<not> zp_used s ! 0"
    and "serial \<longrightarrow> (\<forall>j. \<not> in_init (zp_pcs s j))"
  shows "zp_reach serial (zp_goto i (Z_Mark 0) s)"
proof -
  let ?s = "zp_goto i (Z_Search 0) s"
  have "zp_reach serial ?s" by (rule zp_enter_init [OF assms(1,2,4)])
  moreover have "zp_step i ?s (zp_goto i (Z_Mark 0) ?s)"
    using assms(3) by (intro search_found) (simp_all add: MAX_TASKS_def)
  moreover have "zp_goto i (Z_Mark 0) ?s = zp_goto i (Z_Mark 0) s" by (simp add: zp_goto_def)
  ultimately show ?thesis using zp_work by metis
qed

lemma zp_completes:
  assumes "zp_reach serial s" and "zp_pcs s i = Z_Mark n"
  shows "zp_reach serial (s\<lparr>zp_used := (zp_used s)[n := True], zp_stack := (zp_stack s)(i := Some n),
           zp_runs := (zp_runs s)(i := Some n), zp_pcs := (zp_pcs s)(i := Z_Live)\<rparr>)"
proof -
  let ?m = "zp_goto i (Z_Store n) (s\<lparr>zp_used := (zp_used s)[n := True]\<rparr>)"
  let ?t = "zp_goto i (Z_Create n) (?m\<lparr>zp_stack := (zp_stack ?m)(i := Some n)\<rparr>)"
  have "zp_step i s ?m" by (rule mark [OF assms(2)])
  moreover have "zp_step i ?m ?t" by (rule store_stack) simp
  moreover have "zp_step i ?t (zp_goto i Z_Live (?t\<lparr>zp_runs := (zp_runs ?t)(i := zp_stack ?t i)\<rparr>))"
    by (rule create_ok) simp
  ultimately have "zp_reach serial (zp_goto i Z_Live (?t\<lparr>zp_runs := (zp_runs ?t)(i := zp_stack ?t i)\<rparr>))"
    using zp_work [OF zp_work [OF zp_work [OF assms(1)]]] by blast
  then show ?thesis by (simp add: zp_goto_def)
qed

theorem zephyr_stacks_serial_init_witness:
  "\<exists>s. zp_reach True s \<and> zp_runs s 5 = Some 0 \<and> zp_used s ! 0 \<and> zp_runs s 4 \<noteq> Some 0"
proof -
  have "zp_reach True (zp_goto 5 (Z_Mark 0)
      \<lparr>zp_used = replicate MAX_TASKS False, zp_stack = \<lambda>_. None, zp_runs = \<lambda>_. None, zp_pcs = \<lambda>_. Z_None\<rparr>)"
    by (rule zp_finds_first [OF zp_start]) (simp_all add: MAX_TASKS_def)
  from zp_completes [OF this, of 5 0] obtain s where s: "zp_reach True s" "zp_runs s 5 = Some 0" by auto
  note distinct = zephyr_stacks_serial_init [OF s(1)]
  from distinct have "zp_runs s 5 = Some 0 \<and> zp_runs s 4 = Some 0 \<longrightarrow> 5 = (4 :: nat)" by blast
  then show ?thesis using distinct s by (intro exI [of _ s]) simp
qed

text \<open>C34. Without that restriction the pool is not safe: there is an interleaving of two calls of \<open>pos_task_init\<close> on different
  task objects after which both tasks are live and their threads run on the same stack.\<close>

theorem zephyr_task_init_race:
  "\<exists>s. zp_reach False s \<and> zp_pcs s 0 = Z_Live \<and> zp_pcs s 1 = Z_Live \<and> zp_runs s 0 = Some 0 \<and> zp_runs s 1 = Some 0"
proof -
  let ?s0 = "\<lparr>zp_used = replicate MAX_TASKS False, zp_stack = \<lambda>_. None, zp_runs = \<lambda>_. None, zp_pcs = \<lambda>_. Z_None\<rparr>"
  have "zp_reach False (zp_goto 0 (Z_Mark 0) ?s0)"
    by (rule zp_finds_first [OF zp_start]) (simp_all add: MAX_TASKS_def)
  then have "zp_reach False (zp_goto 1 (Z_Mark 0) (zp_goto 0 (Z_Mark 0) ?s0))"
    by (rule zp_finds_first) (simp_all add: MAX_TASKS_def)
  from zp_completes [OF this, of 0 0]
  obtain s where s: "zp_reach False s" "zp_pcs s 0 = Z_Live" "zp_runs s 0 = Some 0" "zp_pcs s 1 = Z_Mark 0" by auto
  from zp_completes [OF s(1,4)] s show ?thesis by (intro exI conjI) (assumption, simp_all)
qed

end
