(* ===== verification/Posix_Mutex_Threads.thy ===== *)
theory Posix_Mutex_Threads
  imports Posix_Mutex
begin

text \<open>
  \<open>pos_mutex_lock\<close> and \<open>pos_mutex_unlock\<close> of the POSIX port executed by several threads at once.  A timed lock computes
  its deadline in the field \<open>wait\<close> of the shared struct before it holds the lock, so here the clock reading, every load and store of
  the fields of \<open>wait\<close> and every library call are steps of their own, interleaved arbitrarily.  With \<open>solo\<close>
  a program has at most one thread inside a timed lock at a time.
\<close>

section \<open>Definitions\<close>

text \<open>
  Before the named step; the timed steps carry the timeout and the clock reading of the thread, and a store the value that
  was loaded.
\<close>

datatype mt_pc =
    M_Out
  | M_Lock
  | M_Unlock
  | M_Clock pos_time
  | M_Sec_Load pos_time timespec
  | M_Sec_Store pos_time timespec int
  | M_Nsec_Load pos_time timespec
  | M_Nsec_Store pos_time timespec int
  | M_Timed pos_time timespec

text \<open>\<open>mt_nest\<close> counts the successful locks of a thread less its successful unlocks.\<close>

record ('t, 'm, 'a, 'k) mt_sys =
  mt_mu :: "('m, 'a) pos_mutex_posix"
  mt_kernel :: 'k
  mt_pcs :: "'t \<Rightarrow> mt_pc"
  mt_nest :: "'t \<Rightarrow> nat"

definition mt_goto :: "'t \<Rightarrow> mt_pc \<Rightarrow> ('t, 'm, 'a, 'k) mt_sys \<Rightarrow> ('t, 'm, 'a, 'k) mt_sys" where
  "mt_goto t pc s = s\<lparr>mt_pcs := (mt_pcs s)(t := pc)\<rparr>"

definition mt_set_wait :: "timespec \<Rightarrow> ('t, 'm, 'a, 'k) mt_sys \<Rightarrow> ('t, 'm, 'a, 'k) mt_sys" where
  "mt_set_wait ts s = s\<lparr>mt_mu := (mt_mu s)\<lparr>pm_wait := ts\<rparr>\<rparr>"

definition mt_locked :: "'t \<Rightarrow> int \<Rightarrow> 'k \<Rightarrow> ('t, 'm, 'a, 'k) mt_sys \<Rightarrow> ('t, 'm, 'a, 'k) mt_sys" where
  "mt_locked t ret k s =
     s\<lparr>mt_kernel := k, mt_nest := (if ret = 0 then (mt_nest s)(t := Suc (mt_nest s t)) else mt_nest s)\<rparr>"

inductive mt_step ::
    "('t, 'm, 'a, 'k) pthread_mutex_api \<Rightarrow> 't \<Rightarrow> ('t, 'm, 'a, 'k) mt_sys \<Rightarrow> ('t, 'm, 'a, 'k) mt_sys \<Rightarrow> bool"
  for api where
  mt_lock:
    "mt_pcs s t = M_Lock \<Longrightarrow> pthread_mutex_lock api t (pm_lock (mt_mu s)) (mt_kernel s) = Returns ret k \<Longrightarrow>
     mt_step api t s (mt_goto t M_Out (mt_locked t ret k s))"
| mt_clock:
    "mt_pcs s t = M_Clock tmo \<Longrightarrow> mutex_clock_realtime api (mt_kernel s) = Returns (0, now) k \<Longrightarrow>
     mt_step api t s (mt_goto t (M_Sec_Load tmo now) (mt_set_wait now (s\<lparr>mt_kernel := k\<rparr>)))"
| mt_clock_fails:
    "mt_pcs s t = M_Clock tmo \<Longrightarrow> mutex_clock_realtime api (mt_kernel s) = Returns (ret, now) k \<Longrightarrow> ret \<noteq> 0 \<Longrightarrow>
     mt_step api t s (mt_goto t M_Out (s\<lparr>mt_kernel := k\<rparr>))"
| mt_sec_load:
    "mt_pcs s t = M_Sec_Load tmo now \<Longrightarrow>
     mt_step api t s (mt_goto t (M_Sec_Store tmo now (tv_sec (pm_wait (mt_mu s)))) s)"
| mt_sec_store:
    "mt_pcs s t = M_Sec_Store tmo now v \<Longrightarrow>
     mt_step api t s (mt_goto t (M_Nsec_Load tmo now)
       (mt_set_wait ((pm_wait (mt_mu s))\<lparr>tv_sec := v + uint (tmo div 1000)\<rparr>) s))"
| mt_nsec_load:
    "mt_pcs s t = M_Nsec_Load tmo now \<Longrightarrow>
     mt_step api t s (mt_goto t (M_Nsec_Store tmo now (tv_nsec (pm_wait (mt_mu s)))) s)"
| mt_nsec_store:
    "mt_pcs s t = M_Nsec_Store tmo now v \<Longrightarrow>
     mt_step api t s (mt_goto t (M_Timed tmo now)
       (mt_set_wait ((pm_wait (mt_mu s))\<lparr>tv_nsec := v + uint ((tmo mod 1000) * 1000000)\<rparr>) s))"
| mt_timed:
    "mt_pcs s t = M_Timed tmo now \<Longrightarrow>
     pthread_mutex_timedlock api t (pm_lock (mt_mu s)) (pm_wait (mt_mu s)) (mt_kernel s) = Returns ret k \<Longrightarrow>
     mt_step api t s (mt_goto t M_Out (mt_locked t ret k s))"
| mt_unlock:
    "mt_pcs s t = M_Unlock \<Longrightarrow> pthread_mutex_unlock api t (pm_lock (mt_mu s)) (mt_kernel s) = Returns ret k \<Longrightarrow>
     mt_step api t s (mt_goto t M_Out
       (s\<lparr>mt_kernel := k, mt_nest := (if ret = 0 then (mt_nest s)(t := mt_nest s t - 1) else mt_nest s)\<rparr>))"

text \<open>Inside a timed lock.\<close>

fun in_timed :: "mt_pc \<Rightarrow> bool" where
  "in_timed M_Out = False"
| "in_timed M_Lock = False"
| "in_timed M_Unlock = False"
| "in_timed _ = True"

inductive mt_reach ::
    "bool \<Rightarrow> ('t, 'm, 'a, 'k) pthread_mutex_api \<Rightarrow> ('m, 'a) pos_mutex_posix \<Rightarrow> 'k \<Rightarrow> ('t, 'm, 'a, 'k) mt_sys \<Rightarrow> bool"
  for solo api mu0 k0 where
  mt_start: "mt_reach solo api mu0 k0 \<lparr>mt_mu = mu0, mt_kernel = k0, mt_pcs = \<lambda>_. M_Out, mt_nest = \<lambda>_. 0\<rparr>"
| mt_enter_lock:
    "mt_reach solo api mu0 k0 s \<Longrightarrow> mt_pcs s t = M_Out \<Longrightarrow> mt_reach solo api mu0 k0 (mt_goto t M_Lock s)"
| mt_enter_timed:
    "mt_reach solo api mu0 k0 s \<Longrightarrow> mt_pcs s t = M_Out \<Longrightarrow> tmo \<noteq> POS_TIME_FOREVER_posix \<Longrightarrow>
     solo \<longrightarrow> (\<forall>u. \<not> in_timed (mt_pcs s u)) \<Longrightarrow> mt_reach solo api mu0 k0 (mt_goto t (M_Clock tmo) s)"
| mt_enter_unlock:
    "mt_reach solo api mu0 k0 s \<Longrightarrow> mt_pcs s t = M_Out \<Longrightarrow> mt_reach solo api mu0 k0 (mt_goto t M_Unlock s)"
| mt_work: "mt_reach solo api mu0 k0 s \<Longrightarrow> mt_step api t s s' \<Longrightarrow> mt_reach solo api mu0 k0 s'"

text \<open>What \<open>wait\<close> contains while one thread computes its deadline there.\<close>

fun wait_ok :: "timespec \<Rightarrow> mt_pc \<Rightarrow> bool" where
  "wait_ok w (M_Sec_Load tmo now) \<longleftrightarrow> w = now"
| "wait_ok w (M_Sec_Store tmo now v) \<longleftrightarrow> w = now \<and> v = tv_sec now"
| "wait_ok w (M_Nsec_Load tmo now) \<longleftrightarrow> w = now\<lparr>tv_sec := tv_sec now + uint (tmo div 1000)\<rparr>"
| "wait_ok w (M_Nsec_Store tmo now v) \<longleftrightarrow> w = now\<lparr>tv_sec := tv_sec now + uint (tmo div 1000)\<rparr> \<and> v = tv_nsec now"
| "wait_ok w (M_Timed tmo now) \<longleftrightarrow> w = deadline_after now tmo"
| "wait_ok w _ \<longleftrightarrow> True"

definition mt_inv :: "('k \<Rightarrow> 'm \<Rightarrow> 't mutex_state) \<Rightarrow> ('k \<Rightarrow> 'm \<Rightarrow> bool) \<Rightarrow> ('t, 'm, 'a, 'k) mt_sys \<Rightarrow> bool" where
  "mt_inv own recursive s \<longleftrightarrow>
     recursive (mt_kernel s) (pm_lock (mt_mu s)) \<and>
     (\<forall>t. held (own (mt_kernel s) (pm_lock (mt_mu s))) t = mt_nest s t)"

definition mt_solo :: "('t, 'm, 'a, 'k) mt_sys \<Rightarrow> bool" where
  "mt_solo s \<longleftrightarrow>
     (\<forall>t u. in_timed (mt_pcs s t) \<and> in_timed (mt_pcs s u) \<longrightarrow> t = u) \<and>
     (\<forall>t. wait_ok (pm_wait (mt_mu s)) (mt_pcs s t))"

section \<open>Exclusion in every interleaving\<close>

lemma mt_upd_simps [simp]:
  "mt_mu (mt_goto t pc s) = mt_mu s" "mt_kernel (mt_goto t pc s) = mt_kernel s" "mt_nest (mt_goto t pc s) = mt_nest s"
  "mt_pcs (mt_goto t pc s) = (mt_pcs s)(t := pc)"
  "pm_lock (mt_mu (mt_set_wait w s)) = pm_lock (mt_mu s)" "pm_wait (mt_mu (mt_set_wait w s)) = w"
  "mt_kernel (mt_set_wait w s) = mt_kernel s" "mt_nest (mt_set_wait w s) = mt_nest s" "mt_pcs (mt_set_wait w s) = mt_pcs s"
  "mt_mu (mt_locked t ret k s) = mt_mu s" "mt_kernel (mt_locked t ret k s) = k" "mt_pcs (mt_locked t ret k s) = mt_pcs s"
  "mt_nest (mt_locked t ret k s) u = mt_nest s u + (if ret = 0 \<and> u = t then 1 else 0)"
  by (simp_all add: mt_goto_def mt_set_wait_def mt_locked_def)

context pthread_mutex_kernel
begin

lemma lock_counts:
  assumes "recursive k m" and "pthread_mutex_lock api t m k = Returns ret k'"
  shows "recursive k' m \<and> held (own k' m) u = held (own k m) u + (if ret = 0 \<and> u = t then 1 else 0)"
proof (cases "own k m")
  case None
  then show ?thesis using mutex_lock_free [OF assms(1) None, of t] assms(2) by auto
next
  case (Some p)
  obtain v n where own: "own k m = Some (v, n)" using Some by (cases p) auto
  show ?thesis
  proof (cases "v = t")
    case True
    then show ?thesis using mutex_lock_again [OF assms(1), of t n] own assms(2) by auto
  next
    case False
    then show ?thesis using mutex_lock_other [OF assms(1) own False] assms(2) by simp
  qed
qed

lemma timedlock_counts:
  assumes "recursive k m" and "pthread_mutex_timedlock api t m ts k = Returns ret k'"
  shows "recursive k' m \<and> held (own k' m) u = held (own k m) u + (if ret = 0 \<and> u = t then 1 else 0)"
proof (cases "own k m = None \<or> 0 < held (own k m) t")
  case True
  then show ?thesis using lock_counts [OF assms(1)] timedlock_immediate [OF assms(1) True] assms(2) by simp
next
  case False
  then obtain v n where own: "own k m = Some (v, n)" by auto
  then have "v \<noteq> t" using False mutex_own_pos [OF assms(1) own] by auto
  then show ?thesis using timedlock_other [OF assms(1) own, of t ts] assms(2) by (auto split: if_splits)
qed

lemma unlock_counts:
  assumes "recursive k m" and "pthread_mutex_unlock api t m k = Returns ret k'"
  shows "recursive k' m \<and> held (own k' m) u = (if ret = 0 \<and> u = t then held (own k m) u - 1 else held (own k m) u)"
proof (cases "held (own k m) t")
  case 0
  then show ?thesis using mutex_unlock_other [OF assms(1) 0] assms(2) by auto
next
  case (Suc n)
  then have own: "own k m = Some (t, Suc n)" by (cases "own k m") (auto split: if_splits)
  then show ?thesis using mutex_unlock_own [OF assms(1) own] assms(2) by (auto simp: released_def)
qed

lemma clock_unchanged: "mutex_clock_realtime api k = Returns (r, now) k' \<Longrightarrow> k' = k"
  using clock_reads [of k] by auto

lemma mt_step_inv:
  assumes "mt_step api t s s'" and "mt_inv own recursive s"
  shows "mt_inv own recursive s'"
  using assms
proof (cases rule: mt_step.cases)
  case (mt_lock ret k)
  then show ?thesis using assms(2) lock_counts [OF _ mt_lock(3)] by (simp add: mt_inv_def)
next
  case (mt_timed tmo now ret k)
  then show ?thesis using assms(2) timedlock_counts [OF _ mt_timed(3)] by (simp add: mt_inv_def)
next
  case (mt_unlock ret k)
  then show ?thesis using assms(2) unlock_counts [OF _ mt_unlock(3)] by (simp add: mt_inv_def)
qed (auto simp: mt_inv_def dest!: clock_unchanged)

lemma mt_reach_inv:
  assumes "mt_reach solo api mu0 k0 s" and "recursive k0 (pm_lock mu0)" and "own k0 (pm_lock mu0) = None"
  shows "mt_inv own recursive s"
  using assms(1)
proof (induction rule: mt_reach.induct)
  case (mt_work s t s')
  show ?case by (rule mt_step_inv [OF mt_work.hyps(2) mt_work.IH])
qed (use assms(2,3) in \<open>auto simp: mt_inv_def\<close>)

end

section \<open>The deadline of a single timed lock\<close>

lemma mt_step_solo:
  assumes "mt_step api t s s'" and solo: "mt_solo s"
  shows "mt_solo s'"
proof -
  have w: "wait_ok (pm_wait (mt_mu s)) (mt_pcs s u)" for u using solo by (simp add: mt_solo_def)
  have alone: "\<not> in_timed (mt_pcs s u)" if "in_timed (mt_pcs s t)" "u \<noteq> t" for u
    using solo that by (auto simp: mt_solo_def)
  have free: "wait_ok x pc" if "\<not> in_timed pc" for x pc using that by (cases pc) auto
  have frame: "mt_solo s'" if "mt_pcs s' = (mt_pcs s)(t := pc)" and "in_timed pc \<Longrightarrow> in_timed (mt_pcs s t)"
      and "wait_ok (pm_wait (mt_mu s')) pc" and "in_timed (mt_pcs s t) \<or> pm_wait (mt_mu s') = pm_wait (mt_mu s)" for pc
  proof -
    have "wait_ok (pm_wait (mt_mu s')) (mt_pcs s' u)" for u
      using that w [of u] alone [of u] free [of "mt_pcs s u"] by (cases "u = t") auto
    moreover have "u = v" if "in_timed (mt_pcs s' u)" "in_timed (mt_pcs s' v)" for u v
      using that \<open>mt_pcs s' = _\<close> \<open>in_timed pc \<Longrightarrow> _\<close> solo by (auto simp: mt_solo_def split: if_splits)
    ultimately show ?thesis by (simp add: mt_solo_def)
  qed
  note wt = w [of t]
  from assms(1) show ?thesis
  proof (cases rule: mt_step.cases)
    case (mt_lock ret k)
    then show ?thesis by (intro frame [of M_Out]) simp_all
  next
    case (mt_clock tmo now k)
    then show ?thesis by (intro frame [of "M_Sec_Load tmo now"]) simp_all
  next
    case (mt_clock_fails tmo ret now k)
    then show ?thesis by (intro frame [of M_Out]) simp_all
  next
    case (mt_sec_load tmo now)
    then show ?thesis using wt by (intro frame [of "M_Sec_Store tmo now (tv_sec (pm_wait (mt_mu s)))"]) simp_all
  next
    case (mt_sec_store tmo now v)
    then show ?thesis using wt by (intro frame [of "M_Nsec_Load tmo now"]) simp_all
  next
    case (mt_nsec_load tmo now)
    then show ?thesis using wt by (intro frame [of "M_Nsec_Store tmo now (tv_nsec (pm_wait (mt_mu s)))"]) simp_all
  next
    case (mt_nsec_store tmo now v)
    then show ?thesis using wt by (intro frame [of "M_Timed tmo now"]) (simp_all add: deadline_after_def)
  next
    case (mt_timed tmo now ret k)
    then show ?thesis by (intro frame [of M_Out]) simp_all
  next
    case (mt_unlock ret k)
    then show ?thesis by (intro frame [of M_Out]) simp_all
  qed
qed

lemma mt_reach_solo:
  assumes "mt_reach True api mu0 k0 s"
  shows "mt_solo s"
  using assms
proof (induction rule: mt_reach.induct)
  case (mt_work s t s')
  show ?case by (rule mt_step_solo [OF mt_work.hyps(2) mt_work.IH])
qed (auto simp: mt_solo_def)

section \<open>A call alone\<close>

text \<open>Without interference a timed lock computes its own deadline, and its steps are the function of \<open>Posix_Mutex\<close>.\<close>

lemma deadline_alone:
  assumes "mt_pcs s t = M_Clock tmo" and "mutex_clock_realtime api (mt_kernel s) = Returns (0, now) k"
  shows "(mt_step api t)\<^sup>*\<^sup>* s (mt_goto t (M_Timed tmo now) (mt_set_wait (deadline_after now tmo) (s\<lparr>mt_kernel := k\<rparr>)))"
proof -
  let ?s1 = "mt_goto t (M_Sec_Load tmo now) (mt_set_wait now (s\<lparr>mt_kernel := k\<rparr>))"
  let ?s2 = "mt_goto t (M_Sec_Store tmo now (tv_sec now)) ?s1"
  let ?w = "now\<lparr>tv_sec := tv_sec now + uint (tmo div 1000)\<rparr>"
  let ?s3 = "mt_goto t (M_Nsec_Load tmo now) (mt_set_wait ?w ?s2)"
  let ?s4 = "mt_goto t (M_Nsec_Store tmo now (tv_nsec now)) ?s3"
  let ?s5 = "mt_goto t (M_Timed tmo now) (mt_set_wait (?w\<lparr>tv_nsec := tv_nsec now + uint ((tmo mod 1000) * 1000000)\<rparr>) ?s4)"
  have 1: "mt_step api t s ?s1" by (rule mt_clock [OF assms])
  have 2: "mt_step api t ?s1 ?s2" using mt_sec_load [of ?s1 t tmo now api] by simp
  have 3: "mt_step api t ?s2 ?s3" using mt_sec_store [of ?s2 t tmo now "tv_sec now" api] by simp
  have 4: "mt_step api t ?s3 ?s4" using mt_nsec_load [of ?s3 t tmo now api] by simp
  have 5: "mt_step api t ?s4 ?s5" using mt_nsec_store [of ?s4 t tmo now "tv_nsec now" api] by simp
  note go = converse_rtranclp_into_rtranclp [of "mt_step api t"]
  have "(mt_step api t)\<^sup>*\<^sup>* ?s3 ?s5" by (rule go [OF 4 r_into_rtranclp [of "mt_step api t", OF 5]])
  then have "(mt_step api t)\<^sup>*\<^sup>* s ?s5"
    by (rule go [OF 1 go [OF 2 go [OF 3]]])
  moreover have "?s5 = mt_goto t (M_Timed tmo now) (mt_set_wait (deadline_after now tmo) (s\<lparr>mt_kernel := k\<rparr>))"
    by (simp add: mt_goto_def mt_set_wait_def deadline_after_def)
  ultimately show ?thesis by simp
qed

lemma timed_lock_alone:
  assumes "mt_pcs s t = M_Clock tmo" and "tmo \<noteq> POS_TIME_FOREVER_posix"
    and "mutex_clock_realtime api (mt_kernel s) = Returns (0, now) k"
    and "pos_mutex_lock_posix api t tmo (mt_mu s, mt_kernel s) = Returns e (mu', k')"
  shows "\<exists>ret. e = map_posix_to_osal_error ret \<and>
           (mt_step api t)\<^sup>*\<^sup>* s (mt_goto t M_Out (mt_locked t ret k' (s\<lparr>mt_mu := mu'\<rparr>)))"
proof -
  let ?s1 = "mt_goto t (M_Timed tmo now) (mt_set_wait (deadline_after now tmo) (s\<lparr>mt_kernel := k\<rparr>))"
  obtain ret where ret: "pthread_mutex_timedlock api t (pm_lock (mt_mu s)) (deadline_after now tmo) k = Returns ret k'"
      "e = map_posix_to_osal_error ret" "mu' = (mt_mu s)\<lparr>pm_wait := deadline_after now tmo\<rparr>"
    using assms(2-4) by (auto simp: pos_mutex_lock_posix_def SuccessOrExit_def prog_defs split: outcome.splits if_splits)
  then have "mt_step api t ?s1 (mt_goto t M_Out (mt_locked t ret k' ?s1))" by (intro mt_timed) simp_all
  moreover have "mt_goto t M_Out (mt_locked t ret k' ?s1) = mt_goto t M_Out (mt_locked t ret k' (s\<lparr>mt_mu := mu'\<rparr>))"
    using ret(3) by (simp add: mt_goto_def mt_locked_def mt_set_wait_def)
  ultimately show ?thesis using deadline_alone [OF assms(1,3)] ret(2) by (metis rtranclp.rtrancl_into_rtrancl)
qed

section \<open>Properties\<close>

lemma mt_works: "(mt_step api t)\<^sup>*\<^sup>* s s' \<Longrightarrow> mt_reach solo api mu0 k0 s \<Longrightarrow> mt_reach solo api mu0 k0 s'"
  by (induction rule: rtranclp_induct) (auto intro: mt_work)

text \<open>For the examples: thread 1 has computed the deadline of a timed lock.\<close>

lemma mt_example:
  assumes "tmo \<noteq> POS_TIME_FOREVER_posix"
  shows "mt_reach solo ref_mutex_api mutex0 ref_mutexes1
      \<lparr>mt_mu = mutex0\<lparr>pm_wait := deadline_after (timespec_of_ns 0) tmo\<rparr>, mt_kernel = ref_mutexes1,
       mt_pcs = (\<lambda>_ :: nat. M_Out)(1 := M_Timed tmo (timespec_of_ns 0)), mt_nest = \<lambda>_. 0\<rparr>"
proof -
  let ?s0 = "mt_goto 1 (M_Clock tmo) \<lparr>mt_mu = mutex0, mt_kernel = ref_mutexes1, mt_pcs = \<lambda>_ :: nat. M_Out, mt_nest = \<lambda>_. 0\<rparr>"
  have r: "mt_reach solo ref_mutex_api mutex0 ref_mutexes1 ?s0"
    by (rule mt_enter_timed [OF mt_start]) (simp_all add: assms)
  have "mutex_clock_realtime ref_mutex_api (mt_kernel ?s0) = Returns (0, timespec_of_ns 0) ref_mutexes1"
    by (simp add: ref_mutex_api_def ref_mutexes1_def ref_mutexes0_def)
  from mt_works [OF deadline_alone [OF _ this, of 1 tmo] r] show ?thesis by (simp add: mt_goto_def mt_set_wait_def)
qed

lemma mt_ready: "rm_recursive ref_mutexes1 (pm_lock mutex0)" "rm_own ref_mutexes1 (pm_lock mutex0) = None"
  by (simp_all add: rm_recursive_def mutex0_def ref_mutexes1_def ref_mutexes0_def)

text \<open>C3. The POSIX mutex called by any number of threads at once, with every access to the shared field \<open>wait\<close> a step: in
  every interleaving the depth at which a thread holds the mutex is its successful locks less its
  successful unlocks and at most one thread holds it.  When at most one thread at a time is inside a timed lock, it waits until
  its own deadline.\<close>

theorem posix_mutex_threads_exclusive:
  assumes "pthread_mutex_kernel api own recursive attr_recursive rec_limit"
    and "recursive k0 (pm_lock mu0)" and "own k0 (pm_lock mu0) = None" and "mt_reach solo api mu0 k0 s"
  shows "held (own (mt_kernel s) (pm_lock (mt_mu s))) t = mt_nest s t \<and>
         (0 < mt_nest s t \<and> 0 < mt_nest s u \<longrightarrow> t = u) \<and>
         (solo \<and> mt_pcs s t = M_Timed tmo now \<longrightarrow> pm_wait (mt_mu s) = deadline_after now tmo)"
proof -
  have inv: "mt_inv own recursive s" by (rule pthread_mutex_kernel.mt_reach_inv [OF assms(1,4,2,3)])
  then have h: "held (own (mt_kernel s) (pm_lock (mt_mu s))) v = mt_nest s v" for v by (simp add: mt_inv_def)
  have "t = u" if "0 < mt_nest s t" "0 < mt_nest s u"
    using that h [of t] h [of u] by (cases "own (mt_kernel s) (pm_lock (mt_mu s))") (auto split: if_splits)
  moreover have "pm_wait (mt_mu s) = deadline_after now tmo" if "solo" "mt_pcs s t = M_Timed tmo now"
  proof -
    have "wait_ok (pm_wait (mt_mu s)) (mt_pcs s t)"
      using mt_reach_solo [of api mu0 k0 s] assms(4) that(1) by (simp add: mt_solo_def)
    then show ?thesis using that(2) by simp
  qed
  ultimately show ?thesis using h by blast
qed

theorem posix_mutex_threads_exclusive_witness:
  "\<exists>s. mt_reach True ref_mutex_api mutex0 ref_mutexes1 s \<and> mt_pcs s (1 :: nat) = M_Timed 1500 (timespec_of_ns 0) \<and>
       pm_wait (mt_mu s) = \<lparr>tv_sec = 1, tv_nsec = 500000000\<rparr> \<and> held (rm_own (mt_kernel s) (pm_lock (mt_mu s))) 1 = 0"
proof -
  have f: "(1500 :: pos_time) \<noteq> POS_TIME_FOREVER_posix" by (simp add: POS_TIME_FOREVER_posix_def)
  obtain s where s: "mt_reach True ref_mutex_api mutex0 ref_mutexes1 s" "mt_pcs s (1 :: nat) = M_Timed 1500 (timespec_of_ns 0)"
      "mt_nest s 1 = 0"
    using mt_example [OF f] by fastforce
  from posix_mutex_threads_exclusive [OF ref_posix_mutex.pthread_mutex_kernel_axioms mt_ready s(1), of 1 1 1500 "timespec_of_ns 0"] s
  show ?thesis by (intro exI [of _ s]) (simp add: deadline_after_def timespec_of_ns_def)
qed

text \<open>C35. Two timed locks at the same time race on the field \<open>wait\<close>: there is an interleaving in which a thread that was told
  to wait for a minute is about to wait with a deadline that has already been reached, because another
  thread has overwritten the field with its own clock reading.\<close>

theorem posix_mutex_deadline_race:
  "\<exists>s. mt_reach False ref_mutex_api mutex0 ref_mutexes1 s \<and>
       mt_pcs s (1 :: nat) = M_Timed 60000 (timespec_of_ns (rm_now (mt_kernel s))) \<and>
       instant_ns (pm_wait (mt_mu s)) = int (rm_now (mt_kernel s)) \<and>
       instant_ns (deadline_after (timespec_of_ns (rm_now (mt_kernel s))) 60000) = int (rm_now (mt_kernel s)) + 60000000000"
proof -
  have f: "(60000 :: pos_time) \<noteq> POS_TIME_FOREVER_posix" "(5 :: pos_time) \<noteq> POS_TIME_FOREVER_posix"
    by (simp_all add: POS_TIME_FOREVER_posix_def)
  let ?s = "\<lparr>mt_mu = mutex0\<lparr>pm_wait := deadline_after (timespec_of_ns 0) 60000\<rparr>, mt_kernel = ref_mutexes1,
       mt_pcs = (\<lambda>_ :: nat. M_Out)(1 := M_Timed 60000 (timespec_of_ns 0)), mt_nest = \<lambda>_. 0\<rparr>"
  let ?s1 = "mt_goto 2 (M_Clock 5) ?s"
  have "mt_reach False ref_mutex_api mutex0 ref_mutexes1 ?s1"
    by (rule mt_enter_timed [OF mt_example [OF f(1)]]) (simp_all add: f(2))
  moreover have "mt_step ref_mutex_api 2 ?s1 (mt_goto 2 (M_Sec_Load 5 (timespec_of_ns 0))
      (mt_set_wait (timespec_of_ns 0) (?s1\<lparr>mt_kernel := ref_mutexes1\<rparr>)))"
    by (rule mt_clock) (simp_all add: ref_mutex_api_def ref_mutexes1_def ref_mutexes0_def)
  ultimately have "mt_reach False ref_mutex_api mutex0 ref_mutexes1 (mt_goto 2 (M_Sec_Load 5 (timespec_of_ns 0))
      (mt_set_wait (timespec_of_ns 0) (?s1\<lparr>mt_kernel := ref_mutexes1\<rparr>)))"
    by (rule mt_work)
  then show ?thesis
    by (rule exI [where x = "mt_goto 2 (M_Sec_Load 5 (timespec_of_ns 0))
        (mt_set_wait (timespec_of_ns 0) (?s1\<lparr>mt_kernel := ref_mutexes1\<rparr>))", OF conjI])
      (simp add: ref_mutexes1_def ref_mutexes0_def deadline_after_def timespec_of_ns_def instant_ns_def)
qed

end
