(* ===== verification/Posix_Timer_Threads.thy ===== *)
theory Posix_Timer_Threads
  imports Posix_Timer
begin

text \<open>
  \<open>pos_timer_start\<close>, \<open>pos_timer_stop\<close> and \<open>pos_timer_cb\<close> of the POSIX port executed at the same time.  An expiry makes the
  system run \<open>pos_timer_cb\<close> in a thread of its own (\<open>SIGEV_THREAD\<close>), beside the threads that call the timer functions, and
  the flag \<open>tm_active\<close> is written by all of them without a lock.  So every store to the struct and every call of the
  system is a step of its own here, interleaved arbitrarily.  With \<open>calm\<close> a program makes one call at a time and starts
  the timer only when it does not run and the notification of its last expiry has cleared the flag, for example from its callback.
\<close>

section \<open>Definitions\<close>

text \<open>Where a thread that calls the timer functions is: before the named step.\<close>

datatype pt_pc =
    P_Out
  | P_Start pos_time
  | P_Clock pos_time
  | P_Set pos_time
  | P_Arm pos_time
  | P_Stop
  | P_Disarm
  | P_Clear

text \<open>
  The notification threads differ only in how far they are: \<open>pt_clear\<close> of them are before the store to \<open>tm_active\<close>,
  \<open>pt_call\<close> before the call of \<open>tm_cb\<close>, and \<open>pt_fired\<close> have made it.  \<open>pt_arms\<close> counts the starts that reported success.
\<close>

record ('c, 'f, 'p, 't, 'k) pt_sys =
  pt_tm :: "('f, 'p, 't) pos_timer_posix"
  pt_kernel :: 'k
  pt_pcs :: "'c \<Rightarrow> pt_pc"
  pt_clear :: nat
  pt_call :: nat
  pt_fired :: nat
  pt_arms :: nat

definition pt_goto :: "'c \<Rightarrow> pt_pc \<Rightarrow> ('c, 'f, 'p, 't, 'k) pt_sys \<Rightarrow> ('c, 'f, 'p, 't, 'k) pt_sys" where
  "pt_goto c pc s = s\<lparr>pt_pcs := (pt_pcs s)(c := pc)\<rparr>"

definition pt_active :: "bool \<Rightarrow> ('c, 'f, 'p, 't, 'k) pt_sys \<Rightarrow> ('c, 'f, 'p, 't, 'k) pt_sys" where
  "pt_active b s = s\<lparr>pt_tm := (pt_tm s)\<lparr>tm_active := b\<rparr>\<rparr>"

definition disarm :: itimerspec where
  "disarm = \<lparr>it_interval = \<lparr>tv_sec = 0, tv_nsec = 0\<rparr>, it_value = \<lparr>tv_sec = 0, tv_nsec = 0\<rparr>\<rparr>"

text \<open>One step of thread \<open>c\<close> inside \<open>pos_timer_start\<close> or \<open>pos_timer_stop\<close>.\<close>

inductive pt_step ::
    "('t, 'o, 'k) posix_timer_api \<Rightarrow> 'c \<Rightarrow> ('c, 'f, 'p, 't, 'k) pt_sys \<Rightarrow> ('c, 'f, 'p, 't, 'k) pt_sys \<Rightarrow> bool"
  for api where
  pt_start_invalid:
    "pt_pcs s c = P_Start n \<Longrightarrow> tm_timer (pt_tm s) = None \<Longrightarrow> pt_step api c s (pt_goto c P_Out s)"
| pt_start:
    "pt_pcs s c = P_Start n \<Longrightarrow> tm_timer (pt_tm s) \<noteq> None \<Longrightarrow>
     pt_step api c s (pt_goto c (P_Clock (if n = 0 then 1 else n)) s)"
| pt_clock:
    "pt_pcs s c = P_Clock n \<Longrightarrow> pos_time_get_posix (clock_monotonic api) (pt_kernel s) = Returns now k \<Longrightarrow>
     pt_step api c s (pt_goto c (P_Set n) (s\<lparr>pt_kernel := k, pt_tm := (pt_tm s)\<lparr>tm_ticks := now + n\<rparr>\<rparr>))"
| pt_set:
    "pt_pcs s c = P_Set n \<Longrightarrow> pt_step api c s (pt_goto c (P_Arm n) (pt_active True s))"
| pt_arm:
    "pt_pcs s c = P_Arm n \<Longrightarrow> tm_timer (pt_tm s) = Some tid \<Longrightarrow>
     timer_settime api tid 0 (one_shot n) (pt_kernel s) = Returns ret k \<Longrightarrow>
     pt_step api c s (pt_goto c P_Out (s\<lparr>pt_kernel := k, pt_arms := pt_arms s + (if ret = 0 then 1 else 0)\<rparr>))"
| pt_stop_invalid:
    "pt_pcs s c = P_Stop \<Longrightarrow> tm_timer (pt_tm s) = None \<Longrightarrow> pt_step api c s (pt_goto c P_Out s)"
| pt_stop:
    "pt_pcs s c = P_Stop \<Longrightarrow> tm_timer (pt_tm s) \<noteq> None \<Longrightarrow> pt_step api c s (pt_goto c P_Disarm s)"
| pt_disarm:
    "pt_pcs s c = P_Disarm \<Longrightarrow> tm_timer (pt_tm s) = Some tid \<Longrightarrow>
     timer_settime api tid 0 disarm (pt_kernel s) = Returns ret k \<Longrightarrow>
     pt_step api c s (pt_goto c (if ret = 0 then P_Clear else P_Out) (s\<lparr>pt_kernel := k\<rparr>))"
| pt_clear_flag:
    "pt_pcs s c = P_Clear \<Longrightarrow> pt_step api c s (pt_goto c P_Out (pt_active False s))"

text \<open>An expiry, which disarms the timer and creates a notification thread, and the two steps of such a thread in \<open>pos_timer_cb\<close>.\<close>

inductive nt_step ::
    "('t \<Rightarrow> 'k \<Rightarrow> 'k option) \<Rightarrow> ('c, 'f, 'p, 't, 'k) pt_sys \<Rightarrow> ('c, 'f, 'p, 't, 'k) pt_sys \<Rightarrow> bool"
  for expire where
  nt_expire:
    "tm_timer (pt_tm s) = Some tid \<Longrightarrow> expire tid (pt_kernel s) = Some k \<Longrightarrow>
     nt_step expire s (s\<lparr>pt_kernel := k, pt_clear := Suc (pt_clear s)\<rparr>)"
| nt_clear:
    "pt_clear s = Suc m \<Longrightarrow>
     nt_step expire s (pt_active False (s\<lparr>pt_clear := m, pt_call := Suc (pt_call s)\<rparr>))"
| nt_call:
    "pt_call s = Suc m \<Longrightarrow> tm_cb (pt_tm s) = Some f \<Longrightarrow>
     nt_step expire s (s\<lparr>pt_call := m, pt_fired := Suc (pt_fired s)\<rparr>)"

text \<open>Reachable states.  The calls that a callback makes are calls of some thread \<open>c\<close>.\<close>

inductive pt_reach ::
    "bool \<Rightarrow> ('t, 'o, 'k) posix_timer_api \<Rightarrow> ('t \<Rightarrow> 'k \<Rightarrow> 'k option) \<Rightarrow> ('k \<Rightarrow> 't \<Rightarrow> int option) \<Rightarrow>
     ('f, 'p, 't) pos_timer_posix \<Rightarrow> 'k \<Rightarrow> ('c, 'f, 'p, 't, 'k) pt_sys \<Rightarrow> bool"
  for calm api expire armed tm0 k0 where
  pt_begin:
    "pt_reach calm api expire armed tm0 k0
       \<lparr>pt_tm = tm0, pt_kernel = k0, pt_pcs = \<lambda>_. P_Out, pt_clear = 0, pt_call = 0, pt_fired = 0, pt_arms = 0\<rparr>"
| pt_enter_start:
    "pt_reach calm api expire armed tm0 k0 s \<Longrightarrow> pt_pcs s c = P_Out \<Longrightarrow>
     calm \<longrightarrow> (\<forall>d. pt_pcs s d = P_Out) \<and> pt_clear s = 0 \<and>
              (\<forall>tid. tm_timer (pt_tm s) = Some tid \<longrightarrow> armed (pt_kernel s) tid = None) \<Longrightarrow>
     pt_reach calm api expire armed tm0 k0 (pt_goto c (P_Start n) s)"
| pt_enter_stop:
    "pt_reach calm api expire armed tm0 k0 s \<Longrightarrow> pt_pcs s c = P_Out \<Longrightarrow>
     calm \<longrightarrow> (\<forall>d. pt_pcs s d = P_Out) \<Longrightarrow>
     pt_reach calm api expire armed tm0 k0 (pt_goto c P_Stop s)"
| pt_work:
    "pt_reach calm api expire armed tm0 k0 s \<Longrightarrow> pt_step api c s s' \<Longrightarrow> pt_reach calm api expire armed tm0 k0 s'"
| pt_notify:
    "pt_reach calm api expire armed tm0 k0 s \<Longrightarrow> nt_step expire s s' \<Longrightarrow> pt_reach calm api expire armed tm0 k0 s'"

text \<open>What happens while one thread \<open>c\<close> is inside a call and no other call is made: its steps, expiries and notifications.\<close>

definition pt_during ::
    "('t, 'o, 'k) posix_timer_api \<Rightarrow> ('t \<Rightarrow> 'k \<Rightarrow> 'k option) \<Rightarrow> 'c \<Rightarrow>
     ('c, 'f, 'p, 't, 'k) pt_sys \<Rightarrow> ('c, 'f, 'p, 't, 'k) pt_sys \<Rightarrow> bool" where
  "pt_during api expire c s s' \<longleftrightarrow> pt_step api c s s' \<or> nt_step expire s s'"

text \<open>In every interleaving: the callbacks made, those under way and one for an armed timer are at most the successful starts.\<close>

definition pt_bounded :: "('k \<Rightarrow> 't \<Rightarrow> int option) \<Rightarrow> 't \<Rightarrow> ('c, 'f, 'p, 't, 'k) pt_sys \<Rightarrow> bool" where
  "pt_bounded armed tid s \<longleftrightarrow>
     pt_fired s + pt_call s + pt_clear s + (if armed (pt_kernel s) tid = None then 0 else 1) \<le> pt_arms s"

fun in_start :: "pt_pc \<Rightarrow> bool" where
  "in_start (P_Start n) = True"
| "in_start (P_Clock n) = True"
| "in_start (P_Set n) = True"
| "in_start (P_Arm n) = True"
| "in_start _ = False"

fun may_set :: "pt_pc \<Rightarrow> bool" where
  "may_set (P_Arm n) = True"
| "may_set P_Clear = True"
| "may_set _ = False"

fun ticks_ok :: "pt_pc \<Rightarrow> bool" where
  "ticks_ok (P_Clock n) \<longleftrightarrow> n \<noteq> 0"
| "ticks_ok (P_Set n) \<longleftrightarrow> n \<noteq> 0"
| "ticks_ok (P_Arm n) \<longleftrightarrow> n \<noteq> 0"
| "ticks_ok _ \<longleftrightarrow> True"

text \<open>
  What a calm program keeps besides: at most one thread \<open>c\<close> is inside a call, and its position, the flag, the
  notifications that are to clear it and whether the timer is armed fit together.
\<close>

definition calm_ok :: "pt_pc \<Rightarrow> bool \<Rightarrow> nat \<Rightarrow> bool \<Rightarrow> bool" where
  "calm_ok pc act clr arm \<longleftrightarrow>
     ticks_ok pc \<and> (in_start pc \<longrightarrow> clr = 0 \<and> \<not> arm) \<and> (in_start pc \<and> may_set pc \<longrightarrow> act) \<and>
     (pc = P_Clear \<longrightarrow> \<not> arm) \<and> (arm \<longrightarrow> act \<and> clr = 0) \<and> (act \<longrightarrow> arm \<or> 0 < clr \<or> may_set pc)"

definition pt_calm :: "('k \<Rightarrow> 't \<Rightarrow> int option) \<Rightarrow> 't \<Rightarrow> ('c, 'f, 'p, 't, 'k) pt_sys \<Rightarrow> bool" where
  "pt_calm armed tid s \<longleftrightarrow>
     (\<exists>c. (\<forall>d. d \<noteq> c \<longrightarrow> pt_pcs s d = P_Out) \<and>
          calm_ok (pt_pcs s c) (tm_active (pt_tm s)) (pt_clear s) (armed (pt_kernel s) tid \<noteq> None))"

section \<open>One call at a time\<close>

lemma pt_upd_simps [simp]:
  "pt_tm (pt_goto c pc s) = pt_tm s" "pt_kernel (pt_goto c pc s) = pt_kernel s" "pt_clear (pt_goto c pc s) = pt_clear s"
  "pt_call (pt_goto c pc s) = pt_call s" "pt_fired (pt_goto c pc s) = pt_fired s" "pt_arms (pt_goto c pc s) = pt_arms s"
  "pt_pcs (pt_goto c pc s) = (pt_pcs s)(c := pc)"
  "pt_tm (pt_active b s) = (pt_tm s)\<lparr>tm_active := b\<rparr>" "pt_kernel (pt_active b s) = pt_kernel s"
  "pt_clear (pt_active b s) = pt_clear s" "pt_call (pt_active b s) = pt_call s" "pt_fired (pt_active b s) = pt_fired s"
  "pt_arms (pt_active b s) = pt_arms s" "pt_pcs (pt_active b s) = pt_pcs s"
  by (simp_all add: pt_goto_def pt_active_def)

inductive_cases pt_stepE: "pt_step api c s s'"
inductive_cases nt_stepE: "nt_step expire s s'"

text \<open>Without interference the steps of a thread are the function of \<open>Posix_Timer\<close>.\<close>

lemma start_alone:
  assumes "pt_pcs s c = P_Start n" and "pos_timer_start_posix api n (pt_tm s, pt_kernel s) = Returns e (tm, k)"
  shows "\<exists>a. (pt_step api c)\<^sup>*\<^sup>* s
    (s\<lparr>pt_kernel := k, pt_tm := tm, pt_pcs := (pt_pcs s)(c := P_Out), pt_arms := a\<rparr>)"
proof (cases "tm_timer (pt_tm s)")
  case None
  then have "tm = pt_tm s" "k = pt_kernel s" using assms(2) by (auto simp: pos_timer_start_posix_def prog_defs)
  then show ?thesis
    using r_into_rtranclp [of "pt_step api c", OF pt_start_invalid [OF assms(1) None]]
    by (intro exI [of _ "pt_arms s"]) (simp add: pt_goto_def)
next
  case (Some tid)
  let ?n = "if n = 0 then 1 else n"
  obtain now k1 ret where x: "pos_time_get_posix (clock_monotonic api) (pt_kernel s) = Returns now k1"
      "timer_settime api tid 0 (one_shot ?n) k1 = Returns ret k" "tm = (pt_tm s)\<lparr>tm_ticks := now + ?n, tm_active := True\<rparr>"
    using assms(2) Some by (auto simp: pos_timer_start_posix_def prog_defs Let_def split: outcome.splits if_splits)
  note go = converse_rtranclp_into_rtranclp [of "pt_step api c"]
  let ?s1 = "pt_goto c (P_Clock ?n) s"
  let ?s2 = "pt_goto c (P_Set ?n) (?s1\<lparr>pt_kernel := k1, pt_tm := (pt_tm ?s1)\<lparr>tm_ticks := now + ?n\<rparr>\<rparr>)"
  let ?s3 = "pt_goto c (P_Arm ?n) (pt_active True ?s2)"
  let ?s4 = "pt_goto c P_Out (?s3\<lparr>pt_kernel := k, pt_arms := pt_arms ?s3 + (if ret = 0 then 1 else 0)\<rparr>)"
  have "pt_step api c s ?s1" by (rule pt_start [OF assms(1)]) (simp add: Some)
  moreover have "pt_step api c ?s1 ?s2" by (rule pt_clock) (simp_all add: x(1))
  moreover have "pt_step api c ?s2 ?s3" by (rule pt_set) simp
  moreover have "pt_step api c ?s3 ?s4" using x(2) by (intro pt_arm [where tid = tid]) (simp_all add: Some)
  ultimately have "(pt_step api c)\<^sup>*\<^sup>* s ?s4" by (intro go [OF _ go [OF _ go [OF _ r_into_rtranclp]]])
  moreover have "?s4 = s\<lparr>pt_kernel := k, pt_tm := tm, pt_pcs := (pt_pcs s)(c := P_Out), pt_arms := pt_arms ?s4\<rparr>"
    by (simp add: pt_goto_def pt_active_def x(3))
  ultimately show ?thesis by metis
qed

lemma stop_alone:
  assumes "pt_pcs s c = P_Stop" and "pos_timer_stop_posix api (pt_tm s, pt_kernel s) = Returns e (tm, k)"
  shows "(pt_step api c)\<^sup>*\<^sup>* s (s\<lparr>pt_kernel := k, pt_tm := tm, pt_pcs := (pt_pcs s)(c := P_Out)\<rparr>)"
proof (cases "tm_timer (pt_tm s)")
  case None
  then have "tm = pt_tm s" "k = pt_kernel s" using assms(2) by (auto simp: pos_timer_stop_posix_def prog_defs)
  then show ?thesis
    using r_into_rtranclp [of "pt_step api c", OF pt_stop_invalid [OF assms(1) None]] by (simp add: pt_goto_def)
next
  case (Some tid)
  obtain ret where x: "timer_settime api tid 0 disarm (pt_kernel s) = Returns ret k"
      "tm = (if ret = 0 then (pt_tm s)\<lparr>tm_active := False\<rparr> else pt_tm s)"
    using assms(2) Some by (auto simp: pos_timer_stop_posix_def disarm_def prog_defs split: outcome.splits if_splits)
  note go = converse_rtranclp_into_rtranclp [of "pt_step api c"]
  let ?s1 = "pt_goto c P_Disarm s"
  let ?s2 = "pt_goto c (if ret = 0 then P_Clear else P_Out) (?s1\<lparr>pt_kernel := k\<rparr>)"
  let ?s3 = "s\<lparr>pt_kernel := k, pt_tm := tm, pt_pcs := (pt_pcs s)(c := P_Out)\<rparr>"
  have 1: "pt_step api c s ?s1" using pt_stop [OF assms(1)] Some by simp
  have 2: "pt_step api c ?s1 ?s2" by (rule pt_disarm [where tid = tid]) (simp_all add: Some x(1))
  have "(pt_step api c)\<^sup>*\<^sup>* ?s2 ?s3"
  proof (cases "ret = 0")
    case True
    then have "pt_step api c ?s2 (pt_goto c P_Out (pt_active False ?s2))" by (intro pt_clear_flag) simp
    then show ?thesis using True x(2) by (intro r_into_rtranclp) (simp add: pt_goto_def pt_active_def)
  next
    case False
    then have "?s2 = ?s3" using x(2) by (simp add: pt_goto_def)
    then show ?thesis by simp
  qed
  then show ?thesis by (rule go [OF 1 go [OF 2]])
qed

section \<open>Every interleaving\<close>

context posix_timer_kernel
begin

lemma settime_one_shot:
  assumes "usable k tid" and "timer_settime api tid 0 (one_shot n) k = Returns ret k'"
  shows "ret = 0 \<and> usable k' tid \<and> armed k' tid = (if n = 0 then None else Some (uint n * 1000000)) \<and> period k' tid = 0"
  using settime_arms [OF assms(1), of "one_shot n"] one_shot_value [of n] assms(2) by (auto simp: uint_0_iff)

lemma settime_disarm:
  assumes "usable k tid" and "timer_settime api tid 0 disarm k = Returns ret k'"
  shows "ret = 0 \<and> usable k' tid \<and> armed k' tid = None"
  using settime_arms [OF assms(1), of disarm] assms(2) by (auto simp: disarm_def valid_timespec_def instant_ns_def)

lemma clock_same:
  assumes "usable k tid" and "pos_time_get_posix (clock_monotonic api) k = Returns now k'"
  shows "k' = k"
  using uptime_reads [OF assms(1)] assms(2) by auto

lemma pt_reach_bounded:
  assumes "pt_reach calm api expire armed tm0 k0 s"
    and "tm_timer tm0 = Some tid" and "usable k0 tid" and "armed k0 tid = None"
  shows "tm_timer (pt_tm s) = Some tid \<and> usable (pt_kernel s) tid \<and> pt_bounded armed tid s \<and>
         (armed (pt_kernel s) tid \<noteq> None \<longrightarrow> period (pt_kernel s) tid = 0)"
  using assms(1)
proof (induction rule: pt_reach.induct)
  case pt_begin
  then show ?case using assms(2-4) by (simp add: pt_bounded_def)
next
  case (pt_work s c s')
  from pt_work.hyps(2) pt_work.IH show ?case
    by (cases rule: pt_stepE) (auto simp: pt_bounded_def dest!: settime_one_shot [rotated] settime_disarm [rotated] clock_same [rotated])
next
  case (pt_notify s s')
  from pt_notify.hyps(2) pt_notify.IH show ?case
    by (cases rule: nt_stepE) (auto simp: pt_bounded_def dest!: expire_reloads [rotated])
qed (simp_all add: pt_bounded_def)

lemma pt_step_calm:
  assumes st: "pt_step api c s s'" and "pt_calm armed tid s" and tid: "tm_timer (pt_tm s) = Some tid"
    and us: "usable (pt_kernel s) tid"
  shows "pt_calm armed tid s'"
proof -
  obtain c' where c': "\<forall>d. d \<noteq> c' \<longrightarrow> pt_pcs s d = P_Out"
      "calm_ok (pt_pcs s c') (tm_active (pt_tm s)) (pt_clear s) (armed (pt_kernel s) tid \<noteq> None)"
    using assms(2) by (auto simp: pt_calm_def)
  have "pt_pcs s c \<noteq> P_Out" using st by (cases rule: pt_step.cases) auto
  then have "c' = c" using c'(1) by metis
  note c = c' [unfolded this]
  have "\<forall>d. d \<noteq> c \<longrightarrow> pt_pcs s' d = P_Out" using st c(1) by (cases rule: pt_step.cases) auto
  moreover have "calm_ok (pt_pcs s' c) (tm_active (pt_tm s')) (pt_clear s') (armed (pt_kernel s') tid \<noteq> None)"
    using st
  proof cases
    case (pt_clock n now k)
    then show ?thesis using c(2) clock_same [OF us pt_clock(3)] by (auto simp: calm_ok_def)
  next
    case (pt_arm n tid' ret k)
    then show ?thesis using c(2) tid settime_one_shot [OF us, of n ret k] by (simp add: calm_ok_def)
  next
    case (pt_disarm tid' ret k)
    then show ?thesis using c(2) tid settime_disarm [OF us, of ret k] by (simp add: calm_ok_def)
  qed (use c(2) tid in \<open>auto simp: calm_ok_def\<close>)
  ultimately show ?thesis by (auto simp: pt_calm_def)
qed

lemma nt_step_calm:
  assumes st: "nt_step expire s s'" and "pt_calm armed tid s" and tid: "tm_timer (pt_tm s) = Some tid"
    and us: "usable (pt_kernel s) tid" and once: "armed (pt_kernel s) tid \<noteq> None \<longrightarrow> period (pt_kernel s) tid = 0"
  shows "pt_calm armed tid s'"
proof -
  obtain c where c: "\<forall>d. d \<noteq> c \<longrightarrow> pt_pcs s d = P_Out"
      "calm_ok (pt_pcs s c) (tm_active (pt_tm s)) (pt_clear s) (armed (pt_kernel s) tid \<noteq> None)"
    using assms(2) by (auto simp: pt_calm_def)
  have "pt_pcs s' = pt_pcs s" using st by (cases rule: nt_step.cases) auto
  moreover have "calm_ok (pt_pcs s c) (tm_active (pt_tm s')) (pt_clear s') (armed (pt_kernel s') tid \<noteq> None)"
    using st
  proof cases
    case (nt_expire tid' k)
    then show ?thesis using c(2) tid once expire_reloads [OF us, of k] by (auto simp: calm_ok_def)
  next
    case (nt_clear m)
    then show ?thesis using c(2) by (auto simp: calm_ok_def)
  qed (use c(2) in simp)
  ultimately show ?thesis using c(1) by (auto simp: pt_calm_def)
qed

lemma pt_reach_calm:
  assumes "pt_reach True api expire armed tm0 k0 s"
    and start: "tm_timer tm0 = Some tid" "usable k0 tid" "armed k0 tid = None" and "\<not> tm_active tm0"
  shows "pt_calm armed tid s"
  using assms(1)
proof (induction rule: pt_reach.induct)
  case pt_begin
  then show ?case using assms by (simp add: pt_calm_def calm_ok_def)
next
  case (pt_enter_start s c n)
  have "tm_timer (pt_tm s) = Some tid" using pt_reach_bounded [OF pt_enter_start.hyps(1) start] by blast
  with pt_enter_start.hyps(3)
  have "\<forall>d. pt_pcs s d = P_Out" "pt_clear s = 0" "armed (pt_kernel s) tid = None" by simp_all
  with pt_enter_start.IH have "calm_ok (P_Start n) (tm_active (pt_tm s)) (pt_clear s) (armed (pt_kernel s) tid \<noteq> None)"
    by (auto simp: pt_calm_def calm_ok_def)
  then show ?case using \<open>\<forall>d. pt_pcs s d = P_Out\<close> unfolding pt_calm_def by (intro exI [of _ c]) simp
next
  case (pt_enter_stop s c)
  then have out: "\<forall>d. pt_pcs s d = P_Out" by simp
  with pt_enter_stop.IH have "calm_ok P_Stop (tm_active (pt_tm s)) (pt_clear s) (armed (pt_kernel s) tid \<noteq> None)"
    by (auto simp: pt_calm_def calm_ok_def)
  then show ?case using out unfolding pt_calm_def by (intro exI [of _ c]) simp
next
  case (pt_work s c s')
  then show ?case using pt_step_calm [of c s s'] pt_reach_bounded [OF pt_work.hyps(1) start] by simp
next
  case (pt_notify s s')
  then show ?case using nt_step_calm [of s s'] pt_reach_bounded [OF pt_notify.hyps(1) start] by simp
qed

end

section \<open>Runs of the reference system\<close>

text \<open>A whole start of thread \<open>c\<close>, alone, and the states it passes through are reachable.\<close>

lemma pt_reach_steps:
  assumes "(pt_step api c)\<^sup>*\<^sup>* s s'" and "pt_reach calm api expire armed tm0 k0 s"
  shows "pt_reach calm api expire armed tm0 k0 s'"
  using assms by (induction rule: rtranclp_induct) (auto intro: pt_work)

lemma pt_reach_start:
  assumes "pt_reach calm api expire armed tm0 k0 s" and "pt_pcs s c = P_Out"
    and "calm \<longrightarrow> (\<forall>d. pt_pcs s d = P_Out) \<and> pt_clear s = 0 \<and>
              (\<forall>tid. tm_timer (pt_tm s) = Some tid \<longrightarrow> armed (pt_kernel s) tid = None)"
    and "pos_timer_start_posix api n (pt_tm s, pt_kernel s) = Returns e (tm, k)"
  shows "\<exists>a. pt_reach calm api expire armed tm0 k0 (s\<lparr>pt_kernel := k, pt_tm := tm, pt_arms := a\<rparr>)"
proof -
  let ?s = "pt_goto c (P_Start n) s"
  have "pt_reach calm api expire armed tm0 k0 ?s" by (rule pt_enter_start [OF assms(1-3)])
  moreover obtain a where "(pt_step api c)\<^sup>*\<^sup>* ?s
      (?s\<lparr>pt_kernel := k, pt_tm := tm, pt_pcs := (pt_pcs ?s)(c := P_Out), pt_arms := a\<rparr>)"
    using start_alone [of ?s c n api e tm k] assms(4) by auto
  moreover have "?s\<lparr>pt_kernel := k, pt_tm := tm, pt_pcs := (pt_pcs ?s)(c := P_Out), pt_arms := a\<rparr> =
      s\<lparr>pt_kernel := k, pt_tm := tm, pt_arms := a\<rparr>" for a
    using assms(2) by (simp add: pt_goto_def fun_upd_idem)
  ultimately show ?thesis using pt_reach_steps by metis
qed

definition demo_timer :: "(nat, nat, nat) pos_timer_posix" where
  "demo_timer = timer_zero\<lparr>tm_cb := Some 3, tm_timer := Some 4\<rparr>"

definition demo_timers :: ref_timers where
  "demo_timers = \<lparr>rt_armed = \<lambda>_. None, rt_period = \<lambda>_. 0, rt_live = \<lambda>_. True, rt_now = 0\<rparr>"

lemma demo_start:
  assumes "tm_timer t = Some 4" and "rt_now k = 0"
  shows "pos_timer_start_posix ref_timer_api 5 (t, k) =
     Returns POS_OK (t\<lparr>tm_ticks := 5, tm_active := True\<rparr>,
       k\<lparr>rt_armed := (rt_armed k)(4 := Some 5000000), rt_period := (rt_period k)(4 := 0)\<rparr>)"
  using assms
  by (simp add: pos_timer_start_posix_def prog_defs Let_def ref_timer_clock0 ref_timer_simps one_shot_def
      valid_timespec_def instant_ns_def)

lemma demo_stop:
  assumes "tm_timer t = Some 4"
  shows "pos_timer_stop_posix ref_timer_api (t, k) =
     Returns POS_OK (t\<lparr>tm_active := False\<rparr>,
       k\<lparr>rt_armed := (rt_armed k)(4 := None), rt_period := (rt_period k)(4 := 0)\<rparr>)"
  using assms by (simp add: pos_timer_stop_posix_def prog_defs ref_timer_simps valid_timespec_def instant_ns_def)

text \<open>After a start, in a calm program or not: the timer runs.\<close>

lemma demo_running:
  "\<exists>s :: (nat, nat, nat, nat, ref_timers) pt_sys. pt_reach calm ref_timer_api ref_expire rt_armed demo_timer demo_timers s \<and>
     pt_pcs s = (\<lambda>_. P_Out) \<and> pt_clear s = 0 \<and> pt_call s = 0 \<and> pt_fired s = 0 \<and>
     tm_timer (pt_tm s) = Some 4 \<and> tm_cb (pt_tm s) = Some 3 \<and> tm_active (pt_tm s) \<and>
     rt_now (pt_kernel s) = 0 \<and> rt_armed (pt_kernel s) 4 = Some 5000000 \<and> rt_period (pt_kernel s) 4 = 0"
proof -
  let ?s0 = "\<lparr>pt_tm = demo_timer, pt_kernel = demo_timers, pt_pcs = \<lambda>_ :: nat. P_Out, pt_clear = 0, pt_call = 0,
              pt_fired = 0, pt_arms = 0\<rparr>"
  obtain a where "pt_reach calm ref_timer_api ref_expire rt_armed demo_timer demo_timers
      (?s0\<lparr>pt_kernel := demo_timers\<lparr>rt_armed := (rt_armed demo_timers)(4 := Some 5000000), rt_period := (rt_period demo_timers)(4 := 0)\<rparr>,
           pt_tm := demo_timer\<lparr>tm_ticks := 5, tm_active := True\<rparr>, pt_arms := a\<rparr>)"
    using pt_reach_start [OF pt_begin, where c = 0 and calm = calm and api = ref_timer_api and n = 5 and expire = ref_expire
        and armed = rt_armed and ?tm0.0 = demo_timer and ?k0.0 = demo_timers, simplified, OF _ demo_start]
    by (auto simp: demo_timer_def demo_timers_def timer_zero_def)
  then show ?thesis by (intro exI conjI) (assumption, simp_all add: demo_timer_def demo_timers_def)
qed

text \<open>The timer expires while a call is made; the notification thread has not run yet.\<close>

lemma demo_expires:
  fixes s :: "(nat, 'f, 'p, nat, ref_timers) pt_sys"
  assumes "tm_timer (pt_tm s) = Some 4" and "rt_armed (pt_kernel s) 4 = Some d" and "rt_period (pt_kernel s) 4 = 0"
  obtains s' where "nt_step ref_expire s s'" and "pt_pcs s' = pt_pcs s" and "pt_clear s' = Suc (pt_clear s)" and "pt_call s' = pt_call s"
    and "pt_tm s' = pt_tm s" and "rt_now (pt_kernel s') = rt_now (pt_kernel s)" and "pt_fired s' = pt_fired s"
proof -
  let ?k = "(pt_kernel s)\<lparr>rt_armed := (rt_armed (pt_kernel s))(4 := None)\<rparr>"
  have "nt_step ref_expire s (s\<lparr>pt_kernel := ?k, pt_clear := Suc (pt_clear s)\<rparr>)"
    using assms by (intro nt_expire [where tid = 4]) (simp_all add: ref_expire_def)
  then show ?thesis by (rule that) simp_all
qed

lemma demo_notified:
  assumes "pt_clear s = Suc 0"
  obtains s' where "nt_step expire s s'" and "pt_pcs s' = pt_pcs s" and "pt_clear s' = 0" and "pt_call s' = Suc (pt_call s)"
    and "tm_cb (pt_tm s') = tm_cb (pt_tm s)" and "\<not> tm_active (pt_tm s')" and "pt_kernel s' = pt_kernel s" and "pt_fired s' = pt_fired s"
  using nt_clear [OF assms] by (rule that) simp_all

lemma steps_during: "(pt_step api c)\<^sup>*\<^sup>* s s' \<Longrightarrow> (pt_during api expire c)\<^sup>*\<^sup>* s s'"
  by (erule rtranclp_mono [THEN predicate2D, rotated]) (auto simp: pt_during_def)

lemma notes_during: "nt_step expire s s' \<Longrightarrow> pt_during api expire c s s'"
  by (simp add: pt_during_def)

text \<open>A restart of a running timer that expires just before, and whose notification comes just after.\<close>

lemma demo_restart:
  fixes s :: "(nat, 'f, 'p, nat, ref_timers) pt_sys"
  assumes s: "pt_pcs s = (\<lambda>_. P_Out)" "pt_clear s = 0" "tm_timer (pt_tm s) = Some 4" "rt_now (pt_kernel s) = 0"
    "rt_armed (pt_kernel s) 4 = Some d" "rt_period (pt_kernel s) 4 = 0"
  shows "\<exists>s'. (pt_during ref_timer_api ref_expire 0)\<^sup>*\<^sup>* (pt_goto 0 (P_Start 5) s) s' \<and> pt_pcs s' = (\<lambda>_. P_Out) \<and>
     pt_clear s' = 0 \<and> rt_armed (pt_kernel s') 4 = Some 5000000 \<and> \<not> tm_active (pt_tm s')"
proof -
  let ?s0 = "pt_goto 0 (P_Start 5) s"
  obtain s1 where s1: "nt_step ref_expire ?s0 s1" "pt_pcs s1 = pt_pcs ?s0" "pt_clear s1 = Suc 0" "pt_tm s1 = pt_tm s"
      "rt_now (pt_kernel s1) = 0"
    by (rule demo_expires [of ?s0 d]) (use s in auto)
  have "pt_pcs s1 0 = P_Start 5" "tm_timer (pt_tm s1) = Some 4" using s1 s by simp_all
  from start_alone [OF this(1) demo_start [OF this(2) s1(5)]]
  obtain s2 where s2: "(pt_step ref_timer_api 0)\<^sup>*\<^sup>* s1 s2" "pt_pcs s2 = (pt_pcs s1)(0 := P_Out)" "pt_clear s2 = Suc 0"
      "rt_armed (pt_kernel s2) 4 = Some 5000000"
    using s1(3) by fastforce
  obtain s3 where s3: "nt_step ref_expire s2 s3" "pt_pcs s3 = pt_pcs s2" "pt_clear s3 = 0" "\<not> tm_active (pt_tm s3)"
      "pt_kernel s3 = pt_kernel s2"
    by (rule demo_notified [OF s2(3)])
  have "(pt_during ref_timer_api ref_expire 0)\<^sup>*\<^sup>* ?s0 s3"
    by (rule converse_rtranclp_into_rtranclp [OF notes_during [OF s1(1)]
          rtranclp.rtrancl_into_rtrancl [OF steps_during [OF s2(1)] notes_during [OF s3(1)]]])
  then show ?thesis using s(1) s1(2) s2(2,4) s3 by (intro exI [of _ s3]) (simp add: fun_eq_iff)
qed

text \<open>A stop of a timer that expires just before.\<close>

lemma demo_late:
  fixes s :: "(nat, nat, 'p, nat, ref_timers) pt_sys"
  assumes s: "pt_pcs s = (\<lambda>_. P_Out)" "pt_clear s = 0" "pt_call s = 0" "tm_timer (pt_tm s) = Some 4" "tm_cb (pt_tm s) = Some 3"
    "rt_armed (pt_kernel s) 4 = Some d" "rt_period (pt_kernel s) 4 = 0"
  shows "\<exists>s1 s2. (pt_during ref_timer_api ref_expire 0)\<^sup>*\<^sup>* (pt_goto 0 P_Stop s) s1 \<and> pt_pcs s1 = (\<lambda>_. P_Out) \<and>
     rt_armed (pt_kernel s1) 4 = None \<and> pt_fired s1 = pt_fired s \<and>
     (nt_step ref_expire)\<^sup>*\<^sup>* s1 s2 \<and> pt_fired s2 = Suc (pt_fired s1)"
proof -
  let ?s0 = "pt_goto 0 P_Stop s"
  obtain s1 where s1: "nt_step ref_expire ?s0 s1" "pt_pcs s1 = pt_pcs ?s0" "pt_clear s1 = Suc 0" "pt_call s1 = 0" "pt_tm s1 = pt_tm s"
      "pt_fired s1 = pt_fired s"
    by (rule demo_expires [of ?s0 d]) (use s in auto)
  have "pt_pcs s1 0 = P_Stop" "tm_timer (pt_tm s1) = Some 4" using s1 s by simp_all
  from stop_alone [OF this(1) demo_stop [OF this(2)]]
  obtain s2 where s2: "(pt_step ref_timer_api 0)\<^sup>*\<^sup>* s1 s2" "pt_pcs s2 = (pt_pcs s1)(0 := P_Out)" "pt_clear s2 = Suc 0"
      "pt_call s2 = 0" "tm_cb (pt_tm s2) = tm_cb (pt_tm s)" "rt_armed (pt_kernel s2) 4 = None" "pt_fired s2 = pt_fired s"
    using s1(3-6) by fastforce
  obtain s3 where s3: "nt_step ref_expire s2 s3" "pt_call s3 = Suc 0" "tm_cb (pt_tm s3) = Some 3" "pt_fired s3 = pt_fired s2"
    by (rule demo_notified [OF s2(3)]) (use s s2 in auto)
  have 4: "nt_step ref_expire s3 (s3\<lparr>pt_call := 0, pt_fired := Suc (pt_fired s3)\<rparr>)" by (rule nt_call [OF s3(2,3)])
  have "(pt_during ref_timer_api ref_expire 0)\<^sup>*\<^sup>* ?s0 s2"
    by (rule converse_rtranclp_into_rtranclp [OF notes_during [OF s1(1)] steps_during [OF s2(1)]])
  moreover have "(nt_step ref_expire)\<^sup>*\<^sup>* s2 (s3\<lparr>pt_call := 0, pt_fired := Suc (pt_fired s3)\<rparr>)"
    using s3(1) 4 by (meson converse_rtranclp_into_rtranclp rtranclp.rtrancl_refl)
  ultimately show ?thesis using s(1) s1(2) s2 s3 by (intro exI [of _ s2] exI conjI) (assumption | simp add: fun_eq_iff)+
qed

section \<open>Properties\<close>

text \<open>C17. One callback per start, in every interleaving: for any number of threads inside \<open>pos_timer_start\<close> and
  \<open>pos_timer_stop\<close>, with expiries and their notification threads between any two steps, the callbacks made and those
  still to be made, with one more while the timer is armed, never exceed the starts that succeeded.\<close>

theorem posix_timer_threads_one_shot:
  assumes "posix_timer_kernel api expire armed period usable" and "pt_reach calm api expire armed tm0 k0 s"
    and "tm_timer tm0 = Some tid" and "usable k0 tid" and "armed k0 tid = None"
  shows "pt_fired s + pt_call s + pt_clear s + (if armed (pt_kernel s) tid = None then 0 else 1) \<le> pt_arms s"
  using posix_timer_kernel.pt_reach_bounded [OF assms] by (simp add: pt_bounded_def)

theorem posix_timer_threads_one_shot_witness:
  "\<exists>s :: (nat, nat, nat, nat, ref_timers) pt_sys.
     pt_reach False ref_timer_api ref_expire rt_armed demo_timer demo_timers s \<and>
     rt_armed (pt_kernel s) 4 = Some 5000000 \<and> pt_fired s + 1 \<le> pt_arms s"
proof -
  obtain s :: "(nat, nat, nat, nat, ref_timers) pt_sys" where
    s: "pt_reach False ref_timer_api ref_expire rt_armed demo_timer demo_timers s" "rt_armed (pt_kernel s) 4 = Some 5000000"
    using demo_running by blast
  have "pt_fired s + pt_call s + pt_clear s + (if rt_armed (pt_kernel s) 4 = None then 0 else 1) \<le> pt_arms s"
    by (rule posix_timer_threads_one_shot [OF ref_timer.posix_timer_kernel_axioms s(1)])
      (simp_all add: demo_timer_def demo_timers_def rt_uptime_ok_def)
  then show ?thesis using s by auto
qed

text \<open>C18. The active flag under concurrency: in a program in which at most one thread at a time is inside \<open>pos_timer_start\<close> or
  \<open>pos_timer_stop\<close>, and which starts the timer only when it is disarmed and no notification is still to clear the
  flag, an armed timer is always marked active, and whenever no call and no such notification is under way the flag says
  exactly whether the timer is armed.\<close>

theorem posix_timer_threads_flag:
  assumes "posix_timer_kernel api expire armed period usable" and "pt_reach True api expire armed tm0 k0 s"
    and "tm_timer tm0 = Some tid" and "usable k0 tid" and "armed k0 tid = None" and "\<not> tm_active tm0"
  shows "(armed (pt_kernel s) tid \<noteq> None \<longrightarrow> pos_timer_is_active_posix (pt_tm s)) \<and>
         ((\<forall>c. pt_pcs s c = P_Out) \<and> pt_clear s = 0 \<longrightarrow>
            (pos_timer_is_active_posix (pt_tm s) \<longleftrightarrow> armed (pt_kernel s) tid \<noteq> None))"
  using posix_timer_kernel.pt_reach_calm [OF assms]
  by (auto simp: pt_calm_def calm_ok_def pos_timer_is_active_posix_def)

theorem posix_timer_threads_flag_witness:
  "\<exists>s :: (nat, nat, nat, nat, ref_timers) pt_sys.
     pt_reach True ref_timer_api ref_expire rt_armed demo_timer demo_timers s \<and>
     rt_armed (pt_kernel s) 4 = Some 5000000 \<and> pos_timer_is_active_posix (pt_tm s)"
proof -
  obtain s :: "(nat, nat, nat, nat, ref_timers) pt_sys" where
    s: "pt_reach True ref_timer_api ref_expire rt_armed demo_timer demo_timers s" "rt_armed (pt_kernel s) 4 = Some 5000000"
    using demo_running by blast
  have "rt_armed (pt_kernel s) 4 \<noteq> None \<longrightarrow> pos_timer_is_active_posix (pt_tm s)"
    by (rule posix_timer_threads_flag [OF ref_timer.posix_timer_kernel_axioms s(1), THEN conjunct1])
      (simp_all add: demo_timer_def demo_timers_def timer_zero_def rt_uptime_ok_def)
  then show ?thesis using s by auto
qed

text \<open>C36. Without that discipline the flag is not reliable and a stop is not final, even with one calling thread.  A call of
  \<open>pos_timer_start\<close> on a running timer, which \<^verbatim>\<open>os_timer.h\<close> permits, can end, the notification of the expiry included, with
  the timer armed but marked inactive.  After a call of \<open>pos_timer_stop\<close> on a running timer has returned, with the timer disarmed and no
  callback made since the call, the callback can still run.\<close>

theorem posix_timer_races:
  "\<exists>s :: (nat, nat, nat, nat, ref_timers) pt_sys.
     pt_reach False ref_timer_api ref_expire rt_armed demo_timer demo_timers s \<and> pt_pcs s = (\<lambda>_. P_Out) \<and>
     rt_armed (pt_kernel s) 4 = Some 5000000 \<and> pos_timer_is_active_posix (pt_tm s) \<and>
     (\<exists>s'. (pt_during ref_timer_api ref_expire 0)\<^sup>*\<^sup>* (pt_goto 0 (P_Start 5) s) s' \<and> pt_pcs s' = (\<lambda>_. P_Out) \<and>
        pt_clear s' = 0 \<and> rt_armed (pt_kernel s') 4 = Some 5000000 \<and> \<not> pos_timer_is_active_posix (pt_tm s')) \<and>
     (\<exists>s1 s2. (pt_during ref_timer_api ref_expire 0)\<^sup>*\<^sup>* (pt_goto 0 P_Stop s) s1 \<and> pt_pcs s1 = (\<lambda>_. P_Out) \<and>
        rt_armed (pt_kernel s1) 4 = None \<and> pt_fired s1 = pt_fired s \<and>
        (nt_step ref_expire)\<^sup>*\<^sup>* s1 s2 \<and> pt_fired s2 = Suc (pt_fired s1))"
proof -
  obtain s :: "(nat, nat, nat, nat, ref_timers) pt_sys" where
    s: "pt_reach False ref_timer_api ref_expire rt_armed demo_timer demo_timers s" "pt_pcs s = (\<lambda>_. P_Out)" "pt_clear s = 0"
       "pt_call s = 0" "tm_timer (pt_tm s) = Some 4" "tm_cb (pt_tm s) = Some 3" "tm_active (pt_tm s)" "rt_now (pt_kernel s) = 0"
       "rt_armed (pt_kernel s) 4 = Some 5000000" "rt_period (pt_kernel s) 4 = 0"
    using demo_running by blast
  show ?thesis
    using demo_restart [OF s(2,3,5,8,9,10)] demo_late [OF s(2,3,4,5,6,9,10)] s(1,2,7,9)
    unfolding pos_timer_is_active_posix_def by blast
qed

end
