(* ===== verification/Posix_Task_Threads.thy ===== *)
theory Posix_Task_Threads
  imports Posix_Task
begin

text \<open>
  The task counter of the POSIX port under concurrency.  \<open>pos_task_init\<close> and \<open>pos_task_remove\<close> end with
  \<open>s_task_count += 1\<close> and \<open>s_task_count -= 1\<close> on a static variable, a load and a store that no lock protects; both are steps of their
  own here, after the library calls, whose success the environment decides.  An overflow of the counter is undefined and is no step.  With \<open>serial\<close> a program is inside one call at a time.
\<close>

section \<open>Definitions\<close>

text \<open>Where a thread is: before the library calls of the function that adds \<open>d\<close>, before the load, before the store of \<open>v + d\<close>.\<close>

datatype tc_pc = TC_Out | TC_Call int | TC_Load int | TC_Store int int

text \<open>\<open>tc_live\<close> is the number of threads created less the number cancelled.\<close>

record 'c tc_sys =
  tc_count :: int
  tc_live :: int
  tc_pcs :: "'c \<Rightarrow> tc_pc"

definition tc_goto :: "'c \<Rightarrow> tc_pc \<Rightarrow> 'c tc_sys \<Rightarrow> 'c tc_sys" where
  "tc_goto c pc s = s\<lparr>tc_pcs := (tc_pcs s)(c := pc)\<rparr>"

inductive tc_step :: "'c \<Rightarrow> 'c tc_sys \<Rightarrow> 'c tc_sys \<Rightarrow> bool" where
  tc_fails: "tc_pcs s c = TC_Call d \<Longrightarrow> tc_step c s (tc_goto c TC_Out s)"
| tc_done: "tc_pcs s c = TC_Call d \<Longrightarrow> tc_step c s (tc_goto c (TC_Load d) (s\<lparr>tc_live := tc_live s + d\<rparr>))"
| tc_load: "tc_pcs s c = TC_Load d \<Longrightarrow> tc_step c s (tc_goto c (TC_Store d (tc_count s)) s)"
| tc_store:
    "tc_pcs s c = TC_Store d v \<Longrightarrow> - (2 ^ 31) \<le> v + d \<Longrightarrow> v + d < 2 ^ 31 \<Longrightarrow>
     tc_step c s (tc_goto c TC_Out (s\<lparr>tc_count := v + d\<rparr>))"

inductive tc_reach :: "bool \<Rightarrow> 'c tc_sys \<Rightarrow> bool" for serial where
  tc_start: "tc_reach serial \<lparr>tc_count = 0, tc_live = 0, tc_pcs = \<lambda>_. TC_Out\<rparr>"
| tc_enter:
    "tc_reach serial s \<Longrightarrow> tc_pcs s c = TC_Out \<Longrightarrow> d = 1 \<or> d = - 1 \<Longrightarrow>
     serial \<longrightarrow> (\<forall>u. tc_pcs s u = TC_Out) \<Longrightarrow> tc_reach serial (tc_goto c (TC_Call d) s)"
| tc_work: "tc_reach serial s \<Longrightarrow> tc_step c s s' \<Longrightarrow> tc_reach serial s'"

text \<open>What a thread still has to add to the counter.\<close>

fun owed :: "tc_pc \<Rightarrow> int" where
  "owed (TC_Load d) = d"
| "owed (TC_Store d v) = d"
| "owed _ = 0"

fun loaded_ok :: "int \<Rightarrow> tc_pc \<Rightarrow> bool" where
  "loaded_ok n (TC_Store d v) \<longleftrightarrow> v = n"
| "loaded_ok n _ \<longleftrightarrow> True"

definition tc_serial :: "'c tc_sys \<Rightarrow> bool" where
  "tc_serial s \<longleftrightarrow>
     (\<exists>c. (\<forall>u. u \<noteq> c \<longrightarrow> tc_pcs s u = TC_Out) \<and> loaded_ok (tc_count s) (tc_pcs s c) \<and>
          tc_live s = tc_count s + owed (tc_pcs s c))"

section \<open>One call at a time\<close>

lemma tc_goto_simps [simp]:
  "tc_count (tc_goto c pc s) = tc_count s" "tc_live (tc_goto c pc s) = tc_live s"
  "tc_pcs (tc_goto c pc s) = (tc_pcs s)(c := pc)"
  by (simp_all add: tc_goto_def)

text \<open>Without interference the load and the store are \<open>add_task_count\<close>.\<close>

lemma count_alone:
  assumes "tc_pcs s c = TC_Load d" and "add_task_count d (t, tc_count s, k) = Returns () (t', n, k')"
  shows "(tc_step c)\<^sup>*\<^sup>* s (s\<lparr>tc_count := n, tc_pcs := (tc_pcs s)(c := TC_Out)\<rparr>)"
proof -
  let ?s1 = "tc_goto c (TC_Store d (tc_count s)) s"
  have "n = tc_count s + d" "- (2 ^ 31) \<le> n" "n < 2 ^ 31"
    using assms(2) by (auto simp: add_task_count_def prog_defs split: if_splits)
  then have "tc_step c ?s1 (s\<lparr>tc_count := n, tc_pcs := (tc_pcs s)(c := TC_Out)\<rparr>)"
    using tc_store [of ?s1 c d "tc_count s"] by (simp add: tc_goto_def)
  then show ?thesis using tc_load [OF assms(1)] by (meson converse_rtranclp_into_rtranclp r_into_rtranclp)
qed

lemma tc_step_serial:
  assumes st: "tc_step c s s'" and "tc_serial s"
  shows "tc_serial s'"
proof -
  obtain c' where c': "\<forall>u. u \<noteq> c' \<longrightarrow> tc_pcs s u = TC_Out" "loaded_ok (tc_count s) (tc_pcs s c')"
      "tc_live s = tc_count s + owed (tc_pcs s c')"
    using assms(2) by (auto simp: tc_serial_def)
  have "tc_pcs s c \<noteq> TC_Out" using st by (cases rule: tc_step.cases) auto
  then have "c' = c" using c'(1) by metis
  note c = c' [unfolded this]
  from st show ?thesis unfolding tc_serial_def by (cases rule: tc_step.cases) (use c in \<open>auto intro!: exI [of _ c]\<close>)
qed

lemma tc_reach_serial: "tc_reach True s \<Longrightarrow> tc_serial s"
proof (induction rule: tc_reach.induct)
  case tc_start
  then show ?case by (simp add: tc_serial_def)
next
  case (tc_enter s c d)
  then have "\<forall>u. tc_pcs s u = TC_Out" by simp
  with tc_enter.IH have "tc_live s = tc_count s" by (auto simp: tc_serial_def)
  with \<open>\<forall>u. tc_pcs s u = TC_Out\<close> show ?case unfolding tc_serial_def by (intro exI [of _ c]) simp
next
  case (tc_work s c s')
  show ?case by (rule tc_step_serial [OF tc_work.hyps(2) tc_work.IH])
qed

section \<open>Properties\<close>

text \<open>In a program that is inside one call of \<open>pos_task_init\<close> or \<open>pos_task_remove\<close> at a time, whatever
  the library calls answer, the counter is the number of live tasks whenever no call is under way, and differs from it by
  at most the one update that is.\<close>

theorem posix_task_count_serial:
  assumes "tc_reach True s"
  shows "(\<forall>c. tc_pcs s c = TC_Out) \<longrightarrow> tc_count s = tc_live s \<and> pos_task_count_posix (tc_count s) = word_of_int (tc_live s)"
  using tc_reach_serial [OF assms] by (auto simp: tc_serial_def pos_task_count_posix_def)

text \<open>The steps of a call that succeeds, up to the store.\<close>

lemma tc_creates:
  assumes "tc_reach False s" and "tc_pcs s c = TC_Out" and "d = 1 \<or> d = - 1"
  shows "tc_reach False (tc_goto c (TC_Store d (tc_count s)) (s\<lparr>tc_live := tc_live s + d\<rparr>))"
proof -
  let ?s1 = "tc_goto c (TC_Call d) s"
  let ?s2 = "tc_goto c (TC_Load d) (?s1\<lparr>tc_live := tc_live ?s1 + d\<rparr>)"
  have "tc_reach False ?s1" by (rule tc_enter [OF assms]) simp
  moreover have "tc_step c ?s1 ?s2" by (rule tc_done) simp
  moreover have "tc_step c ?s2 (tc_goto c (TC_Store d (tc_count ?s2)) ?s2)" by (rule tc_load) simp
  ultimately have "tc_reach False (tc_goto c (TC_Store d (tc_count ?s2)) ?s2)" by (blast intro: tc_work)
  then show ?thesis by (simp add: tc_goto_def)
qed

text \<open>Two calls at the same time can lose an update: after two concurrent creations and two removals no task is
  left, the counter is \<open>-1\<close>, and \<open>pos_task_count\<close> reports 255 tasks.\<close>

theorem posix_task_count_race:
  "\<exists>s :: nat tc_sys. tc_reach False s \<and> (\<forall>c. tc_pcs s c = TC_Out) \<and> tc_live s = 0 \<and> pos_task_count_posix (tc_count s) = 255"
proof -
  let ?st = "\<lambda>n l p. \<lparr>tc_count = n, tc_live = l, tc_pcs = p\<rparr> :: nat tc_sys"
  let ?out = "\<lambda>_ :: nat. TC_Out"
  have store: "tc_reach False (?st (v + d) l p)" if "tc_reach False (?st n l (p(c := TC_Store d v)))" "p c = TC_Out" "- 2 \<le> v + d" "v + d \<le> 2" for n l p c d v
    using tc_work [OF that(1) tc_store [of _ c d v]] that by (simp add: tc_goto_def fun_upd_idem)
  have load: "tc_reach False (?st n (l + d) (p(c := TC_Store d n)))"
    if "tc_reach False (?st n l p)" "p c = TC_Out" "d = 1 \<or> d = - 1" for n l p c d
    using tc_creates [OF that(1), of c d] that by (simp add: tc_goto_def)
  have "tc_reach False (?st 0 1 (?out(0 := TC_Store 1 0)))" using load [of 0 0 ?out 0 1] tc_start [of False] by simp
  then have "tc_reach False (?st 0 2 (?out(0 := TC_Store 1 0, 1 := TC_Store 1 0)))" using load [of 0 1 _ 1 1] by simp
  then have "tc_reach False (?st 1 2 (?out(0 := TC_Store 1 0)))"
    using store [of 0 2 "?out(0 := TC_Store 1 0)" 1 1 0] by simp
  then have "tc_reach False (?st 1 2 ?out)" using store [of 1 2 ?out 0 1 0] by simp
  then have "tc_reach False (?st 1 1 (?out(0 := TC_Store (- 1) 1)))" using load [of 1 2 ?out 0 "- 1"] by simp
  then have "tc_reach False (?st 0 1 ?out)" using store [of 1 1 ?out 0 "- 1" 1] by simp
  then have "tc_reach False (?st 0 0 (?out(0 := TC_Store (- 1) 0)))" using load [of 0 1 ?out 0 "- 1"] by simp
  then have "tc_reach False (?st (- 1) 0 ?out)" using store [of 0 0 ?out 0 "- 1" 0] by simp
  then show ?thesis by (intro exI [of _ "?st (- 1) 0 ?out"]) (simp add: pos_task_count_posix_def)
qed

end
