(* ===== verification/Conform_Sleep.thy ===== *)
theory Conform_Sleep
  imports Osal_Api Posix_Task Freertos_Timer Zephyr_Task Rtt_Port Port_Config
begin

text \<open>
  \<open>pos_task_sleep\<close> and \<open>pos_task_sleep_ms\<close> of the four ports against \<^verbatim>\<open>os_task.h\<close>: a task that sleeps comes back,
  and not before the requested time has passed.  Time is the number of ticks that the kernel has counted, which
  does not wrap here; \<open>hz\<close> is the tick rate.
\<close>

section \<open>Definitions\<close>

text \<open>The comment of \<open>pos_task_sleep\<close>: the current thread sleeps for the given number of ticks.\<close>

definition pos_task_sleep_doc :: "pos_time \<Rightarrow> nat \<Rightarrow> stop + unit \<Rightarrow> nat \<Rightarrow> bool" where
  "pos_task_sleep_doc ticks now res now' \<longleftrightarrow> res = Inr () \<and> now + unat ticks \<le> now'"

text \<open>
  \<open>pos_task_sleep_ms\<close> has a prototype and a unit only; a sleep of \<open>ms\<close> milliseconds takes \<open>ms * hz / 1000\<close> ticks, of
  which a port may miss \<open>slack\<close> thousandths.
\<close>

definition pos_task_sleep_ms_doc :: "nat \<Rightarrow> nat \<Rightarrow> pos_time \<Rightarrow> nat \<Rightarrow> stop + unit \<Rightarrow> nat \<Rightarrow> bool" where
  "pos_task_sleep_ms_doc hz slack ms now res now' \<longleftrightarrow>
     res = Inr () \<and> now * 1000 + unat ms * hz \<le> now' * 1000 + slack"

datatype sleep_call = Sleep pos_time | Sleep_Ms pos_time

fun sleep_step :: "(pos_time \<Rightarrow> (unit, 'w) prog) \<Rightarrow> (pos_time \<Rightarrow> (unit, 'w) prog) \<Rightarrow> sleep_call \<Rightarrow> (unit, 'w) prog" where
  "sleep_step sleep sleep_ms (Sleep n) = sleep n"
| "sleep_step sleep sleep_ms (Sleep_Ms n) = sleep_ms n"

fun sleep_doc :: "nat \<Rightarrow> nat \<Rightarrow> (sleep_call, unit, nat) api_spec" where
  "sleep_doc hz slack (Sleep n) = pos_task_sleep_doc n"
| "sleep_doc hz slack (Sleep_Ms n) = pos_task_sleep_ms_doc hz slack n"

text \<open>The durations that the kernels take: half the range of a tick counter, as a timeout of them.\<close>

fun short_sleep :: "nat \<Rightarrow> sleep_call \<Rightarrow> bool" where
  "short_sleep hz (Sleep n) \<longleftrightarrow> unat n < 2 ^ 31"
| "short_sleep hz (Sleep_Ms n) \<longleftrightarrow> unat n < 2 ^ 31 \<and> unat n * hz + 999 < 2 ^ 31 * 1000"

fun no_overflow :: "nat \<Rightarrow> sleep_call \<Rightarrow> bool" where
  "no_overflow hz (Sleep n) \<longleftrightarrow> True"
| "no_overflow hz (Sleep_Ms n) \<longleftrightarrow> unat n * hz < 2 ^ 32"

text \<open>Reference kernels that count ticks, at 100 ticks per second.\<close>

definition ref_freertos_delay :: "(nat, u32, nat) freertos_task_api" where
  "ref_freertos_delay =
     \<lparr>xTaskCreate = (\<lambda>nm d p. c_return (0, None)), taskYIELD = c_return (),
      vTaskDelay = (\<lambda>n k. Returns () (k + unat n)), xTaskGetCurrentTaskHandle = (\<lambda>k. 0),
      vTaskStartScheduler = c_stop Blocked, scheduler_not_started = (\<lambda>k. False)\<rparr>"

definition ref_zephyr_sleep :: "(nat, nat, nat, nat) zephyr_task_api" where
  "ref_zephyr_sleep =
     \<lparr>k_thread_create = (\<lambda>a b f p u. c_return None), k_thread_name_set = (\<lambda>h nm. c_return 0),
      k_thread_abort = (\<lambda>h. c_return ()), k_yield = c_return (),
      k_sleep = (\<lambda>t k. case t of
          K_TICKS n \<Rightarrow> Returns 0 (k + unat n)
        | K_MSEC n \<Rightarrow> Returns 0 (k + (unat n * 100 + 999) div 1000)
        | K_NO_WAIT \<Rightarrow> Returns 0 k
        | K_FOREVER \<Rightarrow> Stops Blocked),
      k_current_get = (\<lambda>k. 0)\<rparr>"

definition ref_rtt_delay :: "(nat, nat, nat, nat) rtt_task_api" where
  "ref_rtt_delay =
     \<lparr>rt_thread_create = (\<lambda>nm f a s p t. c_return None), rt_thread_startup = (\<lambda>h. c_return 0),
      rt_thread_yield = c_return 0, rt_thread_delay = (\<lambda>n k. Returns 0 (k + unat n)),
      rt_thread_mdelay = (\<lambda>n k. if n < 0 then Stops Blocked else Returns 0 (k + (nat n * 100 + 999) div 1000)),
      rt_thread_self = (\<lambda>k. 0), rt_thread_delete = (\<lambda>h. c_return 0)\<rparr>"

section \<open>The documented behaviour of the kernels\<close>

text \<open>\<open>vTaskDelay(n)\<close> blocks the task until the tick count has advanced by \<open>n\<close>.\<close>

locale freertos_delay_kernel =
  fixes api :: "('h, u32, 'k) freertos_task_api"
    and ticks :: "'k \<Rightarrow> nat"
  assumes delay_ticks: "\<exists>k'. vTaskDelay api n k = Returns () k' \<and> ticks k + unat n \<le> ticks k'"

text \<open>
  \<open>k_sleep\<close> returns zero when the time has passed, unless another thread calls \<open>k_wakeup\<close>, which
  \<open>quiet\<close> excludes; \<open>K_MSEC\<close> rounds up to ticks.
\<close>

locale zephyr_sleep_kernel =
  fixes api :: "('h, 'f, 'p, 'k) zephyr_task_api"
    and ticks :: "'k \<Rightarrow> nat"
    and quiet :: "'k \<Rightarrow> bool"
    and hz :: nat
  assumes sleep_ticks:
      "quiet k \<Longrightarrow> unat n < 2 ^ 31 \<Longrightarrow>
       \<exists>k'. k_sleep api (K_TICKS n) k = Returns 0 k' \<and> quiet k' \<and> ticks k + unat n \<le> ticks k'"
    and sleep_msec:
      "quiet k \<Longrightarrow> (unat n * hz + 999) div 1000 < 2 ^ 31 \<Longrightarrow>
       \<exists>k'. k_sleep api (K_MSEC n) k = Returns 0 k' \<and> quiet k' \<and> ticks k + (unat n * hz + 999) div 1000 \<le> ticks k'"

text \<open>\<open>rt_thread_delay\<close> takes ticks and \<open>rt_thread_mdelay\<close> a signed number of milliseconds, which it rounds up to ticks.\<close>

locale rtt_delay_kernel =
  fixes api :: "('h, 'f, 'p, 'k) rtt_task_api"
    and ticks :: "'k \<Rightarrow> nat"
    and hz :: nat
  assumes rt_delay_ticks:
      "unat n < 2 ^ 31 \<Longrightarrow> \<exists>ret k'. rt_thread_delay api n k = Returns ret k' \<and> ticks k + unat n \<le> ticks k'"
    and rt_delay_msec:
      "0 \<le> m \<Longrightarrow> (nat m * hz + 999) div 1000 < 2 ^ 31 \<Longrightarrow>
       \<exists>ret k'. rt_thread_mdelay api m k = Returns ret k' \<and> ticks k + (nat m * hz + 999) div 1000 \<le> ticks k'"

text \<open>A sleep does not create signals: those still to come, and the time slept, only move one way.\<close>

locale posix_sleep_run = posix_sleep_kernel +
  assumes nanosleep_signals: "nanosleep api ts k = Returns r k' \<Longrightarrow> signals k' \<le> signals k"

interpretation ref_delay: freertos_delay_kernel ref_freertos_delay "\<lambda>k. k"
  by unfold_locales (simp add: ref_freertos_delay_def)

interpretation ref_zsleep: zephyr_sleep_kernel ref_zephyr_sleep "\<lambda>k. k" "\<lambda>k. True" 100
  by unfold_locales (simp_all add: ref_zephyr_sleep_def)

interpretation ref_rdelay: rtt_delay_kernel ref_rtt_delay "\<lambda>k. k" 100
  by unfold_locales (simp_all add: ref_rtt_delay_def)

interpretation ref_sleep_run: posix_sleep_run ref_sleep_api rsl_slept "\<lambda>k. length (rsl_signals k)"
  by unfold_locales (auto simp: ref_sleep_api_def split: list.splits if_splits)

section \<open>The ports meet the specification\<close>

lemma round_up: "x \<le> (x + 999) div 1000 * (1000 :: nat)"
  using div_mult_mod_eq [of "x + 999" 1000] mod_less_divisor [of 1000 "x + 999"] by linarith

lemma round_up_less: "x + 999 < 2 ^ 31 * 1000 \<Longrightarrow> (x + 999) div 1000 < (2 :: nat) ^ 31"
  by (simp add: less_mult_imp_div_less)

lemma round_down: "x \<le> x div 1000 * (1000 :: nat) + 999"
  using div_mult_mod_eq [of x 1000] mod_less_divisor [of 1000 x] by linarith

lemma slept_enough:
  assumes "now + (unat ms * hz + 999) div 1000 \<le> now'"
  shows "now * 1000 + unat ms * hz \<le> now' * (1000 :: nat)"
proof -
  have "(now + (unat ms * hz + 999) div 1000) * 1000 \<le> now' * 1000" using assms by (rule mult_le_mono1)
  then show ?thesis using round_up [of "unat ms * hz"] unfolding add_mult_distrib by linarith
qed

lemma slept_ms:
  fixes s s' :: int
  assumes "0 \<le> s" and "s + int n * 1000000 \<le> s'"
  shows "nat (s div 1000000) + n \<le> nat (s' div 1000000)"
proof -
  have "(s + int n * 1000000) div 1000000 \<le> s' div 1000000" using assms(2) by (intro zdiv_mono1) simp_all
  then have "s div 1000000 + int n \<le> s' div 1000000" by simp
  moreover have "0 \<le> s div 1000000" using assms(1) by (simp add: pos_imp_zdiv_nonneg_iff)
  ultimately show ?thesis by linarith
qed

sublocale freertos_delay_kernel \<subseteq> freertos_sleep: api_refinement
  "sleep_step (pos_task_sleep_freertos api) (pos_task_sleep_ms_freertos api hz)"
  "sleep_doc (unat hz) 999" ticks "\<lambda>k. True" "no_overflow (unat hz)" for hz
proof (unfold_locales, goal_cases)
  case (1 k c)
  show ?case
  proof (cases c)
    case (Sleep n)
    from delay_ticks [of n k] Sleep show ?thesis by (auto simp: pos_task_sleep_freertos_def pos_task_sleep_doc_def)
  next
    case (Sleep_Ms n)
    let ?t = "pos_time_ms_to_ticks_freertos hz n"
    have t: "unat ?t = unat n * unat hz div 1000"
      using 1 Sleep_Ms by (simp add: pos_time_ms_to_ticks_freertos_def unat_mul_div)
    obtain k' where k': "vTaskDelay api ?t k = Returns () k'" "ticks k + unat ?t \<le> ticks k'" using delay_ticks by blast
    then have "(ticks k + unat n * unat hz div 1000) * 1000 \<le> ticks k' * 1000" unfolding t by (intro mult_le_mono1)
    then have "ticks k * 1000 + unat n * unat hz \<le> ticks k' * 1000 + 999"
      using round_down [of "unat n * unat hz"] unfolding add_mult_distrib by linarith
    with k' Sleep_Ms show ?thesis
      by (simp add: pos_task_sleep_ms_freertos_def pos_task_sleep_freertos_def pos_task_sleep_ms_doc_def)
  qed
qed

sublocale zephyr_sleep_kernel \<subseteq> zephyr_sleep: api_refinement
  "sleep_step (pos_task_sleep_zephyr api) (pos_task_sleep_ms_zephyr api)" "sleep_doc hz 0" ticks quiet "short_sleep hz"
proof (unfold_locales, goal_cases)
  case (1 k c)
  show ?case
  proof (cases c)
    case (Sleep n)
    with 1 sleep_ticks [of k n] show ?thesis by (auto simp: pos_task_sleep_zephyr_def pos_task_sleep_doc_def prog_defs)
  next
    case (Sleep_Ms n)
    with 1 sleep_msec [of k n] round_up_less [of "unat n * hz"] show ?thesis
      by (auto simp: pos_task_sleep_ms_zephyr_def pos_task_sleep_ms_doc_def prog_defs dest: slept_enough)
  qed
qed

lemma sint_small: "unat (n :: u32) < 2 ^ 31 \<Longrightarrow> sint n = int (unat n)"
proof -
  assume "unat n < 2 ^ 31"
  then have "int (unat n) < int (2 ^ 31)" by (rule of_nat_less_iff [THEN iffD2])
  then have "uint n < 2 ^ 31" by simp
  moreover have "- (2 ^ 31) \<le> uint n" by (rule order_trans [OF _ unsigned_greater_eq]) simp
  ultimately have "signed_take_bit 31 (uint n) = uint n" by (intro signed_take_bit_int_eq_self) simp_all
  then show ?thesis by (simp add: sint_uint)
qed

lemma sint_large:
  fixes n :: u32
  assumes "2 ^ 31 \<le> unat n"
  shows "sint n < 0"
proof -
  have "int (2 ^ 31) \<le> int (unat n)" using assms by (rule of_nat_le_iff [THEN iffD2])
  then have "2 ^ 31 \<le> uint n" by simp
  moreover have "uint n < 2 * 2 ^ 31" using unsigned_less [of n, where 'a = int] by simp
  ultimately have "uint n div 2 ^ 31 = 1" by (intro int_div_pos_eq [where r = "uint n - 2 ^ 31"]) simp_all
  then have "bit (uint n) 31" by (simp add: bit_iff_odd)
  then show ?thesis by (simp add: sint_uint)
qed

sublocale rtt_delay_kernel \<subseteq> rtt_sleep: api_refinement
  "sleep_step (pos_task_sleep_rtt api) (pos_task_sleep_ms_rtt api)" "sleep_doc hz 0" ticks "\<lambda>k. True" "short_sleep hz"
proof (unfold_locales, goal_cases)
  case (1 k c)
  show ?case
  proof (cases c)
    case (Sleep n)
    with 1 rt_delay_ticks [of n k] show ?thesis by (auto simp: pos_task_sleep_rtt_def pos_task_sleep_doc_def prog_defs)
  next
    case (Sleep_Ms n)
    then have "sint n = int (unat n)" using 1 by (intro sint_small) simp
    with 1 Sleep_Ms rt_delay_msec [of "int (unat n)" k] round_up_less [of "unat n * hz"] show ?thesis
      by (auto simp: pos_task_sleep_ms_rtt_def pos_task_sleep_ms_doc_def prog_defs dest: slept_enough)
  qed
qed

context posix_sleep_run
begin

lemma loop_signals:
  "sleep_loop fuel api ts k = Returns u k' \<Longrightarrow> signals k' \<le> signals k"
proof (induction fuel arbitrary: ts k)
  case (Suc fuel)
  then show ?case
    using nanosleep_signals by (fastforce simp: prog_defs split: outcome.splits prod.splits if_splits dest: order_trans)
qed (simp add: prog_defs)

lemma sleep_ms_runs:
  assumes "signals k < fuel" and "0 \<le> slept k"
  shows "\<exists>k'. pos_task_sleep_ms_posix fuel api ms k = Returns () k' \<and> pos_task_sleep_posix fuel api ms k = Returns () k' \<and>
    signals k' < fuel \<and> 0 \<le> slept k' \<and> nat (slept k div 1000000) + unat ms \<le> nat (slept k' div 1000000)"
proof -
  let ?ts = "\<lparr>tv_sec = uint (ms div 1000), tv_nsec = uint ((ms mod 1000) * 1000000)\<rparr>"
  obtain k' where k': "sleep_loop fuel api ?ts k = Returns () k'" "slept k + uint ms * 1000000 \<le> slept k'"
    using sleep_loop_total [of ?ts k fuel] sleep_request [of ms] assms(1) by auto
  moreover have "0 \<le> uint ms * 1000000" by simp
  moreover have "signals k' < fuel" using loop_signals [OF k'(1)] assms(1) by simp
  moreover have "nat (slept k div 1000000) + unat ms \<le> nat (slept k' div 1000000)"
    using k'(2) by (intro slept_ms [OF assms(2)]) simp
  moreover have "0 \<le> slept k'" using k'(2) assms(2) \<open>0 \<le> uint ms * 1000000\<close> by linarith
  ultimately show ?thesis by (simp add: pos_task_sleep_ms_posix_def pos_task_sleep_posix_def)
qed

end

sublocale posix_sleep_run \<subseteq> posix_sleep: api_refinement
  "sleep_step (pos_task_sleep_posix fuel api) (pos_task_sleep_ms_posix fuel api)" "sleep_doc 1000 0"
  "\<lambda>k. nat (slept k div 1000000)" "\<lambda>k. signals k < fuel \<and> 0 \<le> slept k" "\<lambda>_. True" for fuel
proof (unfold_locales, goal_cases)
  case (1 k c)
  show ?case
  proof (cases c)
    case (Sleep n)
    with sleep_ms_runs [of k fuel n] 1 show ?thesis by (auto simp: pos_task_sleep_doc_def)
  next
    case (Sleep_Ms n)
    with sleep_ms_runs [of k fuel n] 1 show ?thesis by (auto simp: pos_task_sleep_ms_doc_def)
  qed
qed

context posix_sleep_run
begin

lemma sleep_documented:
  "signals k < fuel \<Longrightarrow> 0 \<le> slept k \<Longrightarrow>
   meets (sleep_step (pos_task_sleep_posix fuel api) (pos_task_sleep_ms_posix fuel api)) (sleep_doc 1000 0)
     (\<lambda>k. nat (slept k div 1000000)) cs k"
  by (rule posix_sleep.run_meets) simp_all

end

context freertos_delay_kernel
begin

lemma sleep_documented:
  "\<forall>c \<in> set cs. no_overflow (unat hz) c \<Longrightarrow>
   meets (sleep_step (pos_task_sleep_freertos api) (pos_task_sleep_ms_freertos api hz)) (sleep_doc (unat hz) 999) ticks cs k"
  by (rule freertos_sleep.run_meets) simp_all

end

context zephyr_sleep_kernel
begin

lemma sleep_documented:
  "quiet k \<Longrightarrow> \<forall>c \<in> set cs. short_sleep hz c \<Longrightarrow>
   meets (sleep_step (pos_task_sleep_zephyr api) (pos_task_sleep_ms_zephyr api)) (sleep_doc hz 0) ticks cs k"
  by (rule zephyr_sleep.run_meets)

end

context rtt_delay_kernel
begin

lemma sleep_documented:
  "\<forall>c \<in> set cs. short_sleep hz c \<Longrightarrow>
   meets (sleep_step (pos_task_sleep_rtt api) (pos_task_sleep_ms_rtt api)) (sleep_doc hz 0) ticks cs k"
  by (rule rtt_sleep.run_meets) simp_all

end

section \<open>Properties\<close>

text \<open>C19. Sleeping, over any sequence of \<open>pos_task_sleep\<close> and \<open>pos_task_sleep_ms\<close> calls within the range of the kernel: every call comes back,
  after at least the requested ticks.  Milliseconds are slept in full by POSIX, Zephyr and RT-Thread; FreeRTOS misses less than one tick.
  On POSIX, where ticks are milliseconds, the duration is arbitrary and fewer signals than the rounds of the loop interrupt the sleeps.  On FreeRTOS
  ticks have 32 bits and \<open>ms * hz\<close> is below \<open>2^32\<close>; on Zephyr and RT-Thread the sleep is below \<open>2^31\<close> ticks and,
  given in milliseconds, below \<open>2^31\<close> ms, and on Zephyr no other thread calls \<open>k_wakeup\<close>.  Longer sleeps in milliseconds fail on
  FreeRTOS and RT-Thread (\<open>osal_sleep_ms_limits\<close>).\<close>

theorem osal_sleep_lasts:
  assumes "posix_sleep_run papi slept signals" and "signals pk < fuel" and "0 \<le> slept pk"
    and "freertos_delay_kernel fapi fticks" and "\<forall>c \<in> set fcs. no_overflow (unat hz) c"
    and "zephyr_sleep_kernel zapi zticks quiet zhz" and "quiet zk" and "\<forall>c \<in> set zcs. short_sleep zhz c"
    and "rtt_delay_kernel rapi rticks rhz" and "\<forall>c \<in> set rcs. short_sleep rhz c"
  shows "meets (sleep_step (pos_task_sleep_posix fuel papi) (pos_task_sleep_ms_posix fuel papi)) (sleep_doc 1000 0)
           (\<lambda>k. nat (slept k div 1000000)) cs pk \<and>
         meets (sleep_step (pos_task_sleep_freertos fapi) (pos_task_sleep_ms_freertos fapi hz)) (sleep_doc (unat hz) 999)
           fticks fcs fk \<and>
         meets (sleep_step (pos_task_sleep_zephyr zapi) (pos_task_sleep_ms_zephyr zapi)) (sleep_doc zhz 0) zticks zcs zk \<and>
         meets (sleep_step (pos_task_sleep_rtt rapi) (pos_task_sleep_ms_rtt rapi)) (sleep_doc rhz 0) rticks rcs rk"
  using posix_sleep_run.sleep_documented [OF assms(1-3)] freertos_delay_kernel.sleep_documented [OF assms(4,5)]
    zephyr_sleep_kernel.sleep_documented [OF assms(6-8)] rtt_delay_kernel.sleep_documented [OF assms(9,10)]
  by blast

theorem osal_sleep_lasts_witness:
  "meets (sleep_step (pos_task_sleep_posix 3 ref_sleep_api) (pos_task_sleep_ms_posix 3 ref_sleep_api)) (sleep_doc 1000 0)
     (\<lambda>k. nat (rsl_slept k div 1000000)) [Sleep 5, Sleep_Ms 1500]
     \<lparr>rsl_slept = 0, rsl_signals = [1000000, 700], rsl_errno = 0\<rparr> \<and>
   meets (sleep_step (pos_task_sleep_freertos ref_freertos_delay) (pos_task_sleep_ms_freertos ref_freertos_delay 100))
     (sleep_doc (unat (100 :: u32)) 999) (\<lambda>k. k) [Sleep 5, Sleep_Ms 1509] 7 \<and>
   meets (sleep_step (pos_task_sleep_zephyr ref_zephyr_sleep) (pos_task_sleep_ms_zephyr ref_zephyr_sleep))
     (sleep_doc 100 0) (\<lambda>k. k) [Sleep 5, Sleep_Ms 1509] 7 \<and>
   meets (sleep_step (pos_task_sleep_rtt ref_rtt_delay) (pos_task_sleep_ms_rtt ref_rtt_delay))
     (sleep_doc 100 0) (\<lambda>k. k) [Sleep 5, Sleep_Ms 1509] 7"
  by (rule osal_sleep_lasts [OF ref_sleep_run.posix_sleep_run_axioms _ _ ref_delay.freertos_delay_kernel_axioms _
        ref_zsleep.zephyr_sleep_kernel_axioms _ _ ref_rdelay.rtt_delay_kernel_axioms]) simp_all

text \<open>Long sleeps in milliseconds fail silently: at the rate of the shipped FreeRTOS configuration and with 32-bit ticks a sleep of 4294968
  milliseconds, about 72 minutes, asks the kernel for no delay at all, and on RT-Thread a sleep of \<open>2^31\<close> milliseconds or more hands
  the kernel a negative number.\<close>

theorem osal_sleep_ms_limits:
  assumes "2 ^ 31 \<le> unat ms"
  shows "pos_task_sleep_ms_freertos (fapi :: ('h, u32, 'k) freertos_task_api) (POS_TICKS_PER_SEC_freertos FreeRTOSConfig_posix) 4294968 = vTaskDelay fapi 0 \<and>
         (\<exists>m < 0. pos_task_sleep_ms_rtt rapi ms = c_then (rt_thread_mdelay rapi m) (c_return ()))"
proof -
  have "sint ms < 0" by (rule sint_large [OF assms])
  then show ?thesis
    by (auto simp: pos_task_sleep_ms_freertos_def pos_task_sleep_freertos_def pos_time_ms_to_ticks_freertos_def
        POS_TICKS_PER_SEC_freertos_def FreeRTOSConfig_posix_def pos_task_sleep_ms_rtt_def)
qed

theorem osal_sleep_ms_limits_witness:
  "pos_task_sleep_ms_freertos ref_freertos_delay (POS_TICKS_PER_SEC_freertos FreeRTOSConfig_posix) 4294968 7 = Returns () 7 \<and>
   pos_task_sleep_ms_rtt ref_rtt_delay 0x80000000 7 = Stops Blocked"
proof -
  have "2 ^ 31 \<le> unat (0x80000000 :: u32)" by simp
  from osal_sleep_ms_limits [OF this, of ref_freertos_delay ref_rtt_delay] show ?thesis
    by (auto simp: ref_freertos_delay_def ref_rtt_delay_def prog_defs)
qed

end
