(* ===== verification/Conform_Timer_Life.thy ===== *)
theory Conform_Timer_Life
  imports Conform_Timer
begin

text \<open>
  The rest of \<^verbatim>\<open>os_timer.h\<close> against the four ports: \<open>pos_timer_init\<close> and \<open>pos_timer_inited\<close>, with the failures of the
  kernel's allocation, and \<open>pos_timer_start_ms\<close>.  \<open>hz\<close> is the tick rate of the kernel.
\<close>

section \<open>Definitions\<close>

text \<open>The comments of \<open>pos_timer_init\<close> (which still uses the names of an older interface for the two codes) and \<open>pos_timer_inited\<close>.\<close>

definition pos_timer_init_doc :: "bool \<Rightarrow> stop + pos_error \<Rightarrow> bool" where
  "pos_timer_init_doc created res \<longleftrightarrow> res = Inr (if created then POS_OK else POS_ERROR)"

definition pos_timer_inited_doc :: "bool \<Rightarrow> pos_error" where
  "pos_timer_inited_doc initialized = (if initialized then POS_OK else POS_EINVAL)"

text \<open>
  The comment of \<open>pos_timer_start_ms\<close>: the timer counts down from the new duration, running or not.  A duration of \<open>ms\<close>
  milliseconds is \<open>ms * hz / 1000\<close> ticks, to be rounded to at least one; \<open>slack\<close> is what a port may miss, in thousandths of
  a tick.
\<close>

definition pos_timer_start_ms_doc :: "nat \<Rightarrow> nat \<Rightarrow> 'w::len word \<Rightarrow> stop + pos_error \<Rightarrow> nat option \<Rightarrow> bool" where
  "pos_timer_start_ms_doc hz slack ms res st' \<longleftrightarrow>
     res = Inr POS_OK \<and>
     (case st' of
        None \<Rightarrow> False
      | Some d \<Rightarrow> unat ms * hz \<le> d * 1000 + slack \<and> (d * 1000 < unat ms * hz + 1000 \<or> d = 1))"

text \<open>A system without memory: no timer can be created.\<close>

definition no_timers_posix :: "(nat, nat, ref_timers) posix_timer_api" where
  "no_timers_posix = ref_timer_api\<lparr>timer_create := \<lambda>o' k. Returns (- 1, None) k\<rparr>"

definition no_timers_freertos :: "(nat, nat, u32, ref_ftimers) freertos_timer_api" where
  "no_timers_freertos = ref_freertos_timer\<lparr>xTimerCreate := \<lambda>nm p reload o' k. Returns None k\<rparr>"

definition no_timers_rtt :: "(nat, nat, nat, ref_rtimers) rtt_timer_api" where
  "no_timers_rtt = ref_rtt_timer\<lparr>rt_timer_create := \<lambda>nm f a n k. Returns None k\<rparr>"

section \<open>The documented behaviour of the kernels\<close>

text \<open>\<open>timer_create\<close> stores an identifier exactly when it returns zero.\<close>

locale posix_timer_create =
  fixes api :: "('t, 'o, 'k) posix_timer_api"
  assumes create_stores: "timer_create api tm k = Returns (ret, tid) k' \<Longrightarrow> ret = 0 \<longleftrightarrow> tid \<noteq> None"
begin

lemma init_documented:
  assumes "pos_timer_init_posix api tm cb arg w = Returns e (t, k)"
  shows "pos_timer_init_doc (tm_timer t \<noteq> None) (Inr e) \<and>
         pos_timer_inited_posix t = pos_timer_inited_doc (tm_timer t \<noteq> None) \<and>
         tm_cb t = cb \<and> tm_arg t = arg \<and> \<not> pos_timer_is_active_posix t"
  using assms create_stores
  by (cases w) (auto simp: pos_timer_init_posix_def prog_defs pos_timer_init_doc_def pos_timer_inited_posix_def timer_zero_def
      pos_timer_inited_doc_def pos_timer_is_active_posix_def split: outcome.splits if_splits)

end

text \<open>Zephyr: a duration in milliseconds is rounded up to ticks.\<close>

locale zephyr_timer_ms_kernel = zephyr_timer_kernel +
  fixes hz :: nat
  assumes zt_start_ms:
      "0 < n \<Longrightarrow> (unat n * hz + 999) div 1000 < 2 ^ 32 \<Longrightarrow>
       \<exists>k'. k_timer_start api m (K_MSEC n) K_NO_WAIT k = Returns () k' \<and>
            map_option unat (left k' m) = Some ((unat n * hz + 999) div 1000)"

interpretation ref_timer_create: posix_timer_create ref_timer_api
  by unfold_locales (auto simp: ref_timer_api_def)

interpretation no_timer_create: posix_timer_create no_timers_posix
  by unfold_locales (auto simp: no_timers_posix_def)

interpretation ref_zephyr_timer_ms: zephyr_timer_ms_kernel ref_zephyr_timer "\<lambda>k m. k m" 1000
  by unfold_locales (simp add: ref_zephyr_timer_def)

section \<open>Durations in milliseconds\<close>

lemma floor_duration:
  fixes x :: nat
  shows "x \<le> max 1 (x div 1000) * 1000 + 999 \<and> (max 1 (x div 1000) * 1000 < x + 1000 \<or> max 1 (x div 1000) = 1)"
  using div_mult_mod_eq [of x 1000] mod_less_divisor [of 1000 x] by (auto simp: max_def)

lemma ceil_duration:
  fixes x :: nat
  shows "x \<le> (x + 999) div 1000 * 1000 \<and> (x + 999) div 1000 * 1000 < x + 1000"
  using div_mult_mod_eq [of "x + 999" 1000] mod_less_divisor [of 1000 "x + 999"] by linarith

lemma unat_max_one: "unat (max 1 n :: 'w::len word) = max 1 (unat n)"
  by (simp add: max_def word_le_nat_alt)

lemma start_ms_doc_floor:
  fixes ms hz :: "'w::len word"
  assumes "unat ms * unat hz < 2 ^ LENGTH('w)" and "32 \<le> LENGTH('w)"
  shows "pos_timer_start_ms_doc (unat hz) 999 ms (Inr POS_OK) (Some (unat (max 1 (ms * hz div 1000))))"
  using assms(1) floor_duration [of "unat ms * unat hz"]
  unfolding pos_timer_start_ms_doc_def unat_max_one unat_mul_div unat_1000 [OF assms(2)] by simp

context posix_timer_kernel
begin

lemma start_ms_documented:
  assumes "tm_timer t = Some tid" and "usable k tid"
  shows "\<exists>w'. pos_timer_start_ms_posix api ms (t, k) = Returns POS_OK w' \<and>
     pos_timer_start_ms_doc 1000 0 ms (Inr POS_OK) (map_option (\<lambda>ns. nat (ns div 1000000)) (armed (snd w') tid))"
proof -
  have "nat (uint (max 1 ms) * 1000000 div 1000000) = max 1 (unat ms)" using unat_max_one [of ms] by simp
  then show ?thesis
    using start_arms [OF assms, of ms] by (auto simp: pos_timer_start_ms_posix_def pos_timer_start_ms_doc_def max_def)
qed

end

context freertos_timer_kernel
begin

lemma start_ms_documented:
  assumes "ft_handle t = Some h" and "usable k h" and "unat ms * unat hz < 2 ^ LENGTH('w)" and "32 \<le> LENGTH('w)"
  shows "\<exists>w'. pos_timer_start_ms_freertos hw api hz junk ms (t, k) = Returns POS_OK w' \<and>
     pos_timer_start_ms_doc (unat hz) 999 ms (Inr POS_OK) (map_option (\<lambda>e. unat (e - tick (snd w'))) (expiry (snd w') h))"
  using start_runs [OF assms(1,2), of junk "ms * hz div 1000"] start_ms_doc_floor [OF assms(3,4)]
  by (auto simp: pos_timer_start_ms_freertos_def pos_time_ms_to_ticks_freertos_def)

end

context zephyr_timer_ms_kernel
begin

lemma start_ms_documented:
  assumes "0 < ms" and "(unat ms * hz + 999) div 1000 < 2 ^ 32"
  shows "\<exists>w'. chip_os_timer_start_ms_zephyr api ms (t, k) = Returns POS_OK w' \<and>
     pos_timer_start_ms_doc hz 0 ms (Inr POS_OK) (map_option unat (left (snd w') (ztm_timer t)))"
  using zt_start_ms [OF assms, of "ztm_timer t" k] ceil_duration [of "unat ms * hz"]
  by (auto simp: chip_os_timer_start_ms_zephyr_def prog_defs pos_timer_start_ms_doc_def)

end

context rtt_timer_kernel
begin

lemma start_ms_documented:
  assumes "rtm_handle t = Some h" and "unat ms * unat hz < 2 ^ 32"
  shows "\<exists>w'. pos_timer_start_ms_rtt api hz ms (t, k) = Returns POS_OK w' \<and>
     pos_timer_start_ms_doc (unat hz) 999 ms (Inr POS_OK) (map_option unat (left (snd w') h))"
proof -
  let ?n = "if ms * hz div 1000 = 0 then 1 else ms * hz div 1000"
  have n: "?n = max 1 (ms * hz div 1000)" using max_one_word [of "ms * hz div 1000"] by (auto simp: max_def word_gt_0)
  obtain ret k1 where k1: "rt_timer_control_set_time api (Some h) ?n k = Returns ret k1" "duration k1 h = ?n"
    using rt_set_time by blast
  then obtain ret2 k2 where k2: "rt_timer_start api (Some h) k1 = Returns ret2 k2" "left k2 h = Some ?n"
    using rt_start [of h k1] by auto
  have "pos_timer_start_ms_rtt api hz ms (t, k) = Returns POS_OK (t, k2)"
    using assms(1) k1(1) k2(1)
    by (simp add: pos_timer_start_ms_rtt_def pos_time_ms_to_ticks_rtt_def pos_timer_start_rtt_def prog_defs Let_def
        del: if_split)
  then show ?thesis using k2(2) start_ms_doc_floor [of ms hz] assms(2) unfolding n by auto
qed

end

section \<open>Properties\<close>

text \<open>Starting a timer for a number of milliseconds, on every port and whether or not it runs: it counts down from that time, exactly
  on POSIX, rounded up to ticks on Zephyr, and rounded down on FreeRTOS and RT-Thread, where it can expire up to
  one tick early, but never at once.\<close>

theorem osal_timer_start_ms:
  assumes "posix_timer_kernel papi expire armed pperiod pusable" and "tm_timer pt = Some tid" and "pusable pk tid"
    and "freertos_timer_kernel hw fapi expiry period tick fusable" and "ft_handle ft = Some fh" and "fusable fk fh"
    and "unat ms * unat hz < 2 ^ 32"
    and "zephyr_timer_ms_kernel zapi zleft zhz" and "0 < ms" and "(unat ms * zhz + 999) div 1000 < 2 ^ 32"
    and "rtt_timer_kernel rapi duration rleft" and "rtm_handle rt = Some rh"
  shows "(\<exists>w'. pos_timer_start_ms_posix papi ms (pt, pk) = Returns POS_OK w' \<and>
            pos_timer_start_ms_doc 1000 0 ms (Inr POS_OK) (map_option (\<lambda>ns. nat (ns div 1000000)) (armed (snd w') tid))) \<and>
         (\<exists>w'. pos_timer_start_ms_freertos hw fapi hz junk ms (ft, fk) = Returns POS_OK w' \<and>
            pos_timer_start_ms_doc (unat hz) 999 ms (Inr POS_OK)
              (map_option (\<lambda>e. unat (e - tick (snd w'))) (expiry (snd w') fh))) \<and>
         (\<exists>w'. chip_os_timer_start_ms_zephyr zapi ms (zt, zk) = Returns POS_OK w' \<and>
            pos_timer_start_ms_doc zhz 0 ms (Inr POS_OK) (map_option unat (zleft (snd w') (ztm_timer zt)))) \<and>
         (\<exists>w'. pos_timer_start_ms_rtt rapi hz ms (rt, rk) = Returns POS_OK w' \<and>
            pos_timer_start_ms_doc (unat hz) 999 ms (Inr POS_OK) (map_option unat (rleft (snd w') rh)))"
  using posix_timer_kernel.start_ms_documented [OF assms(1-3)]
    freertos_timer_kernel.start_ms_documented [OF assms(4-6), of ms hz junk]
    zephyr_timer_ms_kernel.start_ms_documented [OF assms(8-10)]
    rtt_timer_kernel.start_ms_documented [OF assms(11,12,7)] assms(7)
  by simp

theorem osal_timer_start_ms_witness:
  "\<exists>w'. pos_timer_start_ms_rtt ref_rtt_timer 100 1509
       (\<lparr>rtm_handle = Some 6, rtm_func = None, rtm_arg = None\<rparr>, \<lparr>rrt_time = \<lambda>_. 10, rrt_left = \<lambda>_. None\<rparr>) = Returns POS_OK w' \<and>
     pos_timer_start_ms_doc (unat (100 :: u32)) 999 (1509 :: u32) (Inr POS_OK) (map_option unat (rrt_left (snd w') 6))"
  by (rule osal_timer_start_ms [OF ref_timer.posix_timer_kernel_axioms, where
        pt = "timer_zero\<lparr>tm_timer := Some 4\<rparr>" and tid = 4 and
        pk = "\<lparr>rt_armed = \<lambda>_. None, rt_period = \<lambda>_. 0, rt_live = \<lambda>_. True, rt_now = 0\<rparr>",
        OF _ _ ref_freertos_timer.freertos_timer_kernel_axioms, where
        ft = "\<lparr>ft_handle = Some 2, ft_func = Some (0::nat), ft_arg = None :: nat option\<rparr>" and fh = 2,
        OF _ _ _ _ _ ref_zephyr_timer_ms.zephyr_timer_ms_kernel_axioms _ _ ref_rtt_timer.rtt_timer_kernel_axioms,
        THEN conjunct2, THEN conjunct2, THEN conjunct2])
    (simp_all add: rt_uptime_ok_def timer_zero_def)

text \<open>C30. Creating a timer.  On POSIX the result, the validity that \<open>pos_timer_inited\<close> reports and the fields of the struct are as
  documented, also when \<open>timer_create\<close> fails.  Zephyr has nothing to allocate and always reports success, and a valid
  timer even for a struct that was never initialised.  FreeRTOS and RT-Thread report \<open>POS_OK\<close> whatever the
  kernel answers: when it has no memory the documented code would be \<open>POS_ERROR\<close>, and on FreeRTOS the next start
  passes a null handle to the kernel.\<close>

theorem osal_timer_init:
  assumes "posix_timer_create papi" and "pos_timer_init_posix papi tm cb arg pw = Returns pe (pt, pk)"
    and "xTimerCreate fapi ''timer'' 1 False ftm fk = Returns fh fk'"
    and "k_timer_init zapi (ztm_timer zt) zk = Returns () zk'"
    and "rt_timer_create rapi ''chip_timer'' rcb rarg 10 rk = Returns rh rk'"
  shows "pos_timer_init_doc (tm_timer pt \<noteq> None) (Inr pe) \<and>
         pos_timer_inited_posix pt = pos_timer_inited_doc (tm_timer pt \<noteq> None) \<and>
         tm_cb pt = cb \<and> tm_arg pt = arg \<and> \<not> pos_timer_is_active_posix pt \<and>
         (\<exists>ft. pos_timer_init_freertos fapi ftm fcb farg (ft0, fk) = Returns POS_OK (ft, fk') \<and>
            (pos_timer_init_doc (ft_handle ft \<noteq> None) (Inr POS_OK) \<longleftrightarrow> fh \<noteq> None) \<and>
            (fh = None \<longrightarrow> pos_timer_start_freertos hw fapi junk n (ft, fk') = Stops Undefined_Behaviour)) \<and>
         (\<exists>t. chip_os_timer_init_zephyr zapi zcb zarg (zt, zk) = Returns POS_OK (t, zk') \<and> ztm_cb t = zcb \<and> ztm_arg t = zarg \<and>
            pos_timer_init_doc True (Inr POS_OK) \<and> chip_os_timer_inited_zephyr any \<noteq> pos_timer_inited_doc False) \<and>
         (\<exists>t. pos_timer_init_rtt rapi rcb rarg (rt0, rk) = Returns POS_OK (t, rk') \<and>
            (pos_timer_init_doc (rtm_handle t \<noteq> None) (Inr POS_OK) \<longleftrightarrow> rh \<noteq> None))"
proof -
  have f: "\<exists>ft. pos_timer_init_freertos fapi ftm fcb farg (ft0, fk) = Returns POS_OK (ft, fk') \<and>
      (pos_timer_init_doc (ft_handle ft \<noteq> None) (Inr POS_OK) \<longleftrightarrow> fh \<noteq> None) \<and>
      (fh = None \<longrightarrow> pos_timer_start_freertos hw fapi junk n (ft, fk') = Stops Undefined_Behaviour)"
    using assms(3) by (cases junk)
      (simp add: pos_timer_init_freertos_def pos_timer_start_freertos_def pos_timer_init_doc_def prog_defs Let_def)
  have z: "\<exists>t. chip_os_timer_init_zephyr zapi zcb zarg (zt, zk) = Returns POS_OK (t, zk') \<and> ztm_cb t = zcb \<and> ztm_arg t = zarg \<and>
      pos_timer_init_doc True (Inr POS_OK) \<and> chip_os_timer_inited_zephyr any \<noteq> pos_timer_inited_doc False"
    using assms(4) by (simp add: chip_os_timer_init_zephyr_def pos_timer_init_doc_def pos_timer_inited_doc_def
        chip_os_timer_inited_zephyr_def prog_defs)
  have r: "\<exists>t. pos_timer_init_rtt rapi rcb rarg (rt0, rk) = Returns POS_OK (t, rk') \<and>
      (pos_timer_init_doc (rtm_handle t \<noteq> None) (Inr POS_OK) \<longleftrightarrow> rh \<noteq> None)"
    using assms(5) by (simp add: pos_timer_init_rtt_def pos_timer_init_doc_def prog_defs)
  show ?thesis using posix_timer_create.init_documented [OF assms(1,2)] f z r by blast
qed

theorem osal_timer_init_witness:
  "\<exists>pt ft. pos_timer_init_posix no_timers_posix 4 (Some 3) (None :: nat option)
       (timer_zero :: (nat, nat, nat) pos_timer_posix, \<lparr>rt_armed = \<lambda>_. None, rt_period = \<lambda>_. 0, rt_live = \<lambda>_. True, rt_now = 0\<rparr>) =
       Returns POS_ERROR (pt, \<lparr>rt_armed = \<lambda>_. None, rt_period = \<lambda>_. 0, rt_live = \<lambda>_. True, rt_now = 0\<rparr>) \<and>
     pos_timer_inited_posix pt = POS_EINVAL \<and>
     pos_timer_init_freertos no_timers_freertos 4 (Some (3 :: nat)) (None :: nat option)
       (\<lparr>ft_handle = None, ft_func = None, ft_arg = None\<rparr>,
        \<lparr>rft_period = \<lambda>_. 1, rft_expiry = \<lambda>_. 0, rft_active = \<lambda>_. False, rft_now = 0\<rparr>) =
       Returns POS_OK (ft, \<lparr>rft_period = \<lambda>_. 1, rft_expiry = \<lambda>_. 0, rft_active = \<lambda>_. False, rft_now = 0\<rparr>) \<and>
     \<not> pos_timer_init_doc (ft_handle ft \<noteq> None) (Inr POS_OK)"
proof -
  let ?pk = "\<lparr>rt_armed = \<lambda>_. None, rt_period = \<lambda>_. 0, rt_live = \<lambda>_. True, rt_now = 0\<rparr> :: ref_timers"
  let ?fk = "\<lparr>rft_period = \<lambda>_. 1, rft_expiry = \<lambda>_. 0, rft_active = \<lambda>_. False, rft_now = 0\<rparr> :: ref_ftimers"
  let ?pt = "timer_zero\<lparr>tm_cb := Some 3\<rparr> :: (nat, nat, nat) pos_timer_posix"
  let ?ft = "\<lparr>ft_handle = None, ft_func = None, ft_arg = None\<rparr> :: (nat, nat, nat) pos_timer_freertos"
  have p: "pos_timer_init_posix no_timers_posix 4 (Some 3) (None :: nat option) (timer_zero, ?pk) = Returns POS_ERROR (?pt, ?pk)"
    by (simp add: pos_timer_init_posix_def no_timers_posix_def timer_zero_def prog_defs)
  have f: "xTimerCreate no_timers_freertos ''timer'' 1 False 4 ?fk = Returns None ?fk"
    by (simp add: no_timers_freertos_def)
  have z: "k_timer_init ref_zephyr_timer (ztm_timer \<lparr>ztm_timer = 5, ztm_cb = None :: nat option, ztm_arg = None :: nat option\<rparr>)
      (\<lambda>_. None) = Returns () ((\<lambda>_. None)(5 := None))"
    by (simp add: ref_zephyr_timer_def)
  have r: "rt_timer_create no_timers_rtt ''chip_timer'' (Some 3) None 10 \<lparr>rrt_time = \<lambda>_. 10, rrt_left = \<lambda>_. None\<rparr> =
      Returns None \<lparr>rrt_time = \<lambda>_. 10, rrt_left = \<lambda>_. None\<rparr>"
    by (simp add: no_timers_rtt_def)
  from osal_timer_init [OF no_timer_create.posix_timer_create_axioms p f z r, of "Some 3" "None :: nat option" ?ft]
  obtain ft where ft: "pos_timer_init_freertos no_timers_freertos 4 (Some 3) (None :: nat option) (?ft, ?fk) = Returns POS_OK (ft, ?fk)"
      "\<not> pos_timer_init_doc (ft_handle ft \<noteq> None) (Inr POS_OK)"
      "pos_timer_inited_posix ?pt = pos_timer_inited_doc (tm_timer ?pt \<noteq> None)"
    by blast
  have "pos_timer_inited_posix ?pt = POS_EINVAL" using ft(3) by (simp add: pos_timer_inited_doc_def timer_zero_def)
  with p ft show ?thesis by blast
qed

end
