(* ===== verification/Spec2Isabelle.thy ===== *)
theory Spec2Isabelle
  imports Conform_Queue Conform_Timer Conform_Time Conform_Waits Freertos_Isr Os_Mutex_Threads
    Os_Ports Os_Sem_Threads Os_Task_Zephyr Posix_Heap Conform_Task Zephyr_Task_Threads Posix_Mutex_Threads
    Posix_Timer_Threads Posix_Task_Threads Conform_Sleep Conform_Timer_Life
begin

text \<open>
  Verification of poski, the portable operating system kernel interface of Project CHIP: a
  thin layer that offers tasks, recursive mutexes, counting semaphores, message queues, one-shot
  timers and time on top of POSIX, FreeRTOS, Zephyr and RT-Thread, with C++ classes above it.

  \<^bold>\<open>The program.\<close>  \<^verbatim>\<open>include/poski/osal\<close> declares the interface; each directory under
  \<^verbatim>\<open>targets\<close> implements it by calls of one kernel; \<^verbatim>\<open>include/poski/Os*.h\<close> are classes
  over the interface.  The POSIX queue is the one data structure that the layer builds itself:
  \<^verbatim>\<open>OsRing\<close> is a ring of fixed-size items with free-running 16-bit indices,
  \<^verbatim>\<open>RingPthread\<close> adds a mutex and a condition variable, and \<^verbatim>\<open>os_queue.cc\<close> wraps that as
  \<open>pos_queue\<close> with a signal callback.

  \<^bold>\<open>Style of the model.\<close>  A C function is a program (\<open>prog\<close> of \<^verbatim>\<open>Poski_Prelude\<close>): a
  function from a world to an outcome, which either returns a value and the new world or stops,
  by a failed assertion, by undefined behaviour, by an uncaught exception, because the caller
  waits (\<open>Blocked\<close>), or in the terminal loop of a panic.  A struct is a record; a world is the pair of the struct and the
  kernel below it (\<open>kcall\<close> runs a program on the second part, \<open>get_obj\<close> and \<open>upd_obj\<close>
  read and write the first); \<open>on_obj\<close> selects one struct of a family.  Machine integers are
  words of their width, a null pointer is \<open>None\<close>, a memory area is a list of bytes.  The name
  of a definition is the C name with the port as suffix.

  \<^bold>\<open>Code below the layer.\<close>  The calls of pthreads, the C library, FreeRTOS, Zephyr and RT-Thread
  are parameters, grouped in a record per component (\<open>pthread_mutex_api\<close>,
  \<open>freertos_queue_api\<close>, \<dots>).  What the kernel's documentation promises of them is a locale
  (\<open>pthread_mutex_kernel\<close>, \<open>freertos_queue_kernel\<close>, \<dots>), a hypothesis of the theorems;
  an executable reference kernel beside each locale interprets it, so that the hypotheses are
  known to hold together, and serves the witnesses.

  \<^bold>\<open>Contracts.\<close>  \<^verbatim>\<open>Osal_Interfaces\<close> states what the interface promises as locales:
  \<open>fifo_buffer\<close> (a bounded buffer abstracted to a list), \<open>osal_queue_core\<close> and
  \<open>osal_queue\<close>, \<open>osal_sem\<close>, \<open>osal_mutex\<close>.  Inside them the consequences for any
  sequence of calls are proved once: first-in first-out order, conservation of tokens, mutual
  exclusion and accounting of nested locks.  Every port's functions are shown to meet the contract
  by an interpretation (ring, POSIX queue) or a sublocale of the kernel locale (all others).  The
  FreeRTOS queue meets only \<open>osal_queue_core\<close>, because its get reports success on an
  empty queue.

  \<^bold>\<open>Documentation.\<close>  \<^verbatim>\<open>Osal_Api\<close> states the comments of the interface headers as relations between
  the state before a call, its result and the state after it (\<open>pos_mutex_lock_doc\<close>,
  \<open>pos_queue_get_doc\<close>, \<dots>).  A port \<open>meets\<close> such a relation when every sequence of calls, up to the first
  one that does not come back, is a trace of it; \<open>api_refinement\<close> is the simulation argument,
  proved once.  What a call does when it cannot succeed is a table per port, and the tables are where the ports
  and the headers differ: \<open>as_documented\<close> says that a row of a table is what the header allows, and the theorems on
  mutexes, semaphores and queues say for which timeouts it is.

  \<^bold>\<open>Theories.\<close>
  \<^item> \<^verbatim>\<open>Poski_Prelude\<close>: programs, their simplification rules, lemmas on words and lists.
  \<^item> \<^verbatim>\<open>Os_Types\<close>: the error codes (\<^verbatim>\<open>os_types.h\<close>) and \<open>SuccessOrExit\<close>.
  \<^item> \<^verbatim>\<open>Os_Ring\<close>: \<^verbatim>\<open>include/poski/OsRing.h\<close>.  The contents of the ring as a list, preserved well-formedness
    across the wrap-around of the indices, the exact effect of push, front and pop, and the arguments the constructor accepts.
  \<^item> \<^verbatim>\<open>Ring_Pthread\<close>: \<^verbatim>\<open>targets/posix/RingPthread.h\<close>, as sequential functions and as a step
    relation in which any number of threads lock, wait, wake (also spuriously), copy and signal.
    By rule induction: order and exclusion, no lost wake-up, no deadlock without counting on spurious wake-ups, when the assertion can fire.
  \<^item> \<^verbatim>\<open>Posix_Queue\<close>, \<^verbatim>\<open>Posix_Utils\<close>, \<^verbatim>\<open>Posix_Sem\<close>, \<^verbatim>\<open>Posix_Mutex\<close>: \<^verbatim>\<open>os_queue.cc\<close>, \<^verbatim>\<open>os_utils.c\<close>,
    \<^verbatim>\<open>os_sem.c\<close>, \<^verbatim>\<open>os_mutex.c\<close> of the POSIX port, Linux and Apple variants, with the arithmetic
    of deadlines.  \<^verbatim>\<open>Posix_Mutex_Threads\<close>: the mutex under concurrency, with the deadline that a timed lock computes in the
    shared struct: exclusion in every interleaving, and the race between two deadlines.
  \<^item> \<^verbatim>\<open>Posix_Heap\<close>: the memory of the POSIX queues.  The ring objects and their arrays are cells of an
    explicit store, with the constructors and destructors of \<^verbatim>\<open>OsRing.h\<close> and \<^verbatim>\<open>RingPthread.h\<close> and the functions of
    \<^verbatim>\<open>os_queue.cc\<close> on pointers.  Nothing dangles, is shared or leaks, for any allocator, as long as no queue is
    initialised twice, and the functions refine those of \<^verbatim>\<open>Posix_Queue\<close>.
  \<^item> \<^verbatim>\<open>Posix_Time\<close>: \<^verbatim>\<open>os_time.c\<close>, in double precision with correct rounding; the clock is proved
    exact.
  \<^item> \<^verbatim>\<open>Posix_Task\<close>, \<^verbatim>\<open>Posix_Timer\<close>: \<^verbatim>\<open>os_task.c\<close>, \<^verbatim>\<open>os_panic.c\<close>, \<^verbatim>\<open>os_timer.c\<close>: the task
    counter, the sleep loop, the life of a one-shot timer.  \<^verbatim>\<open>Posix_Timer_Threads\<close>: starts and stops by several threads
    interleaved with expiries and the notification threads: one callback per start in every
    interleaving, when the active flag can be trusted, and the races when it cannot.  \<^verbatim>\<open>Posix_Task_Threads\<close>: the load and the store of the task counter
    as steps.
  \<^item> \<^verbatim>\<open>Freertos_Sync\<close>, \<^verbatim>\<open>Freertos_Queue\<close>, \<^verbatim>\<open>Freertos_Timer\<close>: \<^verbatim>\<open>targets/freertos\<close> with the inline
    functions of its \<^verbatim>\<open>os_port.h\<close>, interrupt branches included.
  \<^item> \<^verbatim>\<open>Zephyr_Sync\<close>, \<^verbatim>\<open>Zephyr_Queue\<close>, \<^verbatim>\<open>Zephyr_Task\<close>: \<^verbatim>\<open>targets/zephyr\<close>; the pool of task stacks is
    a step relation with an invariant.  \<^verbatim>\<open>Zephyr_Task_Threads\<close>: \<open>pos_task_init\<close> and \<open>pos_task_remove\<close> called by several
    threads, every access to the table of stacks a step: what holds when initialisations are made one at a
    time, and the race when they are not.
  \<^item> \<^verbatim>\<open>Rtt_Sync\<close>, \<^verbatim>\<open>Rtt_Port\<close>: \<^verbatim>\<open>targets/rt-thread\<close>.
  \<^item> \<^verbatim>\<open>Os_Wrappers\<close>: the C++ classes, over the functions of an arbitrary port; their lemmas use the
    contracts only.  \<^verbatim>\<open>Os_Ports\<close>: \<open>OsQueue\<close> from constructor to destructor on Zephyr and RT-Thread.
    \<^verbatim>\<open>Os_Task_Zephyr\<close>: \<open>OsTask\<close> over the Zephyr port.
  \<^item> \<^verbatim>\<open>Os_Mutex_Threads\<close>: \<open>OsMutex\<close> under concurrency, every load and store of its counter a step.
    Safety by rule induction; progress and a measure that every step decreases.
    \<^verbatim>\<open>Os_Sem_Threads\<close>: the same for \<open>OsSemaphore\<close>, whose counter is atomic but changes after the port call.
  \<^item> \<^verbatim>\<open>Osal_Api\<close>: the documented interface.  \<^verbatim>\<open>Conform_Sync\<close>, \<^verbatim>\<open>Conform_Queue\<close>, \<^verbatim>\<open>Conform_Timer\<close>, \<^verbatim>\<open>Conform_Time\<close>:
    the four ports meet it, apart from the differences written into the tables; \<^verbatim>\<open>Conform_Task\<close>: tasks, where the contract
    \<open>osal_tasks\<close> relates the results of all calls so far, and the tasks that ended by themselves, to the threads of the kernel; \<^verbatim>\<open>Conform_Sleep\<close>: sleeping, as the kernel's tick count before and after a call;
    \<^verbatim>\<open>Conform_Timer_Life\<close>: creating timers, with failures of the kernel, and durations in milliseconds; \<^verbatim>\<open>Conform_Waits\<close>: where waits are as the headers say to the letter.
  \<^item> \<^verbatim>\<open>Port_Config\<close>: \<^verbatim>\<open>FreeRTOSConfig.h\<close> and the tick rates and priorities of the port headers.
    \<^verbatim>\<open>Freertos_Isr\<close>: the FreeRTOS port inside interrupt handlers.
  \<^item> This theory: the mutex interface across all four ports.

  \<^bold>\<open>Loops.\<close>  Three loops take the number of rounds as an argument and stop as \<open>Blocked\<close> when it
  runs out: the retry loop of \<open>pos_task_sleep_ms\<close>, which provably ends as soon as the rounds
  exceed the number of signals that arrive; and the destructors of \<open>OsMutex\<close> and
  \<open>OsSemaphore\<close>, which provably end with one round more than the counter.  \<open>pos_sched_start\<close>
  of the POSIX port is an endless loop by design.  All other loops are structural.

  \<^bold>\<open>Sequences and interleavings.\<close>  \<open>mutex_run\<close>, \<open>sem_run\<close> and \<open>queue_run\<close> execute an
  arbitrary list of calls by arbitrary tasks; a call is atomic there, as the kernels promise.
  \<^verbatim>\<open>RingPthread\<close>, \<open>OsMutex\<close>, \<open>OsSemaphore\<close>, the deadline of the POSIX mutex, the active flag of the POSIX timer, the POSIX task counter and the stack table of the Zephyr port, whose atomicity is the layer's own
  work, are modelled step by step.  The
  histories of \<^verbatim>\<open>RingPthread\<close> are proved to be those of atomic queue calls, and a thread of \<open>OsMutex\<close> or \<open>OsSemaphore\<close>
  that is not interrupted does what the sequential members describe.  A \<open>queue_run\<close> that blocks does not complete, and
  its theorems speak of completed calls; \<open>api_run\<close> also covers the call that waits or stops.

  \<^bold>\<open>Not modelled.\<close>  Prototypes without a comment, the comments of \<open>pos_task_yield\<close>, which speaks of
  scheduling, and of \<open>pos_get_current_task_id\<close> and \<open>pos_sched_started\<close>, whose value the kernel or a constant gives; include lists and macros that no code of the library uses; \<open>GetNative\<close> accessors and deleted copy
  operations; scheduling, priorities and real time inside
  the kernels; message text printed by \<open>pos_panic\<close> beyond the call; the pointer identity of C structs
  outside of \<^verbatim>\<open>Posix_Heap\<close>, which are named by the caller instead.  \<open>size_t\<close> is 64 bits wide for POSIX and 32 bits for the
  embedded ports.  \<open>pos_time_t\<close> has 32 bits on POSIX, Zephyr and RT-Thread.  On FreeRTOS it is \<open>TickType_t\<close>, 32 bits on the Cortex-M ports of
  that kernel and an \<open>unsigned long\<close> on the GCC/Posix port that \<^verbatim>\<open>config/posix\<close> is built with: the functions that compute with it
  (\<^verbatim>\<open>Freertos_Timer\<close>) are defined for every width, those that only hand on a timeout (\<^verbatim>\<open>Freertos_Sync\<close>,
  \<^verbatim>\<open>Freertos_Queue\<close>) for 32 bits.

  \<^bold>\<open>Deviations that the proofs exhibit.\<close>  A timed wait of the POSIX semaphore or mutex whose
  nanoseconds carry fails at once; two timed locks can exchange their deadlines; a finite timeout of the POSIX queue never expires; queue
  sizes are cut to 16 bits; the remaining time of a POSIX timer is wrong, restarting one can leave it armed but marked inactive, and
  its callback can run after a stop; two POSIX tasks created at the same time can be counted as one; FreeRTOS and RT-Thread report a timer that
  could not be created as a success, and their long sleeps in milliseconds are cut short (FreeRTOS, with 32-bit ticks) or handed on as negative numbers (RT-Thread); a FreeRTOS get
  reports success on an empty queue and a FreeRTOS timer stop reports \<open>POS_ENOMEM\<close>;
  removing a Zephyr task twice, or creating two tasks at the same time, lets two tasks share a stack, and starting an \<open>OsTask\<close>
  again loses one; an RT-Thread lock reports a timeout as
  \<open>POS_BAD_MUTEX\<close>; no port returns the documented value of \<open>pos_queue_inited\<close>, and none of the
  embedded ports \<open>POS_EBUSY\<close> for a call that must not wait; where FreeRTOS has 32-bit ticks at 1000 per second its millisecond
  clock and timers wrap after 72 minutes; \<open>pos_timer_stop\<close> of FreeRTOS waits also in an interrupt handler; \<open>pos_time_get\<close> of the embedded ports counts ticks; the largest priority of FreeRTOS and
  RT-Thread is out of range.  Each is a theorem in the theory of its component.
\<close>

section \<open>One mutex contract on four ports\<close>

context pthread_mutex_kernel
begin

lemma handover_posix:
  assumes "pos_mutex_init_posix api (mu, k) = Returns POS_OK w" and "n \<le> rec_limit"
  shows "returned (handover (pos_mutex_lock_posix api) (pos_mutex_unlock_posix api) n t u tmo w) = Some POS_OK"
proof -
  obtain mu' k' where w: "w = (mu', k')" by (cases w)
  then show ?thesis using posix_mutex.handover_ok [of w n t u tmo] init_ok [of mu k mu' k'] assms by auto
qed

end

context freertos_mutex_kernel
begin

lemma handover_freertos:
  assumes "\<not> pos_hw_in_isr_freertos hw k" and "pos_mutex_init_freertos api False (mu, k) = Returns e w"
  shows "returned (handover (pos_mutex_lock_freertos hw api False) (pos_mutex_unlock_freertos hw api False) n t u tmo w) =
         Some POS_OK"
proof -
  obtain mu' k' where w: "w = (mu', k')" by (cases w)
  then obtain h where "fm_handle mu' = Some h" "task_mutex k' h" "own k' h = None"
    using init_handle [OF assms(1)] assms(2) by blast
  with w show ?thesis using freertos_mutex.handover_ok [of h w n n t u tmo] by auto
qed

end

context zephyr_mutex_kernel
begin

lemma handover_zephyr:
  assumes "pos_mutex_init_zephyr api (mu, k) = Returns e w"
  shows "returned (handover (pos_mutex_lock_zephyr api) (pos_mutex_unlock_zephyr api) n t u tmo w) = Some POS_OK"
proof -
  obtain k' where "w = (mu, k')" "live k' (zm_mutex mu)" "own k' (zm_mutex mu) = None"
    using init_free [of mu k] assms by auto
  then show ?thesis using zephyr_mutex.handover_ok [of mu w n n t u tmo] by auto
qed

end

context rtt_mutex_kernel
begin

lemma handover_rtt:
  assumes "pos_mutex_init_rtt api False (mu, k) = Returns e w" and "n \<le> hold_max"
  shows "returned (handover (pos_mutex_lock_rtt api False) (pos_mutex_unlock_rtt api False) n t u tmo w) = Some POS_OK"
proof -
  obtain mu' k' where w: "w = (mu', k')" by (cases w)
  then obtain h where "rm_handle mu' = Some h" "usable k' h" "own k' h = None"
    using init_handle assms(1) by blast
  with w show ?thesis using rtt_mutex.handover_ok [of h w n t u tmo] assms(2) by auto
qed

end

section \<open>Properties\<close>

text \<open>C11. A client of the mutex interface sees the same behaviour on all four ports: on a freshly
  initialised mutex a task locks \<open>n\<close> times and unlocks \<open>n\<close> times, for any \<open>n\<close> within the limits of
  the POSIX and RT-Thread kernels, and another task then gets the mutex with any timeout; every
  call reports \<open>POS_OK\<close>.\<close>

theorem osal_mutex_portable:
  assumes "pthread_mutex_kernel p_api p_own recursive attr_recursive rec_limit"
    and "pos_mutex_init_posix p_api (p_mu, p_k) = Returns POS_OK p_w"
    and "freertos_mutex_kernel hw f_api f_own task_mutex" and "\<not> pos_hw_in_isr_freertos hw f_k"
    and "pos_mutex_init_freertos f_api False (f_mu, f_k) = Returns f_e f_w"
    and "zephyr_mutex_kernel z_api z_own live"
    and "pos_mutex_init_zephyr z_api (z_mu, z_k) = Returns z_e z_w"
    and "rtt_mutex_kernel r_api r_own usable hold_max"
    and "pos_mutex_init_rtt r_api False (r_mu, r_k) = Returns r_e r_w"
    and "n \<le> rec_limit" and "n \<le> hold_max"
  shows "returned (handover (pos_mutex_lock_posix p_api) (pos_mutex_unlock_posix p_api) n t u tmo p_w) = Some POS_OK \<and>
         returned (handover (pos_mutex_lock_freertos hw f_api False) (pos_mutex_unlock_freertos hw f_api False)
           n t u tmo f_w) = Some POS_OK \<and>
         returned (handover (pos_mutex_lock_zephyr z_api) (pos_mutex_unlock_zephyr z_api) n t u tmo z_w) = Some POS_OK \<and>
         returned (handover (pos_mutex_lock_rtt r_api False) (pos_mutex_unlock_rtt r_api False) n t u tmo r_w) =
           Some POS_OK"
  using pthread_mutex_kernel.handover_posix [OF assms(1,2,10)] freertos_mutex_kernel.handover_freertos [OF assms(3-5)]
    zephyr_mutex_kernel.handover_zephyr [OF assms(6,7)] rtt_mutex_kernel.handover_rtt [OF assms(8,9,11)]
  by blast

theorem osal_mutex_portable_witness:
  "\<exists>f_w z_w r_w.
     pos_mutex_init_freertos ref_freertos_mutex False (\<lparr>fm_handle = None\<rparr>, ref_freertos0) = Returns POS_OK f_w \<and>
     pos_mutex_init_zephyr ref_zephyr_mutex (\<lparr>zm_mutex = 0\<rparr>, \<lparr>rz_own = \<lambda>_. None, rz_count = \<lambda>_. 0\<rparr>) =
       Returns POS_OK z_w \<and>
     pos_mutex_init_rtt ref_rtt_mutex False (\<lparr>rm_handle = None\<rparr>, ref_rtt0) = Returns POS_OK r_w \<and>
     returned (handover (pos_mutex_lock_posix ref_mutex_api) (pos_mutex_unlock_posix ref_mutex_api)
       100 1 2 5 (mutex0, ref_mutexes1)) = Some POS_OK \<and>
     returned (handover (pos_mutex_lock_freertos ref_hw ref_freertos_mutex False)
       (pos_mutex_unlock_freertos ref_hw ref_freertos_mutex False) 100 1 2 5 f_w) = Some POS_OK \<and>
     returned (handover (pos_mutex_lock_zephyr ref_zephyr_mutex) (pos_mutex_unlock_zephyr ref_zephyr_mutex)
       100 1 2 5 z_w) = Some POS_OK \<and>
     returned (handover (pos_mutex_lock_rtt ref_rtt_mutex False) (pos_mutex_unlock_rtt ref_rtt_mutex False)
       100 1 2 5 r_w) = Some POS_OK"
proof -
  have isr: "\<not> pos_hw_in_isr_freertos ref_hw ref_freertos0"
    by (simp add: ref_hw_def ref_freertos0_def pos_hw_in_isr_freertos_def)
  obtain f_w where f: "pos_mutex_init_freertos ref_freertos_mutex False (\<lparr>fm_handle = None\<rparr>, ref_freertos0) =
      Returns POS_OK f_w"
    by (simp add: pos_mutex_init_freertos_def prog_defs ref_freertos_mutex_def ref_freertos0_def)
  obtain z_w where z: "pos_mutex_init_zephyr ref_zephyr_mutex
      (\<lparr>zm_mutex = 0\<rparr>, \<lparr>rz_own = \<lambda>_. None, rz_count = \<lambda>_. 0\<rparr>) = Returns POS_OK z_w"
    by (simp add: pos_mutex_init_zephyr_def prog_defs ref_zephyr_mutex_def)
  obtain r_w where r: "pos_mutex_init_rtt ref_rtt_mutex False (\<lparr>rm_handle = None\<rparr>, ref_rtt0) = Returns POS_OK r_w"
    by (simp add: pos_mutex_init_rtt_def prog_defs ref_rtt_mutex_def ref_rtt0_def)
  from osal_mutex_portable [OF ref_posix_mutex.pthread_mutex_kernel_axioms ref_mutex_init
      ref_freertos_mutex.freertos_mutex_kernel_axioms isr f ref_zephyr_mutex.zephyr_mutex_kernel_axioms z
      ref_rtt_mutex.rtt_mutex_kernel_axioms r, of 100 1 2 5] f z r
  show ?thesis by (auto simp: rm_limit_def RT_MUTEX_HOLD_MAX_def)
qed

end
